(* ===== verification/Swarm_Prelude.thy ===== *)
theory Swarm_Prelude
  imports Main "HOL-Library.AList" "HOL-Library.Char_ord" "HOL-Library.List_Lexorder"
begin

text \<open>
  What every component of the development shares.

  \<^item> The containers of the Rust sources. A \<^verbatim>\<open>HashMap\<close> is an association list with distinct
    keys (\<open>hmap\<close>); the order of the list stands for the table's unspecified iteration order, and
    every operation is stated for an arbitrary list. A \<^verbatim>\<open>BTreeMap\<close> is an association list
    sorted strictly by key (\<open>btree\<close>), which iterates in key order and whose equality is equality
    of maps. A \<^verbatim>\<open>String\<close> is its UTF-8 bytes, a \<open>string\<close>, ordered bytewise as Rust orders it.
  \<^item> The interface \<open>keyed_store\<close> of such containers, with the facts clients need about a series
    of insertions, interpreted on both.
  \<^item> Times and durations: nanoseconds; the multiplication of a \<^verbatim>\<open>Duration\<close> saturates. A \<^verbatim>\<open>u64\<close> that only
    counts up by one (generations, epochs, event counters) is a natural number: at one increment
    per nanosecond it would wrap after five centuries.
  \<^item> The outcome of a step that may panic or return early: the state it left and the cause.
  \<^item> Reachability and the interface \<open>step_invariant\<close> of an inductive invariant.
\<close>

named_theorems store_simps "laws of the containers, for simp"
named_theorems model_defs "plain definitions unfolded together in the component proofs"

section \<open>Containers\<close>

type_synonym ('k, 'v) hmap = "('k \<times> 'v) list"
type_synonym ('k, 'v) btree = "('k \<times> 'v) list"

abbreviation hget :: "('k, 'v) hmap \<Rightarrow> 'k \<Rightarrow> 'v option" where
  "hget m k \<equiv> map_of m k"

abbreviation hput :: "'k \<Rightarrow> 'v \<Rightarrow> ('k, 'v) hmap \<Rightarrow> ('k, 'v) hmap" where
  "hput k v m \<equiv> AList.update k v m"

abbreviation hdel :: "'k \<Rightarrow> ('k, 'v) hmap \<Rightarrow> ('k, 'v) hmap" where
  "hdel k m \<equiv> AList.delete k m"

abbreviation hkeys :: "('k, 'v) hmap \<Rightarrow> 'k list" where
  "hkeys m \<equiv> map fst m"

definition hmap_ok :: "('k, 'v) hmap \<Rightarrow> bool" where
  "hmap_ok m \<longleftrightarrow> distinct (hkeys m)"

definition hhas :: "('k, 'v) hmap \<Rightarrow> 'k \<Rightarrow> bool" where
  "hhas m k \<longleftrightarrow> hget m k \<noteq> None"

fun bt_insert :: "'k::linorder \<Rightarrow> 'v \<Rightarrow> ('k, 'v) btree \<Rightarrow> ('k, 'v) btree" where
  "bt_insert k v [] = [(k, v)]"
| "bt_insert k v ((a, w) # m) =
     (if k < a then (k, v) # (a, w) # m
      else if k = a then (k, v) # m
      else (a, w) # bt_insert k v m)"

definition bt_ok :: "('k::linorder, 'v) btree \<Rightarrow> bool" where
  "bt_ok m \<longleftrightarrow> sorted_wrt (<) (map fst m)"

text \<open>\<^verbatim>\<open>collect()\<close> into a \<^verbatim>\<open>BTreeMap\<close>: the pairs are inserted in turn, the last one of a key wins.\<close>

definition bt_collect :: "('k::linorder \<times> 'v) list \<Rightarrow> ('k, 'v) btree" where
  "bt_collect kvs = fold (\<lambda>(k, v). bt_insert k v) kvs []"

subsection \<open>Facts about the containers\<close>

lemma hhas_iff: "hhas m k \<longleftrightarrow> k \<in> set (hkeys m)"
  by (simp add: hhas_def map_of_eq_None_iff)

lemma hget_Some_mem: "hget m k = Some v \<Longrightarrow> k \<in> set (hkeys m)"
  by (metis hhas_def hhas_iff option.distinct(1))

lemma hkeys_hput: "set (hkeys (hput k v m)) = insert k (set (hkeys m))"
  by (auto simp: update_keys)

lemma hkeys_hdel: "set (hkeys (hdel k m)) = set (hkeys m) - {k}"
  by (auto simp: delete_keys)

lemma hmap_ok_Nil [simp, intro]: "hmap_ok []"
  by (simp add: hmap_ok_def)

lemma hmap_ok_hput [simp, intro]: "hmap_ok m \<Longrightarrow> hmap_ok (hput k v m)"
  by (simp add: hmap_ok_def distinct_update)

lemma hmap_ok_hdel [simp, intro]: "hmap_ok m \<Longrightarrow> hmap_ok (hdel k m)"
  by (simp add: hmap_ok_def distinct_delete)

lemma hget_mem_iff: "hmap_ok m \<Longrightarrow> hget m k = Some v \<longleftrightarrow> (k, v) \<in> set m"
  by (simp add: hmap_ok_def map_of_eq_Some_iff)

lemma length_hput: "length (hput k v m) = (if hhas m k then length m else Suc (length m))"
  by (induction m) (auto simp: hhas_def)

lemma length_hdel:
  "hmap_ok m \<Longrightarrow> length (hdel k m) = (if hhas m k then length m - 1 else length m)"
proof (induction m)
  case (Cons a m)
  then show ?case
    by (cases m) (auto simp: hmap_ok_def hhas_iff)
qed (simp add: hhas_def)

lemma map_of_bt_insert: "map_of (bt_insert k v m) = (map_of m)(k \<mapsto> v)"
  by (induction k v m rule: bt_insert.induct) auto

lemma keys_bt_insert: "set (map fst (bt_insert k v m)) = insert k (set (map fst m))"
  by (induction k v m rule: bt_insert.induct) auto

lemma bt_ok_Nil [simp, intro]: "bt_ok []"
  by (simp add: bt_ok_def)

lemma bt_ok_insert [simp, intro]: "bt_ok m \<Longrightarrow> bt_ok (bt_insert k v m)"
  unfolding bt_ok_def
proof (induction k v m rule: bt_insert.induct)
  case (2 k v a w m)
  moreover have "x \<in> set (map fst (bt_insert k v m)) \<Longrightarrow> x = k \<or> x \<in> set (map fst m)" for x
    using keys_bt_insert [of k v m] by blast
  ultimately show ?case by fastforce
qed simp

lemma bt_ok_distinct: "bt_ok m \<Longrightarrow> distinct (map fst m)"
  unfolding bt_ok_def by (simp add: strict_sorted_iff)

lemma bt_ok_delete [simp, intro]: "bt_ok m \<Longrightarrow> bt_ok (hdel k m)"
  unfolding bt_ok_def by (simp add: delete_keys removeAll_filter_not_eq sorted_wrt_filter)

lemma bt_eqI:
  assumes "bt_ok m" and "bt_ok n" and "map_of m = map_of n"
  shows "m = n"
proof -
  have "set (map fst m) = set (map fst n)"
    using assms(3) by (metis dom_map_of_conv_image_fst list.set_map)
  then have keys: "map fst m = map fst n"
    using assms(1,2) by (simp add: bt_ok_def strict_sorted_equal)
  have "snd (m ! i) = snd (n ! i)" if "i < length m" for i
  proof -
    from that keys have i: "i < length n" and f: "fst (m ! i) = fst (n ! i)"
      by (metis length_map, metis length_map nth_map)
    have "map_of m (fst (m ! i)) = Some (snd (m ! i))"
      using assms(1) that by (simp add: bt_ok_distinct)
    moreover have "map_of n (fst (n ! i)) = Some (snd (n ! i))"
      using assms(2) i by (simp add: bt_ok_distinct)
    ultimately show ?thesis using assms(3) f by simp
  qed
  then show ?thesis
    using keys by (metis length_map nth_equalityI nth_map prod.expand)
qed

section \<open>The interface of a keyed store\<close>

locale keyed_store =
  fixes lookup :: "'m \<Rightarrow> 'k \<Rightarrow> 'v option"
    and put :: "'k \<Rightarrow> 'v \<Rightarrow> 'm \<Rightarrow> 'm"
    and remove :: "'k \<Rightarrow> 'm \<Rightarrow> 'm"
    and ok :: "'m \<Rightarrow> bool"
  assumes lookup_put: "ok m \<Longrightarrow> lookup (put k v m) = (lookup m)(k \<mapsto> v)"
    and lookup_remove: "ok m \<Longrightarrow> lookup (remove k m) = (lookup m)(k := None)"
    and ok_put: "ok m \<Longrightarrow> ok (put k v m)"
    and ok_remove: "ok m \<Longrightarrow> ok (remove k m)"
begin

text \<open>A series of insertions: the store stays well formed, and the last write of a key wins.\<close>

lemma ok_puts: "ok m \<Longrightarrow> ok (fold (\<lambda>(k, v). put k v) kvs m)"
  by (induction kvs arbitrary: m) (auto simp: ok_put)

lemma lookup_puts: "ok m \<Longrightarrow> lookup (fold (\<lambda>(k, v). put k v) kvs m) = lookup m ++ map_of (rev kvs)"
proof (induction kvs arbitrary: m)
  case (Cons kv kvs)
  obtain k v where kv: "kv = (k, v)" by force
  have "lookup (fold (\<lambda>(k, v). put k v) kvs (put k v m)) = lookup (put k v m) ++ map_of (rev kvs)"
    by (rule Cons.IH [OF ok_put [OF Cons.prems]])
  also have "\<dots> = (lookup m)(k \<mapsto> v) ++ map_of (rev kvs)"
    by (simp only: lookup_put [OF Cons.prems])
  finally have "lookup (fold (\<lambda>(k, v). put k v) kvs (put k v m)) = (lookup m)(k \<mapsto> v) ++ map_of (rev kvs)" .
  then show ?case by (simp add: kv map_add_def fun_eq_iff split: option.split)
qed (simp add: map_add_def)

text \<open>A series of removals forgets exactly the keys named.\<close>

lemma ok_removes: "ok m \<Longrightarrow> ok (fold remove ks m)"
  by (induction ks arbitrary: m) (auto simp: ok_remove)

lemma lookup_removes: "ok m \<Longrightarrow> lookup (fold remove ks m) = (lookup m) |` (- set ks)"
  by (induction ks arbitrary: m)
     (auto simp: lookup_remove ok_remove restrict_map_def fun_eq_iff)

end

interpretation hm: keyed_store map_of AList.update AList.delete hmap_ok
  by unfold_locales (auto simp: update_conv' delete_conv')

interpretation bt: keyed_store map_of bt_insert AList.delete bt_ok
  by unfold_locales (auto simp: map_of_bt_insert delete_conv')

lemmas hget_hput = hm.lookup_put
lemmas hget_hdel = hm.lookup_remove

lemma bt_collect_ok [simp, intro]: "bt_ok (bt_collect kvs)"
  unfolding bt_collect_def by (rule bt.ok_puts) simp

lemma map_of_bt_collect: "map_of (bt_collect kvs) = map_of (rev kvs)"
  unfolding bt_collect_def using bt.lookup_puts [of "[]" kvs] by (simp add: map_add_def fun_eq_iff split: option.split)

lemma keys_bt_collect: "set (map fst (bt_collect kvs)) = set (map fst kvs)"
proof -
  have "dom (map_of (bt_collect kvs)) = dom (map_of (rev kvs))"
    by (simp add: map_of_bt_collect)
  then show ?thesis by (simp add: dom_map_of_conv_image_fst)
qed

text \<open>Collecting a well-formed tree again changes nothing.\<close>

lemma map_of_rev_distinct: "distinct (map fst m) \<Longrightarrow> map_of (rev m) = map_of m"
  by (rule map_of_inject_set [THEN iffD2]) (auto simp: rev_map [symmetric])

lemma bt_collect_id: "bt_ok m \<Longrightarrow> bt_collect m = m"
  by (rule bt_eqI) (auto simp: map_of_bt_collect map_of_rev_distinct bt_ok_distinct)

section \<open>Times and durations\<close>

type_synonym nanos = nat
type_synonym timestamp = int

text \<open>\<^verbatim>\<open>Duration::MAX\<close>: \<^verbatim>\<open>u64::MAX\<close> seconds and 999999999 nanoseconds.\<close>

definition DURATION_MAX :: nanos where
  "DURATION_MAX = (2 ^ 64 - 1) * 1000000000 + 999999999"

definition duration_saturating_mul :: "nanos \<Rightarrow> nat \<Rightarrow> nanos" where
  "duration_saturating_mul d k = min (d * k) DURATION_MAX"

abbreviation millis :: "nat \<Rightarrow> nanos" where
  "millis n \<equiv> n * 1000000"

abbreviation secs :: "nat \<Rightarrow> nanos" where
  "secs n \<equiv> n * 1000000000"

section \<open>Steps that may stop\<close>

text \<open>
  A panic, or an early return with an error, keeps what the step already wrote: the state at that
  moment and the cause.
\<close>

datatype ('e, 's) outcome = Done 's | Stopped 'e 's

primrec outcome_state :: "('e, 's) outcome \<Rightarrow> 's" where
  "outcome_state (Done s) = s"
| "outcome_state (Stopped m s) = s"

primrec and_then :: "('e, 's) outcome \<Rightarrow> ('s \<Rightarrow> ('e, 's) outcome) \<Rightarrow> ('e, 's) outcome" where
  "and_then (Done s) f = f s"
| "and_then (Stopped m s) f = Stopped m s"

text \<open>A loop whose body may panic.\<close>

fun for_each :: "('a \<Rightarrow> 's \<Rightarrow> ('e, 's) outcome) \<Rightarrow> 'a list \<Rightarrow> 's \<Rightarrow> ('e, 's) outcome" where
  "for_each f [] s = Done s"
| "for_each f (x # xs) s = and_then (f x s) (for_each f xs)"

lemma outcome_state_and_then:
  "outcome_state (and_then r f) = (case r of Done s \<Rightarrow> outcome_state (f s) | Stopped m s \<Rightarrow> s)"
  by (cases r) simp_all

text \<open>An invariant of the body, panics included, is an invariant of the loop.\<close>

lemma for_each_invariant:
  assumes "\<And>x s. x \<in> set xs \<Longrightarrow> I s \<Longrightarrow> I (outcome_state (f x s))" and "I s"
  shows "I (outcome_state (for_each f xs s))"
  using assms
proof (induction xs arbitrary: s)
  case (Cons x xs)
  show ?case
  proof (cases "f x s")
    case (Done s')
    then have "I s'" using Cons.prems(1) [of x s] Cons.prems(2) by simp
    then show ?thesis using Done Cons.IH [of s'] Cons.prems(1) by simp
  next
    case (Stopped m s')
    then show ?thesis using Cons.prems(1) [of x s] Cons.prems(2) by simp
  qed
qed simp

section \<open>Reachable states\<close>

inductive reach :: "('s \<Rightarrow> bool) \<Rightarrow> ('s \<Rightarrow> 's \<Rightarrow> bool) \<Rightarrow> 's \<Rightarrow> bool"
  for init :: "'s \<Rightarrow> bool" and step :: "'s \<Rightarrow> 's \<Rightarrow> bool" where
  reach_init: "init s \<Longrightarrow> reach init step s"
| reach_step: "reach init step s \<Longrightarrow> step s t \<Longrightarrow> reach init step t"

locale step_invariant =
  fixes init :: "'s \<Rightarrow> bool" and step :: "'s \<Rightarrow> 's \<Rightarrow> bool" and inv :: "'s \<Rightarrow> bool"
  assumes inv_init: "init s \<Longrightarrow> inv s"
    and inv_step: "inv s \<Longrightarrow> step s t \<Longrightarrow> inv t"
begin

lemma inv_reach: "reach init step s \<Longrightarrow> inv s"
  by (induction rule: reach.induct) (auto intro: inv_init inv_step)

lemma inv_steps: "step\<^sup>*\<^sup>* s t \<Longrightarrow> inv s \<Longrightarrow> inv t"
  by (induction rule: rtranclp_induct) (auto intro: inv_step)

end

end
