(* ===== verification/Rust_Text.thy ===== *)
theory Rust_Text
  imports Swarm_Prelude
begin

text \<open>
  The text and number rules the collectors share: \<^verbatim>\<open>src/src/text.rs\<close> (case folding and white space),
  \<^verbatim>\<open>src/src/num.rs\<close> (the conversion of an integer to a gauge value) and what they use of the standard
  library: ASCII classes, UTF-8 decoding, \<^verbatim>\<open>str::trim\<close>.

  A string is its UTF-8 bytes. Case conversion beyond ASCII needs the Unicode tables and the CIDR
  arithmetic of the placement constraints is the \<^verbatim>\<open>ipnet\<close> crate's: both are the fields of the record
  \<open>extern\<close>, the argument \<open>E\<close> of the definitions that use them. On an ASCII string
  \<open>to_lowercase\<close> computes.
\<close>

section \<open>Bytes and ASCII\<close>

abbreviation byte :: "char \<Rightarrow> nat" where
  "byte c \<equiv> of_char c"

definition is_ascii :: "char \<Rightarrow> bool" where
  "is_ascii c \<longleftrightarrow> byte c < 128"

definition is_ascii_digit :: "char \<Rightarrow> bool" where
  "is_ascii_digit c \<longleftrightarrow> 48 \<le> byte c \<and> byte c \<le> 57"

definition is_ascii_uppercase :: "char \<Rightarrow> bool" where
  "is_ascii_uppercase c \<longleftrightarrow> 65 \<le> byte c \<and> byte c \<le> 90"

definition is_ascii_lowercase :: "char \<Rightarrow> bool" where
  "is_ascii_lowercase c \<longleftrightarrow> 97 \<le> byte c \<and> byte c \<le> 122"

definition is_ascii_alphabetic :: "char \<Rightarrow> bool" where
  "is_ascii_alphabetic c \<longleftrightarrow> is_ascii_uppercase c \<or> is_ascii_lowercase c"

definition to_ascii_lowercase_char :: "char \<Rightarrow> char" where
  "to_ascii_lowercase_char c = (if is_ascii_uppercase c then char_of (byte c + 32) else c)"

definition to_ascii_lowercase :: "string \<Rightarrow> string" where
  "to_ascii_lowercase s = map to_ascii_lowercase_char s"

definition eq_ignore_ascii_case :: "string \<Rightarrow> string \<Rightarrow> bool" where
  "eq_ignore_ascii_case a b \<longleftrightarrow> to_ascii_lowercase a = to_ascii_lowercase b"

lemma byte_less_256: "byte c < 256"
  by (metis char_of_char mod_less_divisor of_char_of zero_less_numeral)

lemma byte_lower: "is_ascii_uppercase c \<Longrightarrow> byte (char_of (byte c + 32)) = byte c + 32"
  by (simp add: is_ascii_uppercase_def)

lemma to_ascii_lowercase_char_idem [simp]:
  "to_ascii_lowercase_char (to_ascii_lowercase_char c) = to_ascii_lowercase_char c"
  by (auto simp: to_ascii_lowercase_char_def is_ascii_uppercase_def)

lemma to_ascii_lowercase_idem [simp]:
  "to_ascii_lowercase (to_ascii_lowercase s) = to_ascii_lowercase s"
  by (simp add: to_ascii_lowercase_def comp_def)

lemma to_ascii_lowercase_not_upper: "\<not> is_ascii_uppercase (to_ascii_lowercase_char c)"
  by (auto simp: to_ascii_lowercase_char_def is_ascii_uppercase_def)

section \<open>UTF-8\<close>

text \<open>
  The reader of one UTF-8 sequence, as \<^verbatim>\<open>std::str::from_utf8\<close> and \<^verbatim>\<open>Utf8Chunks\<close> scan it: how many
  bytes it takes and whether they are a whole character. An invalid sequence takes the longest
  prefix that a valid one could have.
\<close>

definition utf8_char_width :: "char \<Rightarrow> nat" where
  "utf8_char_width c =
     (let b = byte c in
      if b < 0x80 then 1
      else if 0xC2 \<le> b \<and> b \<le> 0xDF then 2
      else if 0xE0 \<le> b \<and> b \<le> 0xEF then 3
      else if 0xF0 \<le> b \<and> b \<le> 0xF4 then 4
      else 0)"

definition utf8_continuation :: "char \<Rightarrow> bool" where
  "utf8_continuation c \<longleftrightarrow> 0x80 \<le> byte c \<and> byte c \<le> 0xBF"

definition utf8_second_ok :: "char \<Rightarrow> char \<Rightarrow> bool" where
  "utf8_second_ok lead c \<longleftrightarrow>
     (let b = byte c in
      if byte lead = 0xE0 then 0xA0 \<le> b \<and> b \<le> 0xBF
      else if byte lead = 0xED then 0x80 \<le> b \<and> b \<le> 0x9F
      else if byte lead = 0xF0 then 0x90 \<le> b \<and> b \<le> 0xBF
      else if byte lead = 0xF4 then 0x80 \<le> b \<and> b \<le> 0x8F
      else utf8_continuation c)"

fun utf8_chunk :: "string \<Rightarrow> nat \<times> bool" where
  "utf8_chunk [] = (0, False)"
| "utf8_chunk (c # cs) =
     (let w = utf8_char_width c in
      if w = 1 then (1, True)
      else if w = 0 then (1, False)
      else if cs = [] \<or> \<not> utf8_second_ok c (cs ! 0) then (1, False)
      else if w = 2 then (2, True)
      else if length cs < 2 \<or> \<not> utf8_continuation (cs ! 1) then (2, False)
      else if w = 3 then (3, True)
      else if length cs < 3 \<or> \<not> utf8_continuation (cs ! 2) then (3, False)
      else (4, True))"

lemma utf8_chunk_pos: "s \<noteq> [] \<Longrightarrow> 0 < fst (utf8_chunk s)"
  by (cases s) (auto simp: Let_def)

lemma utf8_chunk_le: "fst (utf8_chunk s) \<le> length s"
  by (cases s) (auto simp: Let_def not_less Suc_le_eq)

text \<open>\<^verbatim>\<open>std::str::from_utf8(..).is_ok()\<close>.\<close>

function from_utf8_ok :: "string \<Rightarrow> bool" where
  "from_utf8_ok s \<longleftrightarrow>
     (if s = [] then True
      else snd (utf8_chunk s) \<and> from_utf8_ok (drop (fst (utf8_chunk s)) s))"
  by pat_completeness auto
termination
proof (relation "measure length")
  fix s :: string
  assume "s \<noteq> []"
  then show "(drop (fst (utf8_chunk s)) s, s) \<in> measure length"
    using utf8_chunk_pos [of s] by simp
qed simp

declare from_utf8_ok.simps [simp del]

text \<open>\<^verbatim>\<open>String::from_utf8_lossy\<close>: each invalid sequence becomes one U+FFFD, \<^verbatim>\<open>ef bf bd\<close>.\<close>

definition REPLACEMENT :: string where
  "REPLACEMENT = [CHR 0xEF, CHR 0xBF, CHR 0xBD]"

function from_utf8_lossy :: "string \<Rightarrow> string" where
  "from_utf8_lossy s =
     (if s = [] then []
      else (let n = fst (utf8_chunk s) in
            (if snd (utf8_chunk s) then take n s else REPLACEMENT) @ from_utf8_lossy (drop n s)))"
  by pat_completeness auto
termination
proof (relation "measure length")
  fix s :: string and n
  assume "s \<noteq> []" "n = fst (utf8_chunk s)"
  then show "(drop n s, s) \<in> measure length"
    using utf8_chunk_pos [of s] by simp
qed simp

declare from_utf8_lossy.simps [simp del]

lemma from_utf8_lossy_id: "from_utf8_ok s \<Longrightarrow> from_utf8_lossy s = s"
proof (induction s rule: from_utf8_ok.induct)
  case (1 s)
  then show ?case
    by (cases "s = []")
       (simp add: from_utf8_lossy.simps, simp add: from_utf8_ok.simps [of s] from_utf8_lossy.simps [of s] Let_def)
qed

text \<open>\<^verbatim>\<open>str::is_char_boundary\<close>.\<close>

definition is_char_boundary :: "string \<Rightarrow> nat \<Rightarrow> bool" where
  "is_char_boundary s i \<longleftrightarrow>
     i = 0 \<or> i = length s \<or> (i < length s \<and> \<not> utf8_continuation (s ! i))"

section \<open>White space\<close>

text \<open>The characters of the Unicode property \<^verbatim>\<open>White_Space\<close>, encoded.\<close>

definition white_space :: "string list" where
  "white_space =
     [[CHR 0x09], [CHR 0x0A], [CHR 0x0B], [CHR 0x0C], [CHR 0x0D], [CHR 0x20],
      [CHR 0xC2, CHR 0x85], [CHR 0xC2, CHR 0xA0], [CHR 0xE1, CHR 0x9A, CHR 0x80],
      [CHR 0xE2, CHR 0x80, CHR 0x80], [CHR 0xE2, CHR 0x80, CHR 0x81], [CHR 0xE2, CHR 0x80, CHR 0x82],
      [CHR 0xE2, CHR 0x80, CHR 0x83], [CHR 0xE2, CHR 0x80, CHR 0x84], [CHR 0xE2, CHR 0x80, CHR 0x85],
      [CHR 0xE2, CHR 0x80, CHR 0x86], [CHR 0xE2, CHR 0x80, CHR 0x87], [CHR 0xE2, CHR 0x80, CHR 0x88],
      [CHR 0xE2, CHR 0x80, CHR 0x89], [CHR 0xE2, CHR 0x80, CHR 0x8A], [CHR 0xE2, CHR 0x80, CHR 0xA8],
      [CHR 0xE2, CHR 0x80, CHR 0xA9], [CHR 0xE2, CHR 0x80, CHR 0xAF], [CHR 0xE2, CHR 0x81, CHR 0x9F],
      [CHR 0xE3, CHR 0x80, CHR 0x80]]"

definition starts_with :: "string \<Rightarrow> string \<Rightarrow> bool" where
  "starts_with p s \<longleftrightarrow> take (length p) s = p"

text \<open>Drops leading pieces of \<open>ps\<close> as long as one matches.\<close>

function strip_leading :: "string list \<Rightarrow> string \<Rightarrow> string" where
  "strip_leading ps s =
     (case List.find (\<lambda>p. p \<noteq> [] \<and> starts_with p s) ps of
        None \<Rightarrow> s
      | Some p \<Rightarrow> strip_leading ps (drop (length p) s))"
  by pat_completeness auto
termination
proof (relation "measure (\<lambda>(ps, s). length s)")
  fix ps :: "string list" and s p
  assume "List.find (\<lambda>p. p \<noteq> [] \<and> starts_with p s) ps = Some p"
  then have "p \<noteq> []" "s \<noteq> []" by (auto simp: find_Some_iff starts_with_def)
  then show "((ps, drop (length p) s), ps, s) \<in> measure (\<lambda>(ps, s). length s)" by simp
qed simp

declare strip_leading.simps [simp del]

definition trim_start :: "string \<Rightarrow> string" where
  "trim_start s = strip_leading white_space s"

definition trim_end :: "string \<Rightarrow> string" where
  "trim_end s = rev (strip_leading (map rev white_space) (rev s))"

definition trim_space :: "string \<Rightarrow> string" where
  "trim_space s = trim_end (trim_start s)"

text \<open>A string that no piece starts is left alone, and stripping ends in one.\<close>

lemma starts_with_append: "starts_with p s \<Longrightarrow> starts_with p (s @ t)"
  unfolding starts_with_def by (metis append_eq_conv_conj append_take_drop_id append.assoc)

lemma strip_leading_none:
  "strip_leading ps s = s \<longleftrightarrow> List.find (\<lambda>p. p \<noteq> [] \<and> starts_with p s) ps = None"
proof
  assume eq: "strip_leading ps s = s"
  have shorter: "length (strip_leading qs t) \<le> length t" for qs t
    by (induction qs t rule: strip_leading.induct)
       (subst strip_leading.simps, fastforce split: option.split)
  show "List.find (\<lambda>p. p \<noteq> [] \<and> starts_with p s) ps = None"
  proof (rule ccontr)
    assume "List.find (\<lambda>p. p \<noteq> [] \<and> starts_with p s) ps \<noteq> None"
    then obtain p where p: "List.find (\<lambda>p. p \<noteq> [] \<and> starts_with p s) ps = Some p" by blast
    then have "p \<noteq> []" "starts_with p s" by (auto simp: find_Some_iff)
    then have "length (drop (length p) s) < length s"
      by (metis length_drop diff_less length_greater_0_conv starts_with_def take_eq_Nil)
    moreover have "strip_leading ps (drop (length p) s) = s"
      using eq p by (simp add: strip_leading.simps [of ps s])
    ultimately show False using shorter [of ps "drop (length p) s"] by simp
  qed
qed (simp add: strip_leading.simps)

lemma strip_leading_fixed: "strip_leading ps (strip_leading ps s) = strip_leading ps s"
proof (induction ps s rule: strip_leading.induct)
  case (1 ps s)
  show ?case
  proof (cases "List.find (\<lambda>p. p \<noteq> [] \<and> starts_with p s) ps")
    case None
    then show ?thesis by (simp add: strip_leading.simps [of ps s])
  next
    case (Some p)
    then show ?thesis using 1 by (simp add: strip_leading.simps [of ps s])
  qed
qed

lemma strip_leading_suffix: "\<exists>u. s = u @ strip_leading ps s"
proof (induction ps s rule: strip_leading.induct)
  case (1 ps s)
  show ?case
  proof (cases "List.find (\<lambda>p. p \<noteq> [] \<and> starts_with p s) ps")
    case None
    then show ?thesis by (simp add: strip_leading.simps [of ps s])
  next
    case (Some p)
    with 1 obtain u where "drop (length p) s = u @ strip_leading ps (drop (length p) s)" by blast
    then have "s = (take (length p) s @ u) @ strip_leading ps (drop (length p) s)"
      by (metis append_take_drop_id append.assoc)
    then have "s = (take (length p) s @ u) @ strip_leading ps s"
      using Some by (simp add: strip_leading.simps [of ps s])
    then show ?thesis by blast
  qed
qed

lemma strip_leading_prefix_fixed:
  assumes "strip_leading ps (s @ t) = s @ t"
  shows "strip_leading ps s = s"
  using assms unfolding strip_leading_none
  by (auto simp: find_None_iff dest: starts_with_append)

lemma trim_space_decompose: "\<exists>u v. s = u @ trim_space s @ v"
proof -
  obtain u where u: "s = u @ trim_start s"
    using strip_leading_suffix unfolding trim_start_def by blast
  obtain v where "rev (trim_start s) = v @ strip_leading (map rev white_space) (rev (trim_start s))"
    using strip_leading_suffix by blast
  then have "trim_start s = trim_space s @ rev v"
    unfolding trim_space_def trim_end_def by (metis rev_append rev_rev_ident)
  with u show ?thesis by metis
qed

lemma trim_space_idem: "trim_space (trim_space s) = trim_space s"
proof -
  obtain v where v: "trim_start s = trim_space s @ v"
  proof -
    obtain v where "rev (trim_start s) = v @ strip_leading (map rev white_space) (rev (trim_start s))"
      using strip_leading_suffix by blast
    then have "trim_start s = trim_space s @ rev v"
      unfolding trim_space_def trim_end_def by (metis rev_append rev_rev_ident)
    then show ?thesis by (rule that)
  qed
  have "trim_start (trim_start s) = trim_start s"
    by (simp add: trim_start_def strip_leading_fixed)
  then have "trim_start (trim_space s) = trim_space s"
    unfolding v trim_start_def [symmetric] using strip_leading_prefix_fixed
    by (metis trim_start_def v)
  then show ?thesis
    by (simp add: trim_space_def [of "trim_space s"]) (simp add: trim_space_def trim_end_def strip_leading_fixed)
qed

section \<open>Code outside the sources\<close>

text \<open>
  An \<^verbatim>\<open>IpAddr\<close> is the number its octets spell. An \<^verbatim>\<open>IpNet\<close> is the crate's enum: an address and a
  prefix length.
\<close>

datatype ip_addr = V4 nat | V6 nat

datatype ip_net = NetV4 nat nat | NetV6 nat nat

text \<open>
  \<open>unicode_lower\<close> is \<^verbatim>\<open>str::to_lowercase\<close> of a string that is not ASCII. The other fields are the
  \<^verbatim>\<open>ipnet\<close> crate's \<^verbatim>\<open>IpNet::from_str\<close>, \<^verbatim>\<open>Ipv6Net::network\<close>, \<^verbatim>\<open>Ipv4Net::new\<close> and
  \<^verbatim>\<open>IpNet::contains(&IpAddr)\<close>.
\<close>

record extern =
  unicode_lower :: "string \<Rightarrow> string"
  ipnet_parse :: "string \<Rightarrow> ip_net option"
  ipv6net_network :: "nat \<Rightarrow> nat \<Rightarrow> nat"
  ipv4net_new :: "nat \<Rightarrow> nat \<Rightarrow> ip_net option"
  ipnet_contains :: "ip_net \<Rightarrow> ip_addr \<Rightarrow> bool"

definition to_lower :: "extern \<Rightarrow> string \<Rightarrow> string" where
  "to_lower E s = (if list_all is_ascii s then to_ascii_lowercase s else unicode_lower E s)"

definition equal_fold :: "extern \<Rightarrow> string \<Rightarrow> string \<Rightarrow> bool" where
  "equal_fold E a b \<longleftrightarrow> eq_ignore_ascii_case a b \<or> to_lower E a = to_lower E b"

lemma equal_fold_refl [simp]: "equal_fold E a a"
  by (simp add: equal_fold_def)

lemma equal_fold_sym: "equal_fold E a b \<longleftrightarrow> equal_fold E b a"
  by (auto simp: equal_fold_def eq_ignore_ascii_case_def)

lemma equal_fold_ascii:
  "list_all is_ascii a \<Longrightarrow> list_all is_ascii b \<Longrightarrow>
   equal_fold E a b \<longleftrightarrow> to_ascii_lowercase a = to_ascii_lowercase b"
  by (simp add: equal_fold_def eq_ignore_ascii_case_def to_lower_def)

section \<open>Gauge values\<close>

text \<open>
  Every \<^verbatim>\<open>f64\<close> of the modelled metrics is integral: a gauge value is an \<open>int\<close>. \<open>from_int\<close>
  rounds to the nearest value with 53 significant bits, ties to even, as \<^verbatim>\<open>as f64\<close> does.
\<close>

fun bit_len :: "nat \<Rightarrow> nat" where
  "bit_len n = (if n = 0 then 0 else Suc (bit_len (n div 2)))"

declare bit_len.simps [simp del]

definition round53 :: "nat \<Rightarrow> nat" where
  "round53 n =
     (let e = bit_len n - 53; q = n div 2 ^ e; r = n mod 2 ^ e in
      (if 2 * r > 2 ^ e \<or> (2 * r = 2 ^ e \<and> odd q) then Suc q else q) * 2 ^ e)"

definition from_int :: "int \<Rightarrow> int" where
  "from_int v = sgn v * int (round53 (nat \<bar>v\<bar>))"

text \<open>The sum of two gauge values, in \<^verbatim>\<open>f64\<close>.\<close>

definition f64_add :: "int \<Rightarrow> int \<Rightarrow> int" where
  "f64_add a b = from_int (a + b)"

lemma bit_len_le: "n < 2 ^ k \<Longrightarrow> bit_len n \<le> k"
proof (induction k arbitrary: n)
  case (Suc k)
  then have "n div 2 < 2 ^ k" by (simp add: less_mult_imp_div_less)
  then have "bit_len (n div 2) \<le> k" by (rule Suc.IH)
  then show ?case by (subst bit_len.simps) simp
qed (simp add: bit_len.simps)

lemma round53_exact: "n < 2 ^ 53 \<Longrightarrow> round53 n = n"
  using bit_len_le [of n 53] by (simp add: round53_def)

lemma from_int_exact: "\<bar>v\<bar> < 2 ^ 53 \<Longrightarrow> from_int v = v"
  using round53_exact [of "nat \<bar>v\<bar>"] by (simp add: from_int_def nat_less_iff sgn_if)

lemma from_int_0 [simp]: "from_int 0 = 0"
  by (simp add: from_int_def)

lemma from_int_1 [simp]: "from_int 1 = 1"
  by (rule from_int_exact) simp

lemma from_int_nonneg: "0 \<le> v \<Longrightarrow> 0 \<le> from_int v"
  by (simp add: from_int_def sgn_if)

end
