(* ===== verification/Docker_Types.thy ===== *)
theory Docker_Types
  imports Rust_Text
begin

text \<open>
  \<^verbatim>\<open>src/src/docker/types.rs\<close>: the Engine API objects the exporter reads, one record per struct, with
  the source's fields. Integers a daemon sends are kept as naturals (\<^verbatim>\<open>u64\<close>) or integers (\<^verbatim>\<open>i64\<close>); a
  timestamp is its nanoseconds since the epoch, in a type of its own with the source's order.
\<close>

section \<open>Times\<close>

datatype gotime = GoTime (timestamp: timestamp)

definition GO_ZERO_SECONDS :: int where
  "GO_ZERO_SECONDS = - 62135596800"

definition go_zero_time :: timestamp where
  "go_zero_time = GO_ZERO_SECONDS * 1000000000"

instantiation gotime :: linorder
begin

definition less_eq_gotime :: "gotime \<Rightarrow> gotime \<Rightarrow> bool" where
  "less_eq_gotime a b \<longleftrightarrow> timestamp a \<le> timestamp b"

definition less_gotime :: "gotime \<Rightarrow> gotime \<Rightarrow> bool" where
  "less_gotime a b \<longleftrightarrow> timestamp a < timestamp b"

instance
  by intro_classes (auto simp: less_eq_gotime_def less_gotime_def gotime.expand)

end

definition is_zero :: "gotime \<Rightarrow> bool" where
  "is_zero t \<longleftrightarrow> timestamp t = go_zero_time"

definition gotime_default :: gotime where
  "gotime_default = GoTime go_zero_time"

text \<open>
  \<^verbatim>\<open>jiff\<close>'s \<^verbatim>\<open>as_second\<close> rounds towards zero, and \<^verbatim>\<open>subsec_nanosecond\<close> has the sign of the time.
\<close>

definition as_second :: "timestamp \<Rightarrow> int" where
  "as_second t = sgn t * (\<bar>t\<bar> div 1000000000)"

definition subsec_nanosecond :: "timestamp \<Rightarrow> int" where
  "subsec_nanosecond t = t - as_second t * 1000000000"

definition unix :: "gotime \<Rightarrow> int" where
  "unix t =
     (let seconds = as_second (timestamp t) in
      if subsec_nanosecond (timestamp t) < 0 then seconds - 1 else seconds)"

lemma is_zero_default [simp]: "is_zero gotime_default"
  by (simp add: is_zero_def gotime_default_def)

text \<open>\<open>unix\<close> rounds down, as Go's \<^verbatim>\<open>Time.Unix\<close> does.\<close>

lemma unix_floor: "unix t = timestamp t div 1000000000"
proof -
  define n where "n = timestamp t"
  show ?thesis
  proof (cases "n < 0")
    case False
    then have "as_second n = n div 1000000000" by (simp add: as_second_def sgn_if)
    moreover have "\<not> n - n div 1000000000 * 1000000000 < 0"
      by (simp add: minus_div_mult_eq_mod)
    ultimately show ?thesis by (simp add: unix_def n_def [symmetric] subsec_nanosecond_def Let_def)
  next
    case True
    then have s: "as_second n = - ((- n) div 1000000000)" by (simp add: as_second_def sgn_if)
    have q: "n = n div 1000000000 * 1000000000 + n mod 1000000000" by simp
    show ?thesis
    proof (cases "n mod 1000000000 = 0")
      case True
      then have "as_second n = n div 1000000000" unfolding s by (simp add: zdiv_zminus1_eq_if)
      with True show ?thesis
        by (simp add: unix_def n_def [symmetric] subsec_nanosecond_def Let_def minus_div_mult_eq_mod)
    next
      case nonzero: False
      then have a: "as_second n = n div 1000000000 + 1" unfolding s by (simp add: zdiv_zminus1_eq_if)
      have "n mod 1000000000 < 1000000000" by simp
      then have "subsec_nanosecond n < 0"
        using q unfolding subsec_nanosecond_def a by (simp add: distrib_right)
      with a show ?thesis by (simp add: unix_def n_def [symmetric] Let_def)
    qed
  qed
qed

section \<open>Objects\<close>

type_synonym labels = "(string, string) btree"

record platform =
  architecture :: string
  os :: string

record placement =
  constraints :: "string list"
  platforms :: "platform list"

record restart_policy =
  condition :: string

record task_spec =
  ts_placement :: "placement option"
  ts_restart_policy :: "restart_policy option"

record replicated_service =
  replicas :: "nat option"

record replicated_job =
  max_concurrent :: "nat option"
  total_completions :: "nat option"

text \<open>\<^verbatim>\<open>Present\<close> is an object whose presence is all that is read: \<open>unit\<close>.\<close>

record service_mode_spec =
  md_replicated :: "replicated_service option"
  md_global :: "unit option"
  md_replicated_job :: "replicated_job option"
  md_global_job :: "unit option"

record service_spec =
  ss_name :: string
  ss_labels :: labels
  ss_task_template :: task_spec
  ss_mode :: service_mode_spec

record update_status =
  us_state :: string
  us_started_at :: "gotime option"
  us_completed_at :: "gotime option"

record job_status =
  js_job_iteration :: nat

record service =
  svc_id :: string
  svc_spec :: service_spec
  svc_update_status :: "update_status option"
  svc_job_status :: "job_status option"

record node_spec =
  ns_labels :: labels
  ns_role :: string
  ns_availability :: string

record node_description =
  nd_hostname :: string
  nd_platform :: platform
  nd_engine_labels :: labels

record node_status =
  nst_state :: string
  nst_addr :: string

record node =
  node_id :: string
  node_spec_of :: node_spec
  node_description_of :: node_description
  node_status_of :: node_status

record task_status =
  tst_timestamp :: gotime
  tst_state :: string

record task =
  tk_version :: nat
  tk_created_at :: gotime
  tk_service_id :: string
  tk_slot :: int
  tk_node_id :: string
  tk_status :: task_status
  tk_desired_state :: string
  tk_job_iteration :: "nat option"

record event =
  ev_kind :: string
  ev_action :: string
  ev_actor_id :: string
  ev_time :: int
  ev_time_nano :: int

end
