(* ===== verification/Labels.thy ===== *)
theory Labels
  imports Rust_Text
begin

text \<open>
  \<^verbatim>\<open>src/src/labels.rs\<close>: sanitizing and validating Prometheus label names, the custom-label limit and
  the high-cardinality warning. The first section holds the operations in the order of the source,
  the others what they guarantee: the name grammar, one character per Go rune, the validation's
  verdict, truncation on a character boundary and the once-per-key warning.
\<close>

section \<open>Operations\<close>

definition MAX_LABEL_NAME_LEN :: nat where
  "MAX_LABEL_NAME_LEN = 100"

definition MAX_CUSTOM_LABEL_COUNT :: nat where
  "MAX_CUSTOM_LABEL_COUNT = 8"

definition HIGH_CARDINALITY_SAMPLE_SIZE :: nat where
  "HIGH_CARDINALITY_SAMPLE_SIZE = 64"

definition is_label_name_start_byte :: "char \<Rightarrow> bool" where
  "is_label_name_start_byte c \<longleftrightarrow> c = CHR ''_'' \<or> is_ascii_alphabetic c"

definition is_label_name_byte :: "char \<Rightarrow> bool" where
  "is_label_name_byte c \<longleftrightarrow> is_label_name_start_byte c \<or> is_ascii_digit c"

fun is_valid_label_name :: "string \<Rightarrow> bool" where
  "is_valid_label_name [] = False"
| "is_valid_label_name (c # cs) = (is_label_name_start_byte c \<and> list_all is_label_name_byte cs)"

definition go_rune_len :: "string \<Rightarrow> nat" where
  "go_rune_len bytes =
     (let width = (case bytes of [] \<Rightarrow> 1 | c # _ \<Rightarrow>
            if 0xC2 \<le> byte c \<and> byte c \<le> 0xDF then 2
            else if 0xE0 \<le> byte c \<and> byte c \<le> 0xEF then 3
            else if 0xF0 \<le> byte c \<and> byte c \<le> 0xF4 then 4
            else 1)
      in if width = 1 then 1
         else if width \<le> length bytes \<and> from_utf8_ok (take width bytes) then width
         else 1)"

lemma go_rune_len_pos: "0 < go_rune_len s"
  by (auto simp: go_rune_len_def Let_def split: list.split)

function sanitize_loop :: "string \<Rightarrow> string" where
  "sanitize_loop s =
     (if s = [] then []
      else (if is_label_name_byte (hd s) then hd s else CHR ''_'') # sanitize_loop (drop (go_rune_len s) s))"
  by pat_completeness auto
termination
  by (relation "measure length") (auto simp: go_rune_len_pos)

declare sanitize_loop.simps [simp del]

definition sanitize_name :: "string \<Rightarrow> string" where
  "sanitize_name name =
     (if name = [] then ''_''
      else (let out = sanitize_loop name in
            if \<not> is_label_name_start_byte (hd out) then CHR ''_'' # out else out))"

definition sanitize_label_names :: "string list \<Rightarrow> string list" where
  "sanitize_label_names names = map sanitize_name names"

definition sanitize_metric_labels :: "(string \<times> string) list \<Rightarrow> (string, string) btree" where
  "sanitize_metric_labels labels = bt_collect (map (\<lambda>(key, value). (sanitize_name key, value)) labels)"

datatype label_reason =
    InvalidLength
  | ReservedPrefix
  | ViolatesConstraints
  | CollidesAfterSanitization

record label_error =
  le_reason :: label_reason
  le_original :: string
  le_sanitized :: string

definition label_error_new :: "label_reason \<Rightarrow> string \<Rightarrow> string \<Rightarrow> label_error" where
  "label_error_new reason original sanitized =
     \<lparr>le_reason = reason, le_original = from_utf8_lossy original, le_sanitized = sanitized\<rparr>"

text \<open>The loop of the validation: the pairs still to check and the names seen.\<close>

fun validate_loop :: "(string \<times> string) list \<Rightarrow> string list \<Rightarrow> label_error option" where
  "validate_loop [] seen = None"
| "validate_loop ((original, sanitized) # rest) seen =
     (if sanitized = [] \<or> length sanitized > MAX_LABEL_NAME_LEN
      then Some (label_error_new InvalidLength original sanitized)
      else if starts_with ''__'' sanitized
      then Some (label_error_new ReservedPrefix original sanitized)
      else if \<not> is_valid_label_name sanitized
      then Some (label_error_new ViolatesConstraints original sanitized)
      else if sanitized \<in> set seen
      then Some (label_error_new CollidesAfterSanitization original sanitized)
      else validate_loop rest (sanitized # seen))"

definition validate_and_sanitize_label_names :: "string list \<Rightarrow> label_error + string list" where
  "validate_and_sanitize_label_names names =
     (let sanitized = sanitize_label_names names in
      case validate_loop (zip names sanitized) [] of
        Some error \<Rightarrow> Inl error
      | None \<Rightarrow> Inr sanitized)"

record count_error =
  ce_count :: nat
  ce_maximum :: nat

definition validate_custom_label_count :: "nat \<Rightarrow> count_error + unit" where
  "validate_custom_label_count count =
     (if count > MAX_CUSTOM_LABEL_COUNT
      then Inl \<lparr>ce_count = count, ce_maximum = MAX_CUSTOM_LABEL_COUNT\<rparr>
      else Inr ())"

fun truncate_cut :: "string \<Rightarrow> nat \<Rightarrow> nat" where
  "truncate_cut input 0 = 0"
| "truncate_cut input (Suc i) =
     (if is_char_boundary input (Suc i) then Suc i else truncate_cut input i)"

definition truncate_str :: "string \<Rightarrow> nat \<Rightarrow> string" where
  "truncate_str input max_length =
     (if length input \<le> max_length then input
      else take (truncate_cut input max_length) input)"

definition is_hex_string :: "string \<Rightarrow> bool" where
  "is_hex_string hex = list_all (\<lambda>c. is_ascii_digit c \<or> (97 \<le> byte c \<and> byte c \<le> 102)) hex"

definition slice :: "'a list \<Rightarrow> nat \<Rightarrow> nat \<Rightarrow> 'a list" where
  "slice xs start stop = take (stop - start) (drop start xs)"

definition is_likely_high_cardinality_value :: "string \<Rightarrow> bool" where
  "is_likely_high_cardinality_value value =
     (let lower = to_ascii_lowercase value;
          is_uuid = (length lower = 36
            \<and> list_all (\<lambda>dash. lower ! dash = CHR ''-'') [8, 13, 18, 23]
            \<and> list_all (\<lambda>(start, stop). is_hex_string (slice lower start stop))
                [(0, 8), (9, 13), (14, 18), (19, 23), (24, 36)])
      in is_uuid \<or> (length lower \<ge> 16 \<and> is_hex_string lower))"

record high_cardinality_warning =
  hc_label :: string
  hc_sample_value :: string

text \<open>
  The process-wide state of the warning: the keys of \<^verbatim>\<open>WARNED\<close>, and the warnings that
  \<^verbatim>\<open>emit_warning\<close> wrote, oldest first.
\<close>

record warn_state =
  warned :: "string list"
  emitted :: "high_cardinality_warning list"

definition log_warn_once :: "string \<Rightarrow> high_cardinality_warning \<Rightarrow> warn_state \<Rightarrow> warn_state" where
  "log_warn_once key warning w =
     (if key \<in> set (warned w) then w
      else \<lparr>warned = key # warned w, emitted = emitted w @ [warning]\<rparr>)"

definition maybe_warn_high_cardinality :: "string \<Rightarrow> string \<Rightarrow> warn_state \<Rightarrow> warn_state" where
  "maybe_warn_high_cardinality label_key label_value w =
     (if label_value = [] \<or> \<not> is_likely_high_cardinality_value label_value then w
      else log_warn_once label_key
             \<lparr>hc_label = label_key, hc_sample_value = truncate_str label_value HIGH_CARDINALITY_SAMPLE_SIZE\<rparr> w)"

section \<open>The name grammar\<close>

lemma start_byte_name_byte: "is_label_name_start_byte c \<Longrightarrow> is_label_name_byte c"
  by (simp add: is_label_name_byte_def)

lemma underscore_start [simp]: "is_label_name_start_byte (CHR ''_'')"
  by (simp add: is_label_name_start_byte_def)

lemma underscore_byte [simp]: "is_label_name_byte (CHR ''_'')"
  by (simp add: is_label_name_byte_def)

lemma label_byte_ascii: "is_label_name_byte c \<Longrightarrow> byte c < 128"
  by (auto simp: is_label_name_byte_def is_label_name_start_byte_def is_ascii_alphabetic_def
        is_ascii_uppercase_def is_ascii_lowercase_def is_ascii_digit_def)

lemma go_rune_len_ascii: "byte c < 128 \<Longrightarrow> go_rune_len (c # s) = 1"
  by (simp add: go_rune_len_def)

lemma sanitize_loop_Nil_iff [simp]: "sanitize_loop s = [] \<longleftrightarrow> s = []"
  by (subst sanitize_loop.simps) simp

lemma sanitize_loop_bytes: "list_all is_label_name_byte (sanitize_loop s)"
proof (induction s rule: sanitize_loop.induct)
  case (1 s)
  then show ?case by (subst sanitize_loop.simps) simp
qed

lemma sanitize_loop_id: "list_all is_label_name_byte s \<Longrightarrow> sanitize_loop s = s"
proof (induction s)
  case (Cons c s)
  then have "go_rune_len (c # s) = 1" using go_rune_len_ascii [OF label_byte_ascii] by simp
  with Cons show ?case by (subst sanitize_loop.simps) simp
qed (simp add: sanitize_loop.simps)

lemma valid_label_name_iff:
  "is_valid_label_name s \<longleftrightarrow> s \<noteq> [] \<and> is_label_name_start_byte (hd s) \<and> list_all is_label_name_byte s"
  by (cases s) (auto simp: start_byte_name_byte)

lemma sanitize_name_valid: "is_valid_label_name (sanitize_name s)"
proof (cases "s = []")
  case False
  then show ?thesis
    using sanitize_loop_bytes [of s]
    by (auto simp: sanitize_name_def valid_label_name_iff Let_def)
qed (simp add: sanitize_name_def)

lemma sanitize_name_fixed: "is_valid_label_name s \<Longrightarrow> sanitize_name s = s"
  by (simp add: valid_label_name_iff sanitize_name_def sanitize_loop_id Let_def)

lemma sanitize_name_idem: "sanitize_name (sanitize_name s) = sanitize_name s"
  by (rule sanitize_name_fixed [OF sanitize_name_valid])

lemma sanitize_name_nonempty [simp]: "sanitize_name s \<noteq> []"
  using sanitize_name_valid [of s] by (simp add: valid_label_name_iff)

section \<open>One character per rune\<close>

text \<open>
  UTF-8 as the encoding of Unicode scalar values, the reference the byte scanner is checked against.
\<close>

definition scalar :: "nat \<Rightarrow> bool" where
  "scalar cp \<longleftrightarrow> cp < 0x110000 \<and> \<not> (0xD800 \<le> cp \<and> cp \<le> 0xDFFF)"

definition utf8_encode :: "nat \<Rightarrow> string" where
  "utf8_encode cp =
     (if cp < 0x80 then [char_of cp]
      else if cp < 0x800 then [char_of (0xC0 + cp div 64), char_of (0x80 + cp mod 64)]
      else if cp < 0x10000 then
        [char_of (0xE0 + cp div 4096), char_of (0x80 + cp div 64 mod 64), char_of (0x80 + cp mod 64)]
      else
        [char_of (0xF0 + cp div 262144), char_of (0x80 + cp div 4096 mod 64),
         char_of (0x80 + cp div 64 mod 64), char_of (0x80 + cp mod 64)])"

lemma byte_char_of: "n < 256 \<Longrightarrow> byte (char_of n) = n"
  by simp

lemma char_of_range: "n < 256 \<Longrightarrow> (lo \<le> byte (char_of n) \<and> byte (char_of n) \<le> hi) \<longleftrightarrow> lo \<le> n \<and> n \<le> hi"
  by simp

lemma mod_offset: "q * m \<le> n \<Longrightarrow> n < q * m + r \<Longrightarrow> r \<le> m \<Longrightarrow> n mod m < r" for n :: nat
  by (metis add.commute add_less_cancel_left le_add_diff_inverse less_le_trans mod_less mod_mult_self1)

lemma mod64_le: "n mod 64 \<le> (63::nat)"
  using mod_less_divisor [of 64 n] by linarith

lemma utf8_chunk_encode:
  assumes "scalar cp"
  shows "utf8_chunk (utf8_encode cp @ t) = (length (utf8_encode cp), True)"
proof -
  consider "cp < 0x80" | "0x80 \<le> cp" "cp < 0x800" | "0x800 \<le> cp" "cp < 0x10000"
    | "0x10000 \<le> cp" "cp < 0x110000"
    using assms unfolding scalar_def by (meson not_le)
  then show ?thesis
  proof cases
    case 1
    then show ?thesis by (simp add: utf8_encode_def utf8_char_width_def)
  next
    case 2
    then have "cp div 64 < 32" "2 \<le> cp div 64" by linarith+
    with 2 show ?thesis
      by (simp add: utf8_encode_def utf8_char_width_def utf8_second_ok_def utf8_continuation_def Let_def)
  next
    case 3
    then have q: "cp div 4096 < 16" by linarith
    have "32 \<le> cp div 64 mod 64" if "cp div 4096 = 0"
    proof -
      have "cp div 64 < 64" "32 \<le> cp div 64" using that 3 by linarith+
      then show ?thesis by simp
    qed
    moreover have "cp div 64 mod 64 < 32" if "cp div 4096 = 13"
    proof -
      have "53248 \<le> cp" "cp < 57344" using that by linarith+
      then have "cp < 55296" using assms by (simp add: scalar_def)
      then have "832 \<le> cp div 64" "cp div 64 < 864" using \<open>53248 \<le> cp\<close> by linarith+
      then show ?thesis using mod_offset [of 13 64 "cp div 64" 32] by simp
    qed
    moreover have "cp div 64 \<le> 63" if "cp div 4096 = 0" using that 3 by linarith
    ultimately show ?thesis using 3 q mod64_le
      by (auto simp: less_Suc_eq_le utf8_encode_def utf8_char_width_def utf8_second_ok_def utf8_continuation_def Let_def)
  next
    case 4
    then have q: "cp div 262144 < 5" by linarith
    have "16 \<le> cp div 4096 mod 64" if "cp div 262144 = 0"
    proof -
      have "cp div 4096 < 64" "16 \<le> cp div 4096" using that 4 by linarith+
      then show ?thesis by simp
    qed
    moreover have "cp div 4096 mod 64 < 16" if "cp div 262144 = 4"
    proof -
      have "256 \<le> cp div 4096" "cp div 4096 < 272" using that 4 by linarith+
      then show ?thesis using mod_offset [of 4 64 "cp div 4096" 16] by simp
    qed
    moreover have "cp div 4096 \<le> 63" if "cp div 262144 = 0" using that 4 by linarith
    ultimately show ?thesis using 4 q mod64_le
      by (auto simp: utf8_encode_def utf8_char_width_def utf8_second_ok_def utf8_continuation_def Let_def)
  qed
qed

lemma utf8_encode_nonempty [simp]: "utf8_encode cp \<noteq> []"
  by (simp add: utf8_encode_def)

lemma from_utf8_ok_encode_append:
  "scalar cp \<Longrightarrow> from_utf8_ok (utf8_encode cp @ t) = from_utf8_ok t"
  by (subst from_utf8_ok.simps) (simp add: utf8_chunk_encode)

lemma from_utf8_ok_encoded: "list_all scalar cps \<Longrightarrow> from_utf8_ok (concat (map utf8_encode cps))"
  by (induction cps) (simp_all add: from_utf8_ok.simps [of "[]"] from_utf8_ok_encode_append)

lemma go_rune_len_encode:
  assumes "scalar cp"
  shows "go_rune_len (utf8_encode cp @ t) = length (utf8_encode cp)"
proof (cases "cp < 0x80")
  case True
  then show ?thesis by (simp add: utf8_encode_def go_rune_len_ascii)
next
  case False
  have ok: "from_utf8_ok (utf8_encode cp)"
    using from_utf8_ok_encoded [of "[cp]"] assms by simp
  have w: "length (utf8_encode cp) =
      (case utf8_encode cp @ t of [] \<Rightarrow> 1 | c # _ \<Rightarrow>
            if 0xC2 \<le> byte c \<and> byte c \<le> 0xDF then 2
            else if 0xE0 \<le> byte c \<and> byte c \<le> 0xEF then 3
            else if 0xF0 \<le> byte c \<and> byte c \<le> 0xF4 then 4
            else 1)"
  proof -
    consider "cp < 0x800" | "0x800 \<le> cp" "cp < 0x10000" | "0x10000 \<le> cp" "cp < 0x110000"
      using assms unfolding scalar_def by (meson not_le)
    then show ?thesis
    proof cases
      case 1
      with False have "2 \<le> cp div 64" "cp div 64 < 32" by linarith+
      with 1 False show ?thesis by (simp add: utf8_encode_def)
    next
      case 2
      then have "cp div 4096 < 16" by linarith
      with 2 show ?thesis by (simp add: utf8_encode_def)
    next
      case 3
      then have "cp div 262144 < 5" by linarith
      with 3 show ?thesis by (simp add: utf8_encode_def)
    qed
  qed
  have "length (utf8_encode cp) \<noteq> 1" using False by (simp add: utf8_encode_def)
  then show ?thesis unfolding go_rune_len_def w [symmetric] using ok by (simp add: Let_def)
qed

definition label_char :: "nat \<Rightarrow> char" where
  "label_char cp = (if cp < 128 \<and> is_label_name_byte (char_of cp) then char_of cp else CHR ''_'')"

lemma hd_utf8_encode_label: "scalar cp \<Longrightarrow>
   (if is_label_name_byte (hd (utf8_encode cp)) then hd (utf8_encode cp) else CHR ''_'') = label_char cp"
proof (cases "cp < 128")
  case False
  assume "scalar cp"
  have "\<not> byte (hd (utf8_encode cp)) < 128"
  proof -
    consider "cp < 0x800" | "0x800 \<le> cp" "cp < 0x10000" | "0x10000 \<le> cp" "cp < 0x110000"
      using \<open>scalar cp\<close> unfolding scalar_def by (meson not_le)
    then show ?thesis
    proof cases
      case 1
      then have "cp div 64 < 32" by linarith
      with 1 False show ?thesis by (simp add: utf8_encode_def)
    next
      case 2
      then have "cp div 4096 < 16" by linarith
      with 2 show ?thesis by (simp add: utf8_encode_def)
    next
      case 3
      then have "cp div 262144 < 5" by linarith
      with 3 show ?thesis by (simp add: utf8_encode_def)
    qed
  qed
  then show ?thesis using False label_byte_ascii by (auto simp: label_char_def)
qed (simp add: utf8_encode_def label_char_def)

lemma sanitize_loop_encoded:
  "list_all scalar cps \<Longrightarrow> sanitize_loop (concat (map utf8_encode cps)) = map label_char cps"
proof (induction cps)
  case (Cons cp cps)
  then show ?case
    using hd_utf8_encode_label [of cp]
    by (subst sanitize_loop.simps) (simp add: go_rune_len_encode hd_append split: if_splits)
qed (simp add: sanitize_loop.simps)

section \<open>The validation's verdict\<close>

definition acceptable_name :: "string \<Rightarrow> bool" where
  "acceptable_name s \<longleftrightarrow> s \<noteq> [] \<and> length s \<le> MAX_LABEL_NAME_LEN \<and> \<not> starts_with ''__'' s \<and> is_valid_label_name s"

lemma validate_loop_None:
  "validate_loop ps seen = None \<longleftrightarrow>
     list_all acceptable_name (map snd ps) \<and> distinct (map snd ps) \<and> set (map snd ps) \<inter> set seen = {}"
proof (induction ps arbitrary: seen)
  case (Cons p ps)
  then show ?case by (cases p) (auto simp: acceptable_name_def)
qed simp

lemma validate_and_sanitize_ok_iff:
  "validate_and_sanitize_label_names names = Inr out \<longleftrightarrow>
     out = map sanitize_name names \<and> list_all acceptable_name out \<and> distinct out"
  using validate_loop_None [of "zip names (sanitize_label_names names)" "[]"]
  by (auto simp: validate_and_sanitize_label_names_def sanitize_label_names_def Let_def
      split: option.split)

text \<open>A failure is the first one: every name before it was acceptable and new.\<close>

lemma validate_loop_Some:
  "validate_loop ps seen = Some e \<Longrightarrow>
     \<exists>pre original sanitized post. ps = pre @ (original, sanitized) # post
       \<and> e = label_error_new (le_reason e) original sanitized
       \<and> validate_loop pre seen = None
       \<and> (\<not> acceptable_name sanitized \<or> sanitized \<in> set (map snd pre) \<union> set seen)
       \<and> (le_reason e = CollidesAfterSanitization \<longleftrightarrow> acceptable_name sanitized)"
proof (induction ps seen rule: validate_loop.induct)
  case (2 original sanitized rest seen)
  show ?case
  proof (cases "acceptable_name sanitized \<and> sanitized \<notin> set seen")
    case True
    then have "validate_loop rest (sanitized # seen) = Some e"
      using "2.prems" by (auto simp: acceptable_name_def)
    moreover have "\<not> (sanitized = [] \<or> MAX_LABEL_NAME_LEN < length sanitized)"
      "\<not> starts_with ''__'' sanitized" "\<not> \<not> is_valid_label_name sanitized" "sanitized \<notin> set seen"
      using True by (auto simp: acceptable_name_def)
    ultimately obtain pre o' s' post where
      "rest = pre @ (o', s') # post" "e = label_error_new (le_reason e) o' s'"
      "validate_loop pre (sanitized # seen) = None"
      "\<not> acceptable_name s' \<or> s' \<in> set (map snd pre) \<union> set (sanitized # seen)"
      "(le_reason e = CollidesAfterSanitization) = acceptable_name s'"
      using "2.IH" by blast
    note tail = this
    have "(original, sanitized) # rest = ((original, sanitized) # pre) @ (o', s') # post"
      using tail(1) by simp
    moreover have "validate_loop ((original, sanitized) # pre) seen = None"
      using tail(3) True by (simp add: acceptable_name_def)
    moreover have "\<not> acceptable_name s' \<or> s' \<in> set (map snd ((original, sanitized) # pre)) \<union> set seen"
      using tail(4) by simp
    ultimately show ?thesis using tail(2,5) by blast
  next
    case False
    then have "e = label_error_new (le_reason e) original sanitized"
      using "2.prems" by (auto simp: label_error_new_def acceptable_name_def split: if_splits)
    moreover have "le_reason e = CollidesAfterSanitization \<longleftrightarrow> acceptable_name sanitized"
      using False "2.prems" by (auto simp: label_error_new_def acceptable_name_def split: if_splits)
    moreover have "(original, sanitized) # rest = [] @ (original, sanitized) # rest" by simp
    moreover have "\<not> acceptable_name sanitized \<or> sanitized \<in> set (map snd []) \<union> set seen"
      using False by simp
    ultimately show ?thesis by (metis validate_loop.simps(1))
  qed
qed simp

section \<open>Truncation and the warning\<close>

lemma truncate_cut_boundary: "is_char_boundary s (truncate_cut s n)"
  by (induction n) (simp_all add: is_char_boundary_def)

lemma truncate_cut_le: "truncate_cut s n \<le> n"
  by (induction n) auto

lemma utf8_chunk_take:
  assumes "utf8_chunk s = (n, True)" and "n \<le> i"
  shows "utf8_chunk (take i s) = (n, True)"
proof (cases s)
  case (Cons c cs)
  then obtain j where i: "i = Suc j"
    using assms by (cases i) (auto simp: Let_def split: if_splits)
  show ?thesis using assms
    by (auto simp: Cons i Let_def not_less split: if_splits)
qed (use assms in simp)

lemma utf8_chunk_inner:
  assumes "utf8_chunk s = (n, True)" and "0 < i" "i < n"
  shows "utf8_continuation (s ! i)"
proof -
  obtain c cs where s: "s = c # cs" using assms by (cases s) auto
  have second: "utf8_second_ok c d \<Longrightarrow> utf8_continuation d" for d
    by (auto simp: utf8_second_ok_def utf8_continuation_def Let_def split: if_splits)
  have "i = 1 \<or> i = 2 \<or> i = 3"
    using assms by (auto simp: s Let_def split: if_splits)
  then show ?thesis
    using assms by (auto simp: s Let_def numeral_2_eq_2 numeral_3_eq_3 intro: second split: if_splits)
qed

lemma from_utf8_ok_take:
  "from_utf8_ok s \<Longrightarrow> is_char_boundary s i \<Longrightarrow> from_utf8_ok (take i s)"
proof (induction s arbitrary: i rule: from_utf8_ok.induct)
  case (1 s)
  show ?case
  proof (cases "s = [] \<or> i = 0 \<or> i \<ge> length s")
    case True
    then show ?thesis using 1 by (auto simp: from_utf8_ok.simps [of "[]"])
  next
    case False
    obtain n where n: "utf8_chunk s = (n, True)" and rest: "from_utf8_ok (drop n s)"
      using 1(2) False by (metis from_utf8_ok.simps prod.collapse)
    have ni: "n \<le> i"
    proof (rule ccontr)
      assume "\<not> n \<le> i"
      then have "utf8_continuation (s ! i)" using utf8_chunk_inner [OF n] False by simp
      then show False using 1(3) False by (simp add: is_char_boundary_def)
    qed
    have nl: "n \<le> length s" using utf8_chunk_le [of s] n by simp
    have "is_char_boundary (drop n s) (i - n)"
      using 1(3) False ni nl by (auto simp: is_char_boundary_def)
    then have "from_utf8_ok (take (i - n) (drop n s))"
      using 1(1) False n rest by simp
    then show ?thesis
      using utf8_chunk_take [OF n ni] False ni
      by (subst from_utf8_ok.simps) (simp add: drop_take)
  qed
qed

lemma truncate_str_valid: "from_utf8_ok s \<Longrightarrow> from_utf8_ok (truncate_str s n)"
  by (simp add: truncate_str_def from_utf8_ok_take truncate_cut_boundary)

lemma truncate_str_length: "length (truncate_str s n) \<le> n"
  using truncate_cut_le [of s n] by (simp add: truncate_str_def)

definition warn_ok :: "warn_state \<Rightarrow> bool" where
  "warn_ok w \<longleftrightarrow> distinct (warned w) \<and> rev (warned w) = map hc_label (emitted w)
     \<and> list_all (\<lambda>h. length (hc_sample_value h) \<le> HIGH_CARDINALITY_SAMPLE_SIZE) (emitted w)"

lemma maybe_warn_ok: "warn_ok w \<Longrightarrow> warn_ok (maybe_warn_high_cardinality k v w)"
  by (auto simp: maybe_warn_high_cardinality_def log_warn_once_def warn_ok_def truncate_str_length)

section \<open>Properties\<close>

lemma zip_sanitized: "zip names (map f names) = map (\<lambda>n. (n, f n)) names"
  by (induction names) auto

text \<open>
  The result of sanitizing is always a valid Prometheus label name, sanitizing twice changes
  nothing more, and exactly the valid names are left as they are.
\<close>

theorem sanitize_name_grammar:
  "is_valid_label_name (sanitize_name s)
   \<and> sanitize_name (sanitize_name s) = sanitize_name s
   \<and> (sanitize_name s = s \<longleftrightarrow> is_valid_label_name s)"
  using sanitize_name_valid [of s] sanitize_name_idem [of s] sanitize_name_fixed [of s] by metis

text \<open>
  On the UTF-8 encoding of a sequence of Unicode characters, sanitizing writes one character per
  character read (itself when it may appear in a name, else an underscore), with one more
  underscore in front when the first one may not start a name.
\<close>

theorem sanitize_name_per_rune:
  assumes "list_all scalar cps" and "cps \<noteq> []"
  shows "sanitize_name (concat (map utf8_encode cps)) =
    (if is_label_name_start_byte (label_char (hd cps)) then [] else ''_'') @ map label_char cps"
proof -
  have "concat (map utf8_encode cps) \<noteq> []" using assms(2) by (cases cps) auto
  then show ?thesis
    using assms by (simp add: sanitize_name_def sanitize_loop_encoded hd_map Let_def)
qed

theorem sanitize_name_per_rune_witness:
  "sanitize_name (concat (map utf8_encode [0x39, 0x5718, 0xE9, 0x61])) = ''_9__a''"
proof -
  have "map label_char [0x39, 0x5718, 0xE9, 0x61] = ''9__a''" by code_simp
  moreover have "\<not> is_label_name_start_byte (label_char 0x39)" by code_simp
  ultimately show ?thesis
    using sanitize_name_per_rune [of "[0x39, 0x5718, 0xE9, 0x61]"] by (simp add: scalar_def)
qed

text \<open>
  The validation accepts a list of names exactly when, after sanitizing, every name is within
  the length limit, free of the reserved prefix and valid, and no two are equal; it then returns
  the sanitized names in order.
\<close>

theorem validate_and_sanitize_accepts:
  "validate_and_sanitize_label_names names = Inr out \<longleftrightarrow>
     out = map sanitize_name names \<and> list_all acceptable_name out \<and> distinct out"
  by (rule validate_and_sanitize_ok_iff)

text \<open>
  A rejected list is reported by its first bad name: the names before it pass on their own, the
  error shows that name and its sanitized form, and the reason is a collision exactly when the name
  is acceptable by itself.
\<close>

theorem validate_and_sanitize_first_failure:
  assumes "validate_and_sanitize_label_names names = Inl e"
  shows "\<exists>pre name post. names = pre @ name # post
    \<and> validate_and_sanitize_label_names pre = Inr (map sanitize_name pre)
    \<and> le_original e = from_utf8_lossy name \<and> le_sanitized e = sanitize_name name
    \<and> (\<not> acceptable_name (sanitize_name name) \<or> sanitize_name name \<in> sanitize_name ` set pre)
    \<and> (le_reason e = CollidesAfterSanitization \<longleftrightarrow> acceptable_name (sanitize_name name))"
proof -
  have "validate_loop (map (\<lambda>n. (n, sanitize_name n)) names) [] = Some e"
    using assms by (simp add: validate_and_sanitize_label_names_def sanitize_label_names_def
        zip_sanitized split: option.splits)
  from validate_loop_Some [OF this] obtain pre name san post where
    split: "map (\<lambda>n. (n, sanitize_name n)) names = pre @ (name, san) # post"
    and e: "e = label_error_new (le_reason e) name san"
    and pre: "validate_loop pre [] = None"
    and bad: "\<not> acceptable_name san \<or> san \<in> set (map snd pre) \<union> set []"
    and reason: "le_reason e = CollidesAfterSanitization \<longleftrightarrow> acceptable_name san"
    by blast
  from split obtain npre npost where n: "names = npre @ name # npost"
    and p: "pre = map (\<lambda>n. (n, sanitize_name n)) npre" and s: "san = sanitize_name name"
    by (auto simp: map_eq_append_conv map_eq_Cons_conv)
  have "validate_and_sanitize_label_names npre = Inr (map sanitize_name npre)"
    using pre p by (simp add: validate_and_sanitize_label_names_def sanitize_label_names_def zip_sanitized)
  moreover have "le_original e = from_utf8_lossy name" "le_sanitized e = sanitize_name name"
    by (subst e, simp add: label_error_new_def s)+
  moreover have "\<not> acceptable_name (sanitize_name name) \<or> sanitize_name name \<in> sanitize_name ` set npre"
    using bad p s by auto
  ultimately show ?thesis using n reason s by blast
qed

theorem validate_and_sanitize_first_failure_witness:
  "validate_and_sanitize_label_names [''a-b'', ''a.b''] =
     Inl \<lparr>le_reason = CollidesAfterSanitization, le_original = ''a.b'', le_sanitized = ''a_b''\<rparr>"
proof -
  have "validate_and_sanitize_label_names [''a-b'', ''a.b''] =
     Inl \<lparr>le_reason = CollidesAfterSanitization, le_original = ''a.b'', le_sanitized = ''a_b''\<rparr>"
    by code_simp
  with validate_and_sanitize_first_failure [OF this] show ?thesis by simp
qed

end
