(* ===== verification/Metric_Families.thy ===== *)
theory Metric_Families
  imports Labels "HOL-Library.Product_Lexorder"
begin

text \<open>
  \<^verbatim>\<open>src/src/metrics.rs\<close>: the gauge families with label names known only at startup (\<open>gauge_vec\<close>), the
  families replaced as a whole (\<open>snapshot_collector\<close>, \<open>snapshot_builder\<close>) and what a scrape
  encodes. A label set is a \<open>btree\<close>, the children of a vec are keyed by the label values in the
  order of the descriptor. The encoder of \<^verbatim>\<open>prometheus-client\<close> turns \<open>encoded_family\<close> values
  into text; the model ends at the values it is given.

  The interface \<open>series_store\<close> states what the collectors rely on: a set, a delete and a lookup by
  label set. It is interpreted on \<open>gauge_vec\<close>.
\<close>

section \<open>Descriptors\<close>

record desc =
  desc_name :: string
  desc_help :: string
  desc_label_names :: "string list"

definition desc_pairs :: "desc \<Rightarrow> string list \<Rightarrow> (string \<times> string) list" where
  "desc_pairs d values = sort (zip (desc_label_names d) values)"

record labels_mismatch =
  lm_family :: string
  lm_want :: nat
  lm_got :: nat
  lm_missing :: "string option"

text \<open>The loop over the label names: the first one the map lacks is an error.\<close>

fun collect_values :: "(string option \<Rightarrow> 'e) \<Rightarrow> (string, string) btree \<Rightarrow> string list \<Rightarrow> 'e + string list" where
  "collect_values mismatch labels [] = Inr []"
| "collect_values mismatch labels (name # names) =
     (case map_of labels name of
        None \<Rightarrow> Inl (mismatch (Some name))
      | Some v \<Rightarrow> map_sum id ((#) v) (collect_values mismatch labels names))"

definition values_in_order :: "desc \<Rightarrow> (string, string) btree \<Rightarrow> labels_mismatch + string list" where
  "values_in_order d labels =
     (let mismatch = (\<lambda>missing. \<lparr>lm_family = desc_name d, lm_want = length (desc_label_names d),
                                 lm_got = length labels, lm_missing = missing\<rparr>)
      in if length labels \<noteq> length (desc_label_names d) then Inl (mismatch None)
         else collect_values mismatch labels (desc_label_names d))"

text \<open>
  The panics of the exporter's own code: \<^verbatim>\<open>must\<close> on a label set that does not fit its family, and a
  replicated service without \<^verbatim>\<open>Replicas\<close>.
\<close>

datatype panic = LabelsPanic labels_mismatch | NoReplicas string

definition must :: "labels_mismatch + 'a \<Rightarrow> panic + 'a" where
  "must result = map_sum LabelsPanic id result"

section \<open>Labelled gauges\<close>

record encoded_family =
  ef_name :: string
  ef_help :: string
  ef_series :: "((string \<times> string) list \<times> int) list"

definition encode_gauge_family :: "desc \<Rightarrow> (string list, int) btree \<Rightarrow> encoded_family list" where
  "encode_gauge_family d series =
     (if series = [] then []
      else [\<lparr>ef_name = desc_name d, ef_help = desc_help d,
             ef_series = map (\<lambda>(values, value). (desc_pairs d values, value)) series\<rparr>])"

record gauge_vec =
  gv_desc :: desc
  gv_children :: "(string list, int) btree"

definition gv_new :: "desc \<Rightarrow> gauge_vec" where
  "gv_new d = \<lparr>gv_desc = d, gv_children = []\<rparr>"

definition gv_set :: "gauge_vec \<Rightarrow> string list \<Rightarrow> int \<Rightarrow> labels_mismatch + gauge_vec" where
  "gv_set g label_values value =
     (if length label_values \<noteq> length (desc_label_names (gv_desc g))
      then Inl \<lparr>lm_family = desc_name (gv_desc g), lm_want = length (desc_label_names (gv_desc g)),
                lm_got = length label_values, lm_missing = None\<rparr>
      else Inr (g\<lparr>gv_children := bt_insert label_values value (gv_children g)\<rparr>))"

definition gv_set_with :: "gauge_vec \<Rightarrow> (string, string) btree \<Rightarrow> int \<Rightarrow> labels_mismatch + gauge_vec" where
  "gv_set_with g labels value =
     (case values_in_order (gv_desc g) labels of
        Inl e \<Rightarrow> Inl e
      | Inr key \<Rightarrow> Inr (g\<lparr>gv_children := bt_insert key value (gv_children g)\<rparr>))"

definition gv_delete_with :: "gauge_vec \<Rightarrow> (string, string) btree \<Rightarrow> bool \<times> gauge_vec" where
  "gv_delete_with g labels =
     (case values_in_order (gv_desc g) labels of
        Inl _ \<Rightarrow> (False, g)
      | Inr key \<Rightarrow> (map_of (gv_children g) key \<noteq> None,
                    g\<lparr>gv_children := AList.delete key (gv_children g)\<rparr>))"

definition gv_get_with :: "gauge_vec \<Rightarrow> (string, string) btree \<Rightarrow> int option" where
  "gv_get_with g labels =
     (case values_in_order (gv_desc g) labels of
        Inl _ \<Rightarrow> None
      | Inr key \<Rightarrow> map_of (gv_children g) key)"

definition gv_encode :: "gauge_vec \<Rightarrow> encoded_family list" where
  "gv_encode g = encode_gauge_family (gv_desc g) (gv_children g)"

section \<open>Families replaced as a whole\<close>

record built_family =
  bf_desc :: desc
  bf_series :: "(string list, int) btree"

record snapshot_collector =
  sc_descs :: "desc list"
  sc_current :: "built_family list option"

definition sc_new :: "desc list \<Rightarrow> snapshot_collector" where
  "sc_new descs = \<lparr>sc_descs = descs, sc_current = None\<rparr>"

definition sc_publish :: "snapshot_collector \<Rightarrow> built_family list \<Rightarrow> snapshot_collector" where
  "sc_publish c families = c\<lparr>sc_current := Some families\<rparr>"

definition sc_encode :: "snapshot_collector \<Rightarrow> encoded_family list" where
  "sc_encode c =
     (case sc_current c of
        None \<Rightarrow> []
      | Some published \<Rightarrow>
          concat (map (\<lambda>f. encode_gauge_family (bf_desc f) (bf_series f))
                      (sort_key (\<lambda>f. desc_name (bf_desc f)) published)))"

record snapshot_family =
  sf_collector :: snapshot_collector
  sf_desc :: desc

definition sf_new :: "desc \<Rightarrow> snapshot_family" where
  "sf_new d = \<lparr>sf_collector = sc_new [d], sf_desc = d\<rparr>"

text \<open>The arguments of the two messages of a \<^verbatim>\<open>BuildError\<close>.\<close>

datatype build_error = GotLabels nat "string list" | MissingLabel string "string list"

record snapshot_builder =
  sb_families :: "(string, built_family) hmap"
  sb_error :: "build_error option"

definition sb_new :: snapshot_builder where
  "sb_new = \<lparr>sb_families = [], sb_error = None\<rparr>"

definition sb_fail :: "build_error \<Rightarrow> snapshot_builder \<Rightarrow> snapshot_builder" where
  "sb_fail e b = (if sb_error b = None then b\<lparr>sb_error := Some e\<rparr> else b)"

text \<open>The label map of one call: the last value of a repeated name wins.\<close>

definition hm_collect :: "('k \<times> 'v) list \<Rightarrow> ('k, 'v) hmap" where
  "hm_collect kvs = fold (\<lambda>(k, v). hput k v) kvs []"

definition sb_insert :: "desc \<Rightarrow> string list \<Rightarrow> int \<Rightarrow> snapshot_builder \<Rightarrow> snapshot_builder" where
  "sb_insert d label_values value b =
     (let family = (case hget (sb_families b) (desc_name d) of
                      Some f \<Rightarrow> f
                    | None \<Rightarrow> \<lparr>bf_desc = d, bf_series = []\<rparr>)
      in b\<lparr>sb_families := hput (desc_name d)
             (family\<lparr>bf_series := bt_insert label_values value (bf_series family)\<rparr>) (sb_families b)\<rparr>)"

definition sb_set :: "desc \<Rightarrow> (string \<times> string) list \<Rightarrow> int \<Rightarrow> snapshot_builder \<Rightarrow> snapshot_builder" where
  "sb_set d label_list value b =
     (let labels = hm_collect label_list; names = desc_label_names d in
      if length labels \<noteq> length names then sb_fail (GotLabels (length labels) names) b
      else case collect_values (\<lambda>missing. MissingLabel (the missing) names) labels names of
             Inl e \<Rightarrow> sb_fail e b
           | Inr label_values \<Rightarrow> sb_insert d label_values value b)"

definition sb_build :: "snapshot_builder \<Rightarrow> build_error + built_family list" where
  "sb_build b =
     (case sb_error b of
        Some e \<Rightarrow> Inl e
      | None \<Rightarrow> Inr (map snd (sb_families b)))"

section \<open>Label sets that fit a family\<close>

definition fits :: "string list \<Rightarrow> (string, string) btree \<Rightarrow> bool" where
  "fits names labels \<longleftrightarrow> bt_ok labels \<and> set (map fst labels) = set names \<and> length labels = length names"

lemma collect_values_Inr:
  "collect_values mm labels names = Inr vs \<longleftrightarrow>
     set names \<subseteq> set (map fst labels) \<and> vs = map (\<lambda>n. the (map_of labels n)) names"
proof (induction names arbitrary: vs)
  case (Cons n names)
  show ?case
  proof (cases "map_of labels n")
    case None
    then have "n \<notin> set (map fst labels)" by (simp add: map_of_eq_None_iff)
    with None show ?thesis by simp
  next
    case (Some v)
    then have "n \<in> set (map fst labels)" by (auto dest: map_of_SomeD intro: rev_image_eqI)
    moreover have c: "collect_values mm labels (n # names) = map_sum id ((#) v) (collect_values mm labels names)"
      using Some by simp
    ultimately show ?thesis
    proof (cases "set names \<subseteq> set (map fst labels)")
      case True
      then have "collect_values mm labels names = Inr (map (\<lambda>n. the (map_of labels n)) names)"
        using Cons.IH by simp
      then show ?thesis unfolding c using True Some \<open>n \<in> set (map fst labels)\<close> by auto
    next
      case False
      then have "collect_values mm labels names \<noteq> Inr ws" for ws using Cons.IH by simp
      then show ?thesis unfolding c using False by (cases "collect_values mm labels names") auto
    qed
  qed
qed auto

lemma collect_values_map_of_cong:
  "map_of l = map_of l' \<Longrightarrow> collect_values mm l names = collect_values mm l' names"
  by (induction names) (simp_all split: option.split)

lemma values_in_order_Inr:
  "values_in_order d labels = Inr vs \<longleftrightarrow>
     length labels = length (desc_label_names d) \<and> set (desc_label_names d) \<subseteq> set (map fst labels)
     \<and> vs = map (\<lambda>n. the (map_of labels n)) (desc_label_names d)"
  by (auto simp: values_in_order_def Let_def collect_values_Inr)

text \<open>The lengths and an inclusion are enough: with distinct names they force equal key sets.\<close>

lemma fits_iff_values:
  assumes "distinct (desc_label_names d)" and "bt_ok labels"
  shows "fits (desc_label_names d) labels \<longleftrightarrow> (\<exists>vs. values_in_order d labels = Inr vs)"
proof -
  let ?N = "desc_label_names d"
  have "set ?N = set (map fst labels)"
    if "length labels = length ?N" "set ?N \<subseteq> set (map fst labels)"
  proof (rule card_subset_eq)
    show "card (set ?N) = card (set (map fst labels))"
      using assms that(1) distinct_card bt_ok_distinct by (metis length_map)
  qed (use that in auto)
  then show ?thesis using assms(2) by (auto simp: fits_def values_in_order_Inr)
qed

lemma fits_values:
  "distinct (desc_label_names d) \<Longrightarrow> fits (desc_label_names d) labels \<Longrightarrow>
   values_in_order d labels = Inr (map (\<lambda>n. the (map_of labels n)) (desc_label_names d))"
  by (simp add: values_in_order_Inr fits_def)

text \<open>Two fitting label sets with the same values are the same label set.\<close>

lemma values_inj:
  assumes "fits names l" and "fits names l'"
    and "map (\<lambda>n. the (map_of l n)) names = map (\<lambda>n. the (map_of l' n)) names"
  shows "l = l'"
proof (rule bt_eqI)
  show "map_of l = map_of l'"
  proof
    fix n
    show "map_of l n = map_of l' n"
    proof (cases "n \<in> set names")
      case True
      then have "map_of l n \<noteq> None" "map_of l' n \<noteq> None"
        using assms(1,2) by (simp_all add: fits_def map_of_eq_None_iff)
      moreover have "the (map_of l n) = the (map_of l' n)" using True assms(3) by simp
      ultimately show ?thesis by (metis option.collapse)
    next
      case False
      then have "map_of l n = None" "map_of l' n = None"
        using assms(1,2) by (simp_all add: fits_def map_of_eq_None_iff)
      then show ?thesis by simp
    qed
  qed
qed (use assms(1,2) in \<open>simp_all add: fits_def\<close>)

section \<open>The interface of a labelled family\<close>

text \<open>
  What the collectors rely on, for label sets that fit the family: a lookup returns what was set
  last, a delete forgets that series and no other.
\<close>

locale series_store =
  fixes fit :: "'k \<Rightarrow> bool"
    and lookup :: "'m \<Rightarrow> 'k \<Rightarrow> 'v option"
    and put :: "'k \<Rightarrow> 'v \<Rightarrow> 'm \<Rightarrow> 'm"
    and remove :: "'k \<Rightarrow> 'm \<Rightarrow> 'm"
    and ok :: "'m \<Rightarrow> bool"
  assumes lookup_put: "ok m \<Longrightarrow> fit k \<Longrightarrow> fit k' \<Longrightarrow> lookup (put k v m) k' = (if k' = k then Some v else lookup m k')"
    and lookup_remove: "ok m \<Longrightarrow> fit k \<Longrightarrow> fit k' \<Longrightarrow> lookup (remove k m) k' = (if k' = k then None else lookup m k')"
    and ok_put: "ok m \<Longrightarrow> ok (put k v m)"
    and ok_remove: "ok m \<Longrightarrow> ok (remove k m)"
begin

lemma lookup_remove_put:
  "ok m \<Longrightarrow> fit k \<Longrightarrow> fit k' \<Longrightarrow> lookup (remove k (put k v m)) k' = (if k' = k then None else lookup m k')"
  by (simp add: lookup_remove lookup_put ok_put)

lemma ok_put_all: "ok m \<Longrightarrow> ok (fold (\<lambda>k. put k (f k)) ks m)"
  by (induction ks arbitrary: m) (simp_all add: ok_put)

lemma lookup_put_all:
  "ok m \<Longrightarrow> \<forall>k \<in> set ks. fit k \<Longrightarrow> fit k' \<Longrightarrow>
   lookup (fold (\<lambda>k. put k (f k)) ks m) k' = (if k' \<in> set ks then Some (f k') else lookup m k')"
  by (induction ks arbitrary: m) (auto simp: ok_put lookup_put)

lemma ok_remove_all: "ok m \<Longrightarrow> ok (fold remove ks m)"
  by (induction ks arbitrary: m) (simp_all add: ok_remove)

lemma lookup_remove_all:
  "ok m \<Longrightarrow> \<forall>k \<in> set ks. fit k \<Longrightarrow> fit k' \<Longrightarrow>
   lookup (fold remove ks m) k' = (if k' \<in> set ks then None else lookup m k')"
  by (induction ks arbitrary: m) (auto simp: ok_remove lookup_remove)

end

definition gauge_ok :: "string list \<Rightarrow> gauge_vec \<Rightarrow> bool" where
  "gauge_ok names g \<longleftrightarrow> desc_label_names (gv_desc g) = names \<and> distinct names \<and> bt_ok (gv_children g)
     \<and> list_all (\<lambda>key. length key = length names) (map fst (gv_children g))"

text \<open>A set that may not fit, with its error dropped: the state it leaves.\<close>

definition gv_put :: "(string, string) btree \<Rightarrow> int \<Rightarrow> gauge_vec \<Rightarrow> gauge_vec" where
  "gv_put labels value g = (case gv_set_with g labels value of Inl _ \<Rightarrow> g | Inr g' \<Rightarrow> g')"

lemma gauge_ok_new: "distinct (desc_label_names d) \<Longrightarrow> gauge_ok (desc_label_names d) (gv_new d)"
  by (simp add: gauge_ok_def gv_new_def)

lemma gv_set_with_fits:
  "gauge_ok names g \<Longrightarrow> fits names labels \<Longrightarrow> gv_set_with g labels value = Inr (gv_put labels value g)"
  using fits_values [of "gv_desc g" labels]
  by (auto simp: gv_put_def gv_set_with_def gauge_ok_def)

lemma list_all_keys_bt_insert:
  "list_all P (map fst (bt_insert k v m)) \<longleftrightarrow> P k \<and> list_all P (map fst (AList.delete k m))"
  using keys_bt_insert [of k v m] hkeys_hdel [of k m] by (auto simp: list_all_iff)

lemma gauge_ok_put: "gauge_ok names g \<Longrightarrow> gauge_ok names (gv_put labels value g)"
  by (auto simp: gauge_ok_def gv_put_def gv_set_with_def values_in_order_Inr list_all_iff
      simp flip: set_map simp: keys_bt_insert split: sum.split)

lemma delete_mem: "x \<in> set (AList.delete k m) \<Longrightarrow> x \<in> set m"
  by (auto simp: AList.delete_eq)

lemma gauge_ok_delete: "gauge_ok names g \<Longrightarrow> gauge_ok names (snd (gv_delete_with g labels))"
  by (auto simp: gauge_ok_def gv_delete_with_def list_all_iff dest: delete_mem split: sum.split)

interpretation gv: series_store "fits names" gv_get_with gv_put "\<lambda>labels g. snd (gv_delete_with g labels)" "gauge_ok names"
  for names
proof unfold_locales
  fix m k k' v
  assume ok: "gauge_ok names m" and fk: "fits names k" and fk': "fits names k'"
  have vals: "values_in_order (gv_desc m) l = Inr (map (\<lambda>n. the (map_of l n)) names)" if "fits names l" for l
    using ok that fits_values [of "gv_desc m" l] by (simp add: gauge_ok_def)
  have same: "map (\<lambda>n. the (map_of k' n)) names = map (\<lambda>n. the (map_of k n)) names \<longleftrightarrow> k' = k"
    using values_inj [OF fk' fk] by auto
  show "gv_get_with (gv_put k v m) k' = (if k' = k then Some v else gv_get_with m k')"
    using same by (auto simp: gv_get_with_def gv_put_def gv_set_with_def vals [OF fk] vals [OF fk'] map_of_bt_insert)
  show "gv_get_with (snd (gv_delete_with m k)) k' = (if k' = k then None else gv_get_with m k')"
    using same by (auto simp: gv_get_with_def gv_delete_with_def vals [OF fk] vals [OF fk'] delete_conv')
qed (auto intro: gauge_ok_put gauge_ok_delete)

lemma gv_desc_put [simp]: "gv_desc (gv_put labels value g) = gv_desc g"
  by (simp add: gv_put_def gv_set_with_def split: sum.split)

lemma gv_desc_delete [simp]: "gv_desc (snd (gv_delete_with g labels)) = gv_desc g"
  by (simp add: gv_delete_with_def split: sum.split)

section \<open>All or nothing\<close>

text \<open>The error of one call on its own, if it has one.\<close>

definition set_error :: "desc \<Rightarrow> (string \<times> string) list \<Rightarrow> build_error option" where
  "set_error d label_list =
     (let labels = hm_collect label_list; names = desc_label_names d in
      if length labels \<noteq> length names then Some (GotLabels (length labels) names)
      else case collect_values (\<lambda>missing. MissingLabel (the missing) names) labels names of
             Inl e \<Rightarrow> Some e
           | Inr _ \<Rightarrow> None)"

lemma sb_error_set: "sb_error (sb_set d ls v b) = (case sb_error b of None \<Rightarrow> set_error d ls | e \<Rightarrow> e)"
  by (auto simp: sb_set_def set_error_def sb_fail_def sb_insert_def Let_def split: sum.split option.split)

lemma sb_error_fold:
  "sb_error (fold (\<lambda>(d, ls, v). sb_set d ls v) ops b) =
     (case sb_error b of
        Some e \<Rightarrow> Some e
      | None \<Rightarrow> (case filter (\<lambda>(d, ls, v). set_error d ls \<noteq> None) ops of
                   [] \<Rightarrow> None
                 | (d, ls, v) # _ \<Rightarrow> set_error d ls))"
proof (induction ops arbitrary: b)
  case (Cons op ops)
  then show ?case
    by (cases op) (auto simp: sb_error_set split: option.splits list.splits)
qed (simp split: option.split)

text \<open>The value a build would publish for a family name and label values.\<close>

definition sb_value :: "snapshot_builder \<Rightarrow> string \<Rightarrow> string list \<Rightarrow> int option" where
  "sb_value b name key = (case hget (sb_families b) name of None \<Rightarrow> None | Some f \<Rightarrow> map_of (bf_series f) key)"

lemma sb_value_insert:
  "sb_value (sb_insert d key v b) name key' =
     (if name = desc_name d \<and> key' = key then Some v else sb_value b name key')"
  by (auto simp: sb_value_def sb_insert_def Let_def update_conv' map_of_bt_insert split: option.splits)

lemma sb_families_fail [simp]: "sb_families (sb_fail e b) = sb_families b"
  by (simp add: sb_fail_def)

lemma sb_set_ok:
  "set_error d ls = None \<Longrightarrow>
   sb_set d ls v b = sb_insert d (map (\<lambda>n. the (map_of (hm_collect ls) n)) (desc_label_names d)) v b"
proof -
  let ?cv = "collect_values (\<lambda>missing. MissingLabel (the missing) (desc_label_names d)) (hm_collect ls) (desc_label_names d)"
  assume e: "set_error d ls = None"
  then obtain vs where vs: "?cv = Inr vs" and len: "length (hm_collect ls) = length (desc_label_names d)"
    by (auto simp: set_error_def Let_def split: sum.splits if_splits)
  then have "sb_set d ls v b = sb_insert d vs v b" by (simp add: sb_set_def Let_def)
  with vs show ?thesis unfolding collect_values_Inr by simp
qed

section \<open>What is published\<close>

text \<open>
  Of the families a collector was made for, each at most once, with one value per label name in every
  series: what a build leaves when it only sets series of those families.
\<close>

definition built_ok :: "desc list \<Rightarrow> built_family \<Rightarrow> bool" where
  "built_ok ds f \<longleftrightarrow> bf_desc f \<in> set ds \<and> bt_ok (bf_series f)
     \<and> (\<forall>key \<in> set (map fst (bf_series f)). length key = length (desc_label_names (bf_desc f)))"

definition builder_ok :: "desc list \<Rightarrow> snapshot_builder \<Rightarrow> bool" where
  "builder_ok ds b \<longleftrightarrow> hmap_ok (sb_families b)
     \<and> (\<forall>name f. hget (sb_families b) name = Some f \<longrightarrow> name = desc_name (bf_desc f) \<and> built_ok ds f)"

definition collector_ok :: "snapshot_collector \<Rightarrow> bool" where
  "collector_ok c \<longleftrightarrow> (\<forall>families. sc_current c = Some families \<longrightarrow>
     distinct (map (\<lambda>f. desc_name (bf_desc f)) families) \<and> list_all (built_ok (sc_descs c)) families)"

lemma builder_ok_new [simp]: "builder_ok ds sb_new"
  by (simp add: builder_ok_def sb_new_def hmap_ok_def)

lemma collector_ok_new [simp]: "collector_ok (sc_new ds)"
  by (simp add: collector_ok_def sc_new_def)

lemma builder_ok_insert:
  assumes "builder_ok ds b" and "d \<in> set ds" and "distinct (map desc_name ds)" and "length key = length (desc_label_names d)"
  shows "builder_ok ds (sb_insert d key v b)"
proof -
  define f where "f = (case hget (sb_families b) (desc_name d) of Some f \<Rightarrow> f | None \<Rightarrow> \<lparr>bf_desc = d, bf_series = []\<rparr>)"
  have f: "bf_desc f = d \<and> built_ok ds f"
  proof (cases "hget (sb_families b) (desc_name d)")
    case (Some g)
    then have g: "desc_name d = desc_name (bf_desc g)" "built_ok ds g" using assms(1) by (auto simp: builder_ok_def)
    then have "bf_desc g = d" using assms(2,3) unfolding built_ok_def by (metis distinct_map inj_onD)
    then show ?thesis using Some g(2) by (simp add: f_def)
  qed (simp add: f_def built_ok_def assms(2) bt_ok_def)
  have "built_ok ds (f\<lparr>bf_series := bt_insert key v (bf_series f)\<rparr>)"
    using f assms(4) keys_bt_insert [of key v "bf_series f"] by (auto simp: built_ok_def)
  then show ?thesis using assms(1) f
    by (simp add: builder_ok_def sb_insert_def f_def [symmetric] Let_def update_conv')
qed

lemma builder_ok_set:
  assumes "builder_ok ds b" and "d \<in> set ds" and "distinct (map desc_name ds)"
  shows "builder_ok ds (sb_set d l v b)"
proof (cases "set_error d l")
  case None
  then show ?thesis using builder_ok_insert [OF assms] by (simp add: sb_set_ok)
next
  case (Some e)
  then have "\<exists>e. sb_set d l v b = sb_fail e b" by (auto simp: set_error_def sb_set_def Let_def split: if_splits sum.splits)
  then show ?thesis using assms(1) by (auto simp: builder_ok_def)
qed

lemma built_families:
  assumes "builder_ok ds b" and "sb_build b = Inr families"
  shows "distinct (map (\<lambda>f. desc_name (bf_desc f)) families)" "list_all (built_ok ds) families"
proof -
  have f: "families = map snd (sb_families b)" using assms(2) by (simp add: sb_build_def split: option.splits)
  have k: "fst x = desc_name (bf_desc (snd x)) \<and> built_ok ds (snd x)" if "x \<in> set (sb_families b)" for x
    using assms(1) hget_mem_iff [of "sb_families b" "fst x" "snd x"] that by (simp add: builder_ok_def)
  have "map (\<lambda>f. desc_name (bf_desc f)) families = hkeys (sb_families b)" using k by (simp add: f)
  then show "distinct (map (\<lambda>f. desc_name (bf_desc f)) families)" using assms(1) by (simp add: builder_ok_def hmap_ok_def)
  show "list_all (built_ok ds) families" using k by (auto simp: f list_all_iff)
qed

lemma collector_ok_publish:
  "builder_ok (sc_descs c) b \<Longrightarrow> sb_build b = Inr families \<Longrightarrow> collector_ok (sc_publish c families)"
  using built_families by (simp add: collector_ok_def sc_publish_def)

lemma sc_descs_publish [simp]: "sc_descs (sc_publish c families) = sc_descs c"
  by (simp add: sc_publish_def)

section \<open>Properties\<close>

text \<open>
  A label set is accepted by a family exactly when its keys are the family's label names; then
  the series it names is set and read back, no other series of the family changes, and deleting it
  restores the rest.
\<close>

theorem gauge_vec_series:
  assumes "gauge_ok names g" and "fits names labels" and "fits names other"
  shows "\<exists>g'. gv_set_with g labels value = Inr g' \<and> gauge_ok names g'
    \<and> gv_get_with g' other = (if other = labels then Some value else gv_get_with g other)
    \<and> gv_get_with (snd (gv_delete_with g' labels)) other = (if other = labels then None else gv_get_with g other)
    \<and> fst (gv_delete_with g' labels)"
proof -
  let ?g = "gv_put labels value g"
  have ok': "gauge_ok names ?g" using assms(1) by (rule gauge_ok_put)
  have "gv_get_with ?g labels = Some value" using gv.lookup_put [OF assms(1,2,2)] by simp
  then have "fst (gv_delete_with ?g labels)"
    by (auto simp: gv_get_with_def gv_delete_with_def split: sum.splits)
  then show ?thesis
    using gv_set_with_fits [OF assms(1,2)] ok' gv.lookup_put [OF assms(1-3)] gv.lookup_remove_put [OF assms(1-3)]
    by simp
qed

theorem gauge_vec_series_witness:
  "\<exists>g'. gv_set_with (gv_new \<lparr>desc_name = ''m'', desc_help = ''h'', desc_label_names = [''b'', ''a'']\<rparr>)
      [(''a'', ''1''), (''b'', ''2'')] 7 = Inr g'
    \<and> gv_get_with g' [(''a'', ''1''), (''b'', ''2'')] = Some 7"
proof -
  have "gauge_ok [''b'', ''a''] (gv_new \<lparr>desc_name = ''m'', desc_help = ''h'', desc_label_names = [''b'', ''a'']\<rparr>)"
    by (simp add: gauge_ok_def gv_new_def)
  moreover have "fits [''b'', ''a''] [(''a'', ''1''), (''b'', ''2'')]"
    unfolding fits_def bt_ok_def by (intro conjI; code_simp)
  ultimately show ?thesis
    using gauge_vec_series [of "[''b'', ''a'']" _ "[(''a'', ''1''), (''b'', ''2'')]" "[(''a'', ''1''), (''b'', ''2'')]" 7]
    by auto
qed

text \<open>
  A label set with other names is an error of the set, a false delete and an absent lookup, and
  leaves the family as it was.
\<close>

theorem gauge_vec_mismatch:
  assumes "gauge_ok names g" and "bt_ok labels" and "\<not> fits names labels"
  shows "(\<exists>e. gv_set_with g labels value = Inl e) \<and> gv_delete_with g labels = (False, g)
    \<and> gv_get_with g labels = None"
proof -
  have "\<nexists>vs. values_in_order (gv_desc g) labels = Inr vs"
    using assms fits_iff_values [of "gv_desc g" labels] by (auto simp: gauge_ok_def)
  then obtain e where "values_in_order (gv_desc g) labels = Inl e"
    by (cases "values_in_order (gv_desc g) labels") auto
  then show ?thesis by (simp add: gv_set_with_def gv_delete_with_def gv_get_with_def)
qed

theorem gauge_vec_mismatch_witness:
  "gv_delete_with (gv_new \<lparr>desc_name = ''m'', desc_help = ''h'', desc_label_names = [''a'']\<rparr>) [(''b'', ''1'')]
     = (False, gv_new \<lparr>desc_name = ''m'', desc_help = ''h'', desc_label_names = [''a'']\<rparr>)"
proof -
  have "gauge_ok [''a''] (gv_new \<lparr>desc_name = ''m'', desc_help = ''h'', desc_label_names = [''a'']\<rparr>)"
    by (simp add: gauge_ok_def gv_new_def)
  moreover have "bt_ok [(''b'', ''1'')]" "\<not> fits [''a''] [(''b'', ''1'')]"
    by (simp_all add: bt_ok_def fits_def)
  ultimately show ?thesis using gauge_vec_mismatch by blast
qed

text \<open>
  A build is all or nothing: it returns families exactly when every call's label set fits, and
  otherwise the error of the first call that does not, whatever was recorded around it.
\<close>

theorem snapshot_build_all_or_nothing:
  "let b = fold (\<lambda>(d, ls, v). sb_set d ls v) ops sb_new;
       bad = filter (\<lambda>(d, ls, v). set_error d ls \<noteq> None) ops in
   sb_build b = (case bad of
       [] \<Rightarrow> Inr (map snd (sb_families b))
     | (d, ls, v) # _ \<Rightarrow> Inl (the (set_error d ls)))"
proof -
  let ?bad = "filter (\<lambda>(d, ls, v). set_error d ls \<noteq> None) ops"
  have e: "sb_error (fold (\<lambda>(d, ls, v). sb_set d ls v) ops sb_new) =
      (case ?bad of [] \<Rightarrow> None | (d, ls, v) # _ \<Rightarrow> set_error d ls)"
    using sb_error_fold [of ops sb_new] by (simp add: sb_new_def)
  show ?thesis
  proof (cases ?bad)
    case Nil
    then show ?thesis using e by (simp add: sb_build_def)
  next
    case (Cons op rest)
    then have "op \<in> set ?bad" by simp
    then have "case op of (d, ls, v) \<Rightarrow> set_error d ls \<noteq> None" by (simp only: set_filter mem_Collect_eq)
    then obtain d ls v x where op: "op = (d, ls, v)" "set_error d ls = Some x" by (cases op) auto
    then show ?thesis using e Cons by (simp add: sb_build_def)
  qed
qed

end
