(* ===== verification/Service_Metadata.thy ===== *)
theory Service_Metadata
  imports Docker_Types Metric_Families
begin

text \<open>
  \<^verbatim>\<open>src/src/collector/types.rs\<close> and \<^verbatim>\<open>src/src/collector/metrics_ids.rs\<close>: what the exporter keeps per
  service, the caches of the reconciler, and the naming rules. The validation of the custom labels
  at startup (\<^verbatim>\<open>validate_custom_labels\<close> of \<^verbatim>\<open>src/src/cli.rs\<close>) is here too: every family relies on it.
\<close>

section \<open>Names\<close>

definition LABEL_DISPLAY_NAME :: string where "LABEL_DISPLAY_NAME = ''display_name''"
definition LABEL_SERVICE :: string where "LABEL_SERVICE = ''service''"
definition LABEL_SERVICE_MODE :: string where "LABEL_SERVICE_MODE = ''service_mode''"
definition LABEL_STACK :: string where "LABEL_STACK = ''stack''"
definition LABEL_STATE :: string where "LABEL_STATE = ''state''"

definition SERVICE_MODE_REPLICATED :: string where "SERVICE_MODE_REPLICATED = ''replicated''"
definition SERVICE_MODE_GLOBAL :: string where "SERVICE_MODE_GLOBAL = ''global''"
definition SERVICE_MODE_REPLICATED_JOB :: string where "SERVICE_MODE_REPLICATED_JOB = ''replicated-job''"
definition SERVICE_MODE_GLOBAL_JOB :: string where "SERVICE_MODE_GLOBAL_JOB = ''global-job''"

definition STACK_NAMESPACE_LABEL :: string where
  "STACK_NAMESPACE_LABEL = ''com.docker.stack.namespace''"

definition RESTART_CONDITION_NONE :: string where
  "RESTART_CONDITION_NONE = ''none''"

definition reserved_label_names :: "string list" where
  "reserved_label_names = [LABEL_STACK, LABEL_SERVICE, LABEL_SERVICE_MODE, LABEL_DISPLAY_NAME, LABEL_STATE]"

lemmas label_name_defs = LABEL_DISPLAY_NAME_def LABEL_SERVICE_def LABEL_SERVICE_MODE_def LABEL_STACK_def
  LABEL_STATE_def
lemmas service_mode_defs = SERVICE_MODE_REPLICATED_def SERVICE_MODE_GLOBAL_def
  SERVICE_MODE_REPLICATED_JOB_def SERVICE_MODE_GLOBAL_JOB_def

section \<open>Custom labels\<close>

record custom_label =
  cl_raw :: string
  cl_sanitized :: string

definition custom_labels_new :: "string list \<Rightarrow> string list \<Rightarrow> custom_label list" where
  "custom_labels_new raw_keys sanitized_keys =
     map (\<lambda>(raw, sanitized). \<lparr>cl_raw = raw, cl_sanitized = sanitized\<rparr>) (zip raw_keys sanitized_keys)"

definition sanitized_names :: "custom_label list \<Rightarrow> string list" where
  "sanitized_names labels = map cl_sanitized labels"

datatype custom_labels_error =
    CountE count_error
  | SanitizeE label_error
  | ReservedE string

definition RESERVED_LABEL_NAMES :: "string list" where
  "RESERVED_LABEL_NAMES = [''stack'', ''service'', ''service_mode'', ''display_name'', ''state'']"

definition validate_custom_labels :: "string list \<Rightarrow> custom_labels_error + custom_label list" where
  "validate_custom_labels raw_keys =
     (case validate_custom_label_count (length raw_keys) of
        Inl e \<Rightarrow> Inl (CountE e)
      | Inr _ \<Rightarrow>
          (case validate_and_sanitize_label_names raw_keys of
             Inl e \<Rightarrow> Inl (SanitizeE e)
           | Inr sanitized \<Rightarrow>
               (case List.find (\<lambda>name. name \<in> set RESERVED_LABEL_NAMES) sanitized of
                  Some name \<Rightarrow> Inl (ReservedE name)
                | None \<Rightarrow> Inr (custom_labels_new raw_keys sanitized))))"

section \<open>The metadata of a service\<close>

record service_metadata =
  sm_stack :: string
  sm_service :: string
  sm_service_mode :: string
  sm_custom_labels :: "(string, string) btree"
  sm_desired_replicas :: int
  sm_configured_replicas :: int
  sm_job_iteration :: nat
  sm_constraints :: "string list"
  sm_platforms :: "platform list"
  sm_restart_condition_none :: bool

definition service_mode :: "service \<Rightarrow> string" where
  "service_mode s =
     (let mode = ss_mode (svc_spec s) in
      if md_replicated mode \<noteq> None then SERVICE_MODE_REPLICATED
      else if md_replicated_job mode \<noteq> None then SERVICE_MODE_REPLICATED_JOB
      else if md_global_job mode \<noteq> None then SERVICE_MODE_GLOBAL_JOB
      else SERVICE_MODE_GLOBAL)"

definition is_job_mode :: "string \<Rightarrow> bool" where
  "is_job_mode mode \<longleftrightarrow> mode = SERVICE_MODE_REPLICATED_JOB \<or> mode = SERVICE_MODE_GLOBAL_JOB"

definition job_total_completions :: "replicated_job \<Rightarrow> int" where
  "job_total_completions job =
     (case (case total_completions job of Some n \<Rightarrow> Some n | None \<Rightarrow> max_concurrent job) of
        Some n \<Rightarrow> from_int (int n)
      | None \<Rightarrow> 1)"

definition strip_prefix :: "string \<Rightarrow> string \<Rightarrow> string option" where
  "strip_prefix p s = (if starts_with p s then Some (drop (length p) s) else None)"

definition short_service_name :: "string \<Rightarrow> string \<Rightarrow> string" where
  "short_service_name stack full_name =
     (if stack = [] then full_name
      else case Option.bind (strip_prefix stack full_name) (strip_prefix ''_'') of
             Some rest \<Rightarrow> rest
           | None \<Rightarrow> full_name)"

definition display_name :: "string \<Rightarrow> string \<Rightarrow> string" where
  "display_name stack service =
     (if stack = service then stack
      else if stack = [] then service
      else stack @ '' '' @ service)"

definition unwrap_or :: "'a option \<Rightarrow> 'a \<Rightarrow> 'a" where
  "unwrap_or x d = (case x of Some v \<Rightarrow> v | None \<Rightarrow> d)"

text \<open>The configured replicas, the only part of \<open>build_metadata\<close> that can panic.\<close>

definition configured_replicas :: "service \<Rightarrow> panic + int" where
  "configured_replicas s =
     (let mode = ss_mode (svc_spec s) in
      case md_replicated mode of
        Some replicated \<Rightarrow>
          (case replicas replicated of
             None \<Rightarrow> Inl (NoReplicas (svc_id s))
           | Some n \<Rightarrow> Inr (from_int (int n)))
      | None \<Rightarrow>
          (case md_replicated_job mode of
             Some job \<Rightarrow> Inr (job_total_completions job)
           | None \<Rightarrow> Inr 0))"

definition build_metadata :: "service \<Rightarrow> custom_label list \<Rightarrow> panic + service_metadata" where
  "build_metadata s custom_labels =
     (let spec = svc_spec s;
          stack = unwrap_or (map_of (ss_labels spec) STACK_NAMESPACE_LABEL) [];
          template = ss_task_template spec in
      case configured_replicas s of
        Inl p \<Rightarrow> Inl p
      | Inr configured \<Rightarrow> Inr
         \<lparr>sm_stack = stack,
          sm_service = short_service_name stack (ss_name spec),
          sm_service_mode = service_mode s,
          sm_custom_labels = fold (\<lambda>label. bt_insert (cl_sanitized label)
                 (unwrap_or (map_of (ss_labels spec) (cl_raw label)) [])) custom_labels [],
          sm_desired_replicas = 0,
          sm_configured_replicas = configured,
          sm_job_iteration = (case svc_job_status s of Some js \<Rightarrow> js_job_iteration js | None \<Rightarrow> 0),
          sm_constraints = (case ts_placement template of Some p \<Rightarrow> constraints p | None \<Rightarrow> []),
          sm_platforms = (case ts_placement template of Some p \<Rightarrow> platforms p | None \<Rightarrow> []),
          sm_restart_condition_none =
            (case ts_restart_policy template of
               Some policy \<Rightarrow> condition policy = RESTART_CONDITION_NONE
             | None \<Rightarrow> False)\<rparr>)"

section \<open>The caches\<close>

type_synonym metadata_cache = "(string, service_metadata) hmap"
type_synonym node_cache = "node list"

definition mc_replace :: "string \<Rightarrow> service_metadata \<Rightarrow> metadata_cache \<Rightarrow> metadata_cache" where
  "mc_replace service_id metadata cache = hput service_id metadata cache"

definition mc_get :: "metadata_cache \<Rightarrow> string \<Rightarrow> service_metadata option" where
  "mc_get cache service_id = hget cache service_id"

definition mc_delete :: "string \<Rightarrow> metadata_cache \<Rightarrow> metadata_cache" where
  "mc_delete service_id cache = hdel service_id cache"

definition mc_set_desired_replicas :: "string \<Rightarrow> int \<Rightarrow> metadata_cache \<Rightarrow> metadata_cache" where
  "mc_set_desired_replicas service_id desired cache =
     (case hget cache service_id of
        None \<Rightarrow> cache
      | Some metadata \<Rightarrow> hput service_id (metadata\<lparr>sm_desired_replicas := desired\<rparr>) cache)"

definition mc_ids :: "metadata_cache \<Rightarrow> string list" where
  "mc_ids cache = hkeys cache"

definition nc_set :: "node list \<Rightarrow> node_cache \<Rightarrow> node_cache" where
  "nc_set nodes cache = nodes"

lemmas mc_defs [model_defs] = mc_replace_def mc_get_def mc_delete_def mc_set_desired_replicas_def mc_ids_def

section \<open>What the metadata guarantees\<close>

lemma reserved_names_agree: "RESERVED_LABEL_NAMES = reserved_label_names"
  by (simp add: RESERVED_LABEL_NAMES_def reserved_label_names_def label_name_defs)

text \<open>What the startup validation establishes of the custom labels and every family relies on.\<close>

definition custom_ok :: "custom_label list \<Rightarrow> bool" where
  "custom_ok labels \<longleftrightarrow> distinct (sanitized_names labels)
     \<and> list_all is_valid_label_name (sanitized_names labels)
     \<and> set (sanitized_names labels) \<inter> set reserved_label_names = {}"

lemma sanitized_names_new:
  "length raw = length sanitized \<Longrightarrow> sanitized_names (custom_labels_new raw sanitized) = sanitized"
proof -
  assume "length raw = length sanitized"
  then have "map snd (zip raw sanitized) = sanitized" by simp
  moreover have "sanitized_names (custom_labels_new raw sanitized) = map snd (zip raw sanitized)"
    by (simp add: sanitized_names_def custom_labels_new_def split_def)
  ultimately show ?thesis by simp
qed

lemma validate_custom_labels_Inr:
  "validate_custom_labels raw = Inr labels \<longleftrightarrow>
     length raw \<le> MAX_CUSTOM_LABEL_COUNT
     \<and> list_all acceptable_name (map sanitize_name raw) \<and> distinct (map sanitize_name raw)
     \<and> set (map sanitize_name raw) \<inter> set reserved_label_names = {}
     \<and> labels = custom_labels_new raw (map sanitize_name raw)"
proof (cases "validate_and_sanitize_label_names raw")
  case (Inl e)
  then show ?thesis
    using validate_and_sanitize_ok_iff [of raw "map sanitize_name raw"]
    by (auto simp: validate_custom_labels_def split: sum.split)
next
  case (Inr out)
  then have "out = map sanitize_name raw" "list_all acceptable_name out" "distinct out"
    using validate_and_sanitize_ok_iff by metis+
  moreover have "List.find (\<lambda>name. name \<in> set RESERVED_LABEL_NAMES) out = None
      \<longleftrightarrow> set out \<inter> set reserved_label_names = {}"
    by (auto simp: find_None_iff reserved_names_agree)
  ultimately show ?thesis
    using Inr by (auto simp: validate_custom_labels_def validate_custom_label_count_def split: option.split)
qed

lemma validated_custom_ok:
  assumes "validate_custom_labels raw = Inr labels"
  shows "custom_ok labels" and "length labels \<le> MAX_CUSTOM_LABEL_COUNT"
proof -
  have v: "length raw \<le> MAX_CUSTOM_LABEL_COUNT" "list_all acceptable_name (map sanitize_name raw)"
    "distinct (map sanitize_name raw)" "set (map sanitize_name raw) \<inter> set reserved_label_names = {}"
    "labels = custom_labels_new raw (map sanitize_name raw)"
    using assms by (simp_all only: validate_custom_labels_Inr)
  have names: "sanitized_names labels = map sanitize_name raw"
    unfolding v(5) by (rule sanitized_names_new) simp
  have "list_all is_valid_label_name (map sanitize_name raw)"
    by (simp add: list_all_iff sanitize_name_valid)
  then show "custom_ok labels" unfolding custom_ok_def names using v(3,4) by blast
  show "length labels \<le> MAX_CUSTOM_LABEL_COUNT" using v(1,5) by (simp add: custom_labels_new_def)
qed

lemma fold_insert_labels:
  fixes f :: "custom_label \<Rightarrow> string"
  assumes "bt_ok m"
  shows "bt_ok (fold (\<lambda>l. bt_insert (cl_sanitized l) (f l)) ls m)
    \<and> set (map fst (fold (\<lambda>l. bt_insert (cl_sanitized l) (f l)) ls m)) = set (map fst m) \<union> set (sanitized_names ls)"
  using assms
proof (induction ls arbitrary: m)
  case (Cons l ls)
  then have "bt_ok (bt_insert (cl_sanitized l) (f l) m)" by simp
  from Cons.IH [OF this] show ?case
    using keys_bt_insert [of "cl_sanitized l" "f l" m] by (simp add: sanitized_names_def)
qed (simp add: sanitized_names_def)

text \<open>Every custom label is present in the metadata, and nothing else (exhaustive emission).\<close>

lemma build_metadata_custom:
  assumes "build_metadata s cls = Inr md"
  shows "bt_ok (sm_custom_labels md)" and "set (map fst (sm_custom_labels md)) = set (sanitized_names cls)"
proof -
  let ?f = "\<lambda>l. unwrap_or (map_of (ss_labels (svc_spec s)) (cl_raw l)) []"
  have "sm_custom_labels md = fold (\<lambda>l. bt_insert (cl_sanitized l) (?f l)) cls []"
    using assms by (auto simp: build_metadata_def Let_def split: sum.splits)
  then show "bt_ok (sm_custom_labels md)" "set (map fst (sm_custom_labels md)) = set (sanitized_names cls)"
    using fold_insert_labels [of "[]" ?f cls] by simp_all
qed

lemma build_metadata_mode:
  "build_metadata s cls = Inr md \<Longrightarrow> sm_service_mode md = service_mode s"
  by (auto simp: build_metadata_def Let_def split: sum.splits)

lemma build_metadata_panics_iff:
  "(\<exists>p. build_metadata s cls = Inl p) \<longleftrightarrow>
     (\<exists>r. md_replicated (ss_mode (svc_spec s)) = Some r \<and> replicas r = None)"
  by (auto simp: build_metadata_def configured_replicas_def Let_def split: option.splits sum.splits)

lemma starts_with_prefix: "starts_with p (p @ s)"
  by (simp add: starts_with_def)

section \<open>Properties\<close>

text \<open>
  Custom labels that pass the startup validation are at most eight, and their exported names are
  distinct valid label names outside the names the families already use.
\<close>

theorem validate_custom_labels_sound:
  assumes "validate_custom_labels raw = Inr labels"
  shows "length labels = length raw \<and> length labels \<le> MAX_CUSTOM_LABEL_COUNT \<and> map cl_raw labels = raw
    \<and> distinct (sanitized_names labels) \<and> list_all is_valid_label_name (sanitized_names labels)
    \<and> set (sanitized_names labels) \<inter> set reserved_label_names = {}"
proof -
  have l: "labels = custom_labels_new raw (map sanitize_name raw)"
    using assms by (simp only: validate_custom_labels_Inr)
  have "map cl_raw labels = raw"
    unfolding l by (simp add: custom_labels_new_def zip_sanitized comp_def)
  then show ?thesis
    using validated_custom_ok [OF assms] by (metis custom_ok_def length_map)
qed

theorem validate_custom_labels_sound_witness:
  "\<exists>labels. validate_custom_labels [''my.team'', ''env''] = Inr labels
     \<and> sanitized_names labels = [''my_team'', ''env''] \<and> distinct (sanitized_names labels)"
proof -
  have v: "validate_custom_labels [''my.team'', ''env''] =
      Inr [\<lparr>cl_raw = ''my.team'', cl_sanitized = ''my_team''\<rparr>, \<lparr>cl_raw = ''env'', cl_sanitized = ''env''\<rparr>]"
    by code_simp
  show ?thesis using v validate_custom_labels_sound [OF v] by (auto simp: sanitized_names_def)
qed

text \<open>
  The visible service name is the full name without the stack prefix: prefixing it again with
  the stack gives the full name back, and without a stack, or without the prefix, the name stays.
\<close>

theorem short_service_name_roundtrip:
  "short_service_name stack (stack @ ''_'' @ name) = (if stack = [] then ''_'' @ name else name)
   \<and> short_service_name [] full = full
   \<and> (short_service_name stack full = full \<or> full = stack @ ''_'' @ short_service_name stack full)"
proof -
  have "short_service_name stack full = full \<or> full = stack @ ''_'' @ short_service_name stack full"
  proof (cases "stack \<noteq> [] \<and> starts_with stack full \<and> starts_with ''_'' (drop (length stack) full)")
    case True
    then have "full = stack @ drop (length stack) full"
      by (metis append_take_drop_id starts_with_def)
    moreover have "drop (length stack) full = ''_'' @ drop 1 (drop (length stack) full)"
      using True by (metis One_nat_def append_take_drop_id length_Cons list.size(3) starts_with_def)
    ultimately show ?thesis
      using True by (auto simp: short_service_name_def strip_prefix_def)
  qed (auto simp: short_service_name_def strip_prefix_def)
  then show ?thesis
    by (simp add: short_service_name_def strip_prefix_def starts_with_def)
qed

end
