(* ===== verification/Dirty_Set.thy ===== *)
theory Dirty_Set
  imports Service_Metadata
begin

text \<open>
  The \<^verbatim>\<open>State\<close> of \<^verbatim>\<open>src/src/collector/reconciler/mod.rs\<close>, which the event side shares with the reconciler
  under one lock: generations, the epoch, the resync counters and the queue of dirty service keys.
  Every operation below runs under the lock and is one atomic step. The queue's contract is the
  interface \<open>dirty_queue\<close>, interpreted on \<open>mark_service_dirty\<close> and \<open>take_due_keys\<close>.
\<close>

section \<open>Constants\<close>

definition PENDING_KEY_CAP :: nat where "PENDING_KEY_CAP = 4096"
definition SERVICE_KEYS_PER_CYCLE :: nat where "SERVICE_KEYS_PER_CYCLE = 32"
definition PERIODIC_RESYNC_INTERVAL :: nanos where "PERIODIC_RESYNC_INTERVAL = secs (5 * 60)"
definition SERVICE_RETRY_DELAYS :: "nanos list" where "SERVICE_RETRY_DELAYS = [millis 500, secs 1, secs 2]"
definition BACKOFF_INITIAL_DELAY :: nanos where "BACKOFF_INITIAL_DELAY = millis 500"
definition BACKOFF_MAX_DELAY :: nanos where "BACKOFF_MAX_DELAY = secs 30"
definition BACKOFF_MULTIPLIER :: nat where "BACKOFF_MULTIPLIER = 2"

type_synonym instant = nat

section \<open>The shared state\<close>

record generation =
  gn_value :: nat
  gn_cached :: bool

record pending_key =
  pk_attempts :: nat
  pk_not_before :: instant

record due_key =
  dk_service_id :: string
  dk_attempts :: nat

record shared_state =
  st_pending_cap :: nat
  st_generation_counter :: nat
  st_service_generation :: "(string, generation) hmap"
  st_node_generation :: nat
  st_epoch :: nat
  st_resync_requested :: nat
  st_resync_completed :: nat
  st_resync_outstanding_since :: "timestamp option"
  st_pending_set :: "(string, pending_key) hmap"
  st_pending_order :: "string list"
  st_nodes_dirty :: bool

definition state_new :: "nat \<Rightarrow> timestamp \<Rightarrow> shared_state" where
  "state_new cap now =
     \<lparr>st_pending_cap = cap, st_generation_counter = 0, st_service_generation = [], st_node_generation = 0,
      st_epoch = 0, st_resync_requested = 1, st_resync_completed = 0, st_resync_outstanding_since = Some now,
      st_pending_set = [], st_pending_order = [], st_nodes_dirty = False\<rparr>"

definition bump_service_generation :: "string \<Rightarrow> bool option \<Rightarrow> shared_state \<Rightarrow> shared_state" where
  "bump_service_generation service_id cached s =
     (let value = Suc (st_generation_counter s);
          entry = (case hget (st_service_generation s) service_id of
                     Some g \<Rightarrow> g
                   | None \<Rightarrow> \<lparr>gn_value = value, gn_cached = False\<rparr>);
          entry = entry\<lparr>gn_value := value\<rparr>;
          entry = (case cached of Some c \<Rightarrow> entry\<lparr>gn_cached := c\<rparr> | None \<Rightarrow> entry)
      in s\<lparr>st_generation_counter := value, st_service_generation := hput service_id entry (st_service_generation s)\<rparr>)"

definition prune_service_generations :: "shared_state \<Rightarrow> shared_state" where
  "prune_service_generations s =
     s\<lparr>st_service_generation := filter (\<lambda>(service_id, g). gn_cached g \<or> hhas (st_pending_set s) service_id)
          (st_service_generation s)\<rparr>"

definition state_request_resync :: "timestamp \<Rightarrow> shared_state \<Rightarrow> shared_state" where
  "state_request_resync now s =
     (let s = (if st_resync_requested s = st_resync_completed s then s\<lparr>st_resync_outstanding_since := Some now\<rparr> else s)
      in s\<lparr>st_resync_requested := Suc (st_resync_requested s), st_epoch := Suc (st_epoch s)\<rparr>)"

definition overflow :: "timestamp \<Rightarrow> shared_state \<Rightarrow> shared_state" where
  "overflow now s =
     state_request_resync now (prune_service_generations (s\<lparr>st_pending_set := [], st_pending_order := []\<rparr>))"

definition mark_nodes_dirty :: "shared_state \<Rightarrow> shared_state" where
  "mark_nodes_dirty s = s\<lparr>st_node_generation := Suc (st_node_generation s), st_nodes_dirty := True\<rparr>"

definition mark_service_dirty :: "string \<Rightarrow> instant \<Rightarrow> timestamp \<Rightarrow> shared_state \<Rightarrow> shared_state" where
  "mark_service_dirty service_id now ts s =
     (let s = bump_service_generation service_id None s in
      if hhas (st_pending_set s) service_id
      then s\<lparr>st_pending_set := hput service_id \<lparr>pk_attempts = 0, pk_not_before = now\<rparr> (st_pending_set s)\<rparr>
      else if length (st_pending_set s) \<ge> st_pending_cap s then overflow ts s
      else s\<lparr>st_pending_set := hput service_id \<lparr>pk_attempts = 0, pk_not_before = now\<rparr> (st_pending_set s),
             st_pending_order := st_pending_order s @ [service_id]\<rparr>)"

text \<open>The requeueing of \<^verbatim>\<open>retry_service\<close>, with the retry delays of the policy.\<close>

definition retry_service :: "nanos list \<Rightarrow> due_key \<Rightarrow> instant \<Rightarrow> timestamp \<Rightarrow> shared_state \<Rightarrow> shared_state" where
  "retry_service retry_delays key now ts s =
     (if hhas (st_pending_set s) (dk_service_id key) then s
      else if dk_attempts key \<ge> length retry_delays then state_request_resync ts s
      else if length (st_pending_set s) \<ge> st_pending_cap s then overflow ts s
      else s\<lparr>st_pending_set := hput (dk_service_id key)
               \<lparr>pk_attempts = dk_attempts key + 1, pk_not_before = now + retry_delays ! dk_attempts key\<rparr> (st_pending_set s),
             st_pending_order := st_pending_order s @ [dk_service_id key]\<rparr>)"

text \<open>The loop of \<^verbatim>\<open>take_due_keys\<close>: the keys taken and the keys left, in order.\<close>

fun take_loop :: "instant \<Rightarrow> string list \<Rightarrow> (string, pending_key) hmap \<Rightarrow> due_key list \<Rightarrow> string list
    \<Rightarrow> due_key list \<times> string list \<times> (string, pending_key) hmap" where
  "take_loop now [] pending taken remaining = (taken, remaining, pending)"
| "take_loop now (service_id # order) pending taken remaining =
     (let due = (case hget pending service_id of Some p \<Rightarrow> pk_not_before p \<le> now | None \<Rightarrow> False) in
      if length taken < SERVICE_KEYS_PER_CYCLE \<and> due
      then (case hget pending service_id of
              Some p \<Rightarrow> take_loop now order (hdel service_id pending)
                          (taken @ [\<lparr>dk_service_id = service_id, dk_attempts = pk_attempts p\<rparr>]) remaining
            | None \<Rightarrow> take_loop now order pending taken remaining)
      else take_loop now order pending taken (remaining @ [service_id]))"

definition take_due_keys :: "instant \<Rightarrow> shared_state \<Rightarrow> due_key list \<times> shared_state" where
  "take_due_keys now s =
     (if st_resync_completed s = 0 \<or> st_pending_order s = [] then ([], s)
      else let (taken, remaining, pending) = take_loop now (st_pending_order s) (st_pending_set s) [] []
           in (taken, s\<lparr>st_pending_order := remaining, st_pending_set := pending\<rparr>))"

definition resync_state :: "shared_state \<Rightarrow> nat \<times> nat \<times> timestamp option" where
  "resync_state s = (st_resync_requested s, st_resync_completed s, st_resync_outstanding_since s)"

section \<open>The queue\<close>

definition queue_ok :: "shared_state \<Rightarrow> bool" where
  "queue_ok s \<longleftrightarrow> hmap_ok (st_pending_set s) \<and> distinct (st_pending_order s)
     \<and> set (st_pending_order s) = set (hkeys (st_pending_set s)) \<and> length (st_pending_set s) \<le> st_pending_cap s"

lemma bump_queue [simp]:
  "st_pending_set (bump_service_generation k c s) = st_pending_set s"
  "st_pending_order (bump_service_generation k c s) = st_pending_order s"
  "st_pending_cap (bump_service_generation k c s) = st_pending_cap s"
  "st_resync_requested (bump_service_generation k c s) = st_resync_requested s"
  "st_resync_completed (bump_service_generation k c s) = st_resync_completed s"
  "st_resync_outstanding_since (bump_service_generation k c s) = st_resync_outstanding_since s"
  "st_epoch (bump_service_generation k c s) = st_epoch s"
  "st_node_generation (bump_service_generation k c s) = st_node_generation s"
  "st_nodes_dirty (bump_service_generation k c s) = st_nodes_dirty s"
  "st_generation_counter (bump_service_generation k c s) = Suc (st_generation_counter s)"
  by (simp_all add: bump_service_generation_def Let_def)

lemma request_queue [simp]:
  "st_pending_set (state_request_resync now s) = st_pending_set s"
  "st_pending_order (state_request_resync now s) = st_pending_order s"
  "st_pending_cap (state_request_resync now s) = st_pending_cap s"
  "st_resync_requested (state_request_resync now s) = Suc (st_resync_requested s)"
  "st_resync_completed (state_request_resync now s) = st_resync_completed s"
  "st_epoch (state_request_resync now s) = Suc (st_epoch s)"
  "st_service_generation (state_request_resync now s) = st_service_generation s"
  "st_generation_counter (state_request_resync now s) = st_generation_counter s"
  "st_node_generation (state_request_resync now s) = st_node_generation s"
  "st_nodes_dirty (state_request_resync now s) = st_nodes_dirty s"
  by (simp_all add: state_request_resync_def Let_def)

lemma prune_queue [simp]:
  "st_pending_set (prune_service_generations s) = st_pending_set s"
  "st_pending_order (prune_service_generations s) = st_pending_order s"
  "st_pending_cap (prune_service_generations s) = st_pending_cap s"
  "st_resync_requested (prune_service_generations s) = st_resync_requested s"
  "st_resync_completed (prune_service_generations s) = st_resync_completed s"
  "st_resync_outstanding_since (prune_service_generations s) = st_resync_outstanding_since s"
  "st_epoch (prune_service_generations s) = st_epoch s"
  "st_generation_counter (prune_service_generations s) = st_generation_counter s"
  "st_node_generation (prune_service_generations s) = st_node_generation s"
  "st_nodes_dirty (prune_service_generations s) = st_nodes_dirty s"
  by (simp_all add: prune_service_generations_def)

lemma overflow_queue [simp]:
  "st_pending_set (overflow now s) = []"
  "st_pending_order (overflow now s) = []"
  "st_pending_cap (overflow now s) = st_pending_cap s"
  "st_resync_requested (overflow now s) = Suc (st_resync_requested s)"
  "st_resync_completed (overflow now s) = st_resync_completed s"
  "st_epoch (overflow now s) = Suc (st_epoch s)"
  "st_generation_counter (overflow now s) = st_generation_counter s"
  "st_node_generation (overflow now s) = st_node_generation s"
  "st_nodes_dirty (overflow now s) = st_nodes_dirty s"
  by (simp_all add: overflow_def)

lemma queue_ok_new [simp]: "queue_ok (state_new cap now)"
  by (simp add: queue_ok_def state_new_def)

lemma queue_ok_overflow [simp]: "queue_ok (overflow now s)"
  by (simp add: queue_ok_def)

lemma queue_ok_cong:
  "st_pending_set t = st_pending_set s \<Longrightarrow> st_pending_order t = st_pending_order s \<Longrightarrow> st_pending_cap t = st_pending_cap s
   \<Longrightarrow> queue_ok t = queue_ok s"
  by (simp add: queue_ok_def)

lemma queue_ok_enqueue:
  assumes "queue_ok s" and "\<not> hhas (st_pending_set s) k" and "length (st_pending_set s) < st_pending_cap s"
  shows "queue_ok (s\<lparr>st_pending_set := hput k v (st_pending_set s), st_pending_order := st_pending_order s @ [k]\<rparr>)"
  using assms hkeys_hput [of k v "st_pending_set s"] length_hput [of k v "st_pending_set s"]
  by (simp add: queue_ok_def hhas_iff)

lemma queue_ok_reset:
  assumes "queue_ok s" and "hhas (st_pending_set s) k"
  shows "queue_ok (s\<lparr>st_pending_set := hput k v (st_pending_set s)\<rparr>)"
  using assms hkeys_hput [of k v "st_pending_set s"] length_hput [of k v "st_pending_set s"]
  by (auto simp: queue_ok_def hhas_iff)

lemma queue_ok_mark: "queue_ok s \<Longrightarrow> queue_ok (mark_service_dirty k now ts s)"
  using queue_ok_enqueue [of "bump_service_generation k None s"] queue_ok_reset [of "bump_service_generation k None s"]
    queue_ok_cong [of "bump_service_generation k None s" s]
  by (simp add: mark_service_dirty_def Let_def)

lemma queue_ok_retry: "queue_ok s \<Longrightarrow> queue_ok (retry_service ds key now ts s)"
  using queue_ok_enqueue [of s "dk_service_id key"] queue_ok_cong [of "state_request_resync ts s" s]
  by (simp add: retry_service_def)

section \<open>The contract of the dirty queue\<close>

text \<open>
  Marking a key queues it once, keeping its place, or spills the whole queue into a resync request.
  So a marked key is never lost: it stays queued or a resync was requested since.
\<close>

locale dirty_queue =
  fixes queued :: "'s \<Rightarrow> 'k list" and requests :: "'s \<Rightarrow> nat" and mark :: "'k \<Rightarrow> 's \<Rightarrow> 's" and ok :: "'s \<Rightarrow> bool"
  assumes ok_mark: "ok s \<Longrightarrow> ok (mark k s)"
    and mark_cases: "ok s \<Longrightarrow>
      (queued (mark k s) = (if k \<in> set (queued s) then queued s else queued s @ [k]) \<and> requests (mark k s) = requests s)
      \<or> (queued (mark k s) = [] \<and> requests (mark k s) = Suc (requests s))"
begin

lemma ok_marks: "ok s \<Longrightarrow> ok (fold mark ks s)"
  by (induction ks arbitrary: s) (simp_all add: ok_mark)

lemma requests_marks: "ok s \<Longrightarrow> requests s \<le> requests (fold mark ks s)"
proof (induction ks arbitrary: s)
  case (Cons k ks)
  have "requests s \<le> requests (mark k s)" using mark_cases [OF Cons.prems, of k] by auto
  also have "\<dots> \<le> requests (fold mark ks (mark k s))" by (rule Cons.IH [OF ok_mark [OF Cons.prems]])
  finally show ?case by simp
qed simp

text \<open>With no spill, the queue grows at its end only and holds every marked key.\<close>

lemma marks_queue:
  assumes "ok s" and "requests (fold mark ks s) = requests s"
  shows "\<exists>new. queued (fold mark ks s) = queued s @ new \<and> set ks \<subseteq> set (queued s @ new)"
  using assms
proof (induction ks arbitrary: s)
  case (Cons k ks)
  have ok: "ok (mark k s)" using Cons.prems(1) by (rule ok_mark)
  have le: "requests (mark k s) \<le> requests s" using requests_marks [OF ok, of ks] Cons.prems(2) by simp
  then have q: "queued (mark k s) = (if k \<in> set (queued s) then queued s else queued s @ [k])" "requests (mark k s) = requests s"
    using mark_cases [OF Cons.prems(1), of k] by auto
  from Cons.IH [OF ok] Cons.prems(2) q(2) obtain new where
    "queued (fold mark ks (mark k s)) = queued (mark k s) @ new" "set ks \<subseteq> set (queued (mark k s) @ new)" by auto
  then show ?case using q(1) by (cases "k \<in> set (queued s)") auto
qed simp

lemma marks_not_lost:
  "ok s \<Longrightarrow> k \<in> set ks \<Longrightarrow> k \<in> set (queued (fold mark ks s)) \<or> requests s < requests (fold mark ks s)"
  using marks_queue [of s ks] requests_marks [of s ks] by fastforce

end

interpretation dq: dirty_queue st_pending_order st_resync_requested "\<lambda>k. mark_service_dirty k now ts" queue_ok for now ts
proof unfold_locales
  fix s k
  assume ok: "queue_ok s"
  then show "queue_ok (mark_service_dirty k now ts s)" by (rule queue_ok_mark)
  have "hhas (st_pending_set s) k \<longleftrightarrow> k \<in> set (st_pending_order s)" using ok by (simp add: queue_ok_def hhas_iff)
  then show "(st_pending_order (mark_service_dirty k now ts s) = (if k \<in> set (st_pending_order s) then st_pending_order s else st_pending_order s @ [k])
      \<and> st_resync_requested (mark_service_dirty k now ts s) = st_resync_requested s)
    \<or> (st_pending_order (mark_service_dirty k now ts s) = [] \<and> st_resync_requested (mark_service_dirty k now ts s) = Suc (st_resync_requested s))"
    by (auto simp: mark_service_dirty_def Let_def)
qed

section \<open>Taking keys\<close>

definition due :: "instant \<Rightarrow> (string, pending_key) hmap \<Rightarrow> string \<Rightarrow> bool" where
  "due now pending k \<longleftrightarrow> (case hget pending k of Some p \<Rightarrow> pk_not_before p \<le> now | None \<Rightarrow> False)"

lemma due_hdel: "k \<noteq> k' \<Longrightarrow> due now (hdel k pending) k' = due now pending k'"
  by (simp add: due_def delete_conv')

lemma take_loop_result:
  assumes "distinct order" and "length taken \<le> SERVICE_KEYS_PER_CYCLE"
    and "picks = take (SERVICE_KEYS_PER_CYCLE - length taken) (filter (due now pending) order)"
  shows "take_loop now order pending taken remaining =
     (taken @ map (\<lambda>k. \<lparr>dk_service_id = k, dk_attempts = pk_attempts (the (hget pending k))\<rparr>) picks,
      remaining @ filter (\<lambda>k. k \<notin> set picks) order, fold hdel picks pending)"
  using assms
proof (induction order arbitrary: pending taken remaining picks)
  case (Cons k order)
  let ?C = SERVICE_KEYS_PER_CYCLE
  show ?case
  proof (cases "length taken < ?C \<and> due now pending k")
    case True
    then obtain p where p: "hget pending k = Some p" "pk_not_before p \<le> now" by (auto simp: due_def split: option.splits)
    let ?t = "taken @ [\<lparr>dk_service_id = k, dk_attempts = pk_attempts p\<rparr>]"
    have other: "filter (due now (hdel k pending)) order = filter (due now pending) order"
      using Cons.prems(1) by (intro filter_cong refl due_hdel) auto
    let ?ps = "take (?C - length ?t) (filter (due now pending) order)"
    have "?C - length taken = Suc (?C - length ?t)" using True Suc_diff_Suc [of "length taken" ?C] by simp
    then have picks: "picks = k # ?ps" using Cons.prems(3) True by simp
    have attempts: "map (\<lambda>x. \<lparr>dk_service_id = x, dk_attempts = pk_attempts (the (hget (hdel k pending) x))\<rparr>) ?ps =
        map (\<lambda>x. \<lparr>dk_service_id = x, dk_attempts = pk_attempts (the (hget pending x))\<rparr>) ?ps"
      using Cons.prems(1) by (auto simp: delete_conv' dest: in_set_takeD)
    have notin: "k \<notin> set ?ps" "k \<notin> set order" using Cons.prems(1) by (auto dest: in_set_takeD)
    have step: "take_loop now (k # order) pending taken remaining = take_loop now order (hdel k pending) ?t remaining"
      using True p by (simp add: due_def)
    have "take_loop now order (hdel k pending) ?t remaining =
        (?t @ map (\<lambda>x. \<lparr>dk_service_id = x, dk_attempts = pk_attempts (the (hget (hdel k pending) x))\<rparr>) ?ps,
         remaining @ filter (\<lambda>x. x \<notin> set ?ps) order, fold hdel ?ps (hdel k pending))"
      using Cons.prems True by (intro Cons.IH) (auto simp: other)
    moreover have "filter (\<lambda>x. x \<notin> set ?ps) order = filter (\<lambda>x. x \<notin> set (k # ?ps)) order"
      using notin(2) by (intro filter_cong) auto
    ultimately show ?thesis unfolding step picks attempts using p by simp
  next
    case False
    then have "take_loop now (k # order) pending taken remaining = take_loop now order pending taken (remaining @ [k])"
      by (auto simp: due_def)
    moreover have picks: "picks = take (?C - length taken) (filter (due now pending) order)"
      using False Cons.prems(2,3) by auto
    moreover have "k \<notin> set picks" using picks Cons.prems(1) by (auto dest: in_set_takeD)
    ultimately show ?thesis using Cons.IH [OF _ Cons.prems(2) picks] Cons.prems(1) by simp
  qed
qed simp

lemma hkeys_fold_hdel: "set (hkeys (fold hdel ks m)) = set (hkeys m) - set ks"
proof (induction ks arbitrary: m)
  case (Cons k ks)
  show ?case using Cons [of "hdel k m"] hkeys_hdel [of k m] by auto
qed simp

lemma hmap_ok_fold_hdel: "hmap_ok m \<Longrightarrow> hmap_ok (fold hdel ks m)"
  by (rule hm.ok_removes)

lemma hget_fold_hdel: "hmap_ok m \<Longrightarrow> hget (fold hdel ks m) k = (if k \<in> set ks then None else hget m k)"
  using hm.lookup_removes [of m ks] by (simp add: restrict_map_def)

lemma length_fold_hdel: "length (fold hdel ks m) \<le> length m"
proof (induction ks arbitrary: m)
  case (Cons k ks)
  have "length (hdel k m) \<le> length m" by (simp add: AList.delete_eq)
  then show ?case using Cons [of "hdel k m"] le_trans by fastforce
qed simp

text \<open>What a call takes: the first due keys in order, at most the limit.\<close>

definition picked :: "instant \<Rightarrow> shared_state \<Rightarrow> string list" where
  "picked now s = (if st_resync_completed s = 0 then []
     else take SERVICE_KEYS_PER_CYCLE (filter (due now (st_pending_set s)) (st_pending_order s)))"

lemma take_due_keys_result:
  assumes "queue_ok s"
  shows "take_due_keys now s =
     (map (\<lambda>k. \<lparr>dk_service_id = k, dk_attempts = pk_attempts (the (hget (st_pending_set s) k))\<rparr>) (picked now s),
      s\<lparr>st_pending_order := filter (\<lambda>k. k \<notin> set (picked now s)) (st_pending_order s),
        st_pending_set := fold hdel (picked now s) (st_pending_set s)\<rparr>)"
proof (cases "st_resync_completed s = 0 \<or> st_pending_order s = []")
  case True
  then show ?thesis by (auto simp: take_due_keys_def picked_def)
next
  case False
  have "distinct (st_pending_order s)" using assms by (simp add: queue_ok_def)
  from take_loop_result [OF this, of "[]" "picked now s" now "st_pending_set s" "[]"] False
  show ?thesis by (simp add: take_due_keys_def picked_def)
qed

lemma queue_ok_take: "queue_ok s \<Longrightarrow> queue_ok (snd (take_due_keys now s))"
  using hkeys_fold_hdel [of "picked now s" "st_pending_set s"] length_fold_hdel [of "picked now s" "st_pending_set s"]
  by (auto simp: take_due_keys_result queue_ok_def hmap_ok_fold_hdel)

section \<open>Properties\<close>

text \<open>
  Taking keys serves the queue in order: the keys taken are the first due ones, at most 32, each
  once, with the failures they had; exactly they leave the queue, the others keep their order, and
  before the first resync nothing is taken.
\<close>

theorem take_due_keys_fifo:
  assumes "queue_ok s" and "take_due_keys now s = (taken, s')"
  shows "map dk_service_id taken = (if st_resync_completed s = 0 then []
      else take SERVICE_KEYS_PER_CYCLE (filter (due now (st_pending_set s)) (st_pending_order s)))
    \<and> length taken \<le> SERVICE_KEYS_PER_CYCLE \<and> distinct (map dk_service_id taken)
    \<and> st_pending_order s' = filter (\<lambda>k. k \<notin> dk_service_id ` set taken) (st_pending_order s)
    \<and> (\<forall>k. hget (st_pending_set s') k = (if k \<in> dk_service_id ` set taken then None else hget (st_pending_set s) k))
    \<and> queue_ok s'"
proof -
  have d: "distinct (st_pending_order s)" and h: "hmap_ok (st_pending_set s)" using assms(1) by (simp_all add: queue_ok_def)
  have t: "map dk_service_id taken = picked now s"
    and s': "s' = s\<lparr>st_pending_order := filter (\<lambda>k. k \<notin> set (picked now s)) (st_pending_order s),
        st_pending_set := fold hdel (picked now s) (st_pending_set s)\<rparr>"
    using assms(2) unfolding take_due_keys_result [OF assms(1)] by (auto simp: comp_def)
  have img: "dk_service_id ` set taken = set (picked now s)" using t by (metis set_map)
  have "distinct (picked now s)" "length (picked now s) \<le> SERVICE_KEYS_PER_CYCLE" using d by (simp_all add: picked_def)
  moreover have "length taken = length (picked now s)" using t by (metis length_map)
  moreover have "queue_ok s'" using queue_ok_take [OF assms(1), of now] assms(2) by simp
  ultimately show ?thesis
    unfolding img t using s' by (simp add: hget_fold_hdel [OF h] picked_def)
qed

definition example_queue :: shared_state where
  "example_queue = mark_service_dirty ''b'' 5 0 (mark_service_dirty ''a'' 9 0 (mark_service_dirty ''c'' 1 0
     ((state_new 4096 0)\<lparr>st_resync_completed := 1\<rparr>)))"

theorem take_due_keys_fifo_witness:
  "map dk_service_id (fst (take_due_keys 6 example_queue)) = [''c'', ''b''] \<and> st_pending_order (snd (take_due_keys 6 example_queue)) = [''a'']"
proof -
  have "queue_ok ((state_new 4096 0)\<lparr>st_resync_completed := 1\<rparr>)" by (simp add: queue_ok_def state_new_def)
  then have ok: "queue_ok example_queue" unfolding example_queue_def by (intro queue_ok_mark)
  have r: "fst (take_due_keys 6 example_queue) = [\<lparr>dk_service_id = ''c'', dk_attempts = 0\<rparr>, \<lparr>dk_service_id = ''b'', dk_attempts = 0\<rparr>]"
    and o: "st_pending_order example_queue = [''c'', ''a'', ''b'']" by code_simp+
  obtain taken s' where t: "take_due_keys 6 example_queue = (taken, s')" by (cases "take_due_keys 6 example_queue")
  have taken: "taken = [\<lparr>dk_service_id = ''c'', dk_attempts = 0\<rparr>, \<lparr>dk_service_id = ''b'', dk_attempts = 0\<rparr>]" using r t by simp
  have "st_pending_order s' = filter (\<lambda>k. k \<notin> dk_service_id ` set taken) (st_pending_order example_queue)"
    using take_due_keys_fifo [OF ok t] by blast
  then show ?thesis unfolding t o taken by simp
qed

text \<open>
  C34: no service event is lost: after any series of events, every service they named is queued, or
  a resync was requested since. Without a spill the queue keeps its order and grows at the end, and
  it never exceeds its cap.
\<close>

theorem events_not_lost:
  assumes "queue_ok s"
  shows "let s' = fold (\<lambda>k. mark_service_dirty k now ts) ks s in
    queue_ok s' \<and> length (st_pending_set s') \<le> st_pending_cap s'
    \<and> (\<forall>k \<in> set ks. k \<in> set (st_pending_order s') \<or> st_resync_requested s < st_resync_requested s')
    \<and> (st_resync_requested s' = st_resync_requested s \<longrightarrow> (\<exists>new. st_pending_order s' = st_pending_order s @ new))"
  using dq.ok_marks [OF assms, of now ts ks] dq.marks_not_lost [OF assms, of _ ks now ts] dq.marks_queue [OF assms, of now ts ks]
  by (auto simp: Let_def queue_ok_def)

theorem events_not_lost_witness:
  "let s' = fold (\<lambda>k. mark_service_dirty k 0 0) [''a'', ''b'', ''a''] (state_new 1 0) in
   ''a'' \<in> set (st_pending_order s') \<or> st_resync_requested (state_new 1 0) < st_resync_requested s'"
  using events_not_lost [where ks = "[''a'', ''b'', ''a'']" and now = 0 and ts = 0, OF queue_ok_new [of 1 0]] by (auto simp: Let_def)



end
