(* ===== verification/Exporter_Metrics.thy ===== *)
theory Exporter_Metrics
  imports Swarm_Prelude
begin

text \<open>
  The exporter's own counters (\<^verbatim>\<open>src/src/collector/exporter_metrics.rs\<close>) and the success times the health
  check reads (\<^verbatim>\<open>Timestamps\<close> of \<^verbatim>\<open>src/src/collector/health.rs\<close>). The poll duration histogram is
  the list of the durations it observed; sorting them into buckets is the client library's.
\<close>

text \<open>Unix nanoseconds in an \<^verbatim>\<open>i64\<close>, saturating outside its range; 0 means never.\<close>

definition I64_MIN :: int where "I64_MIN = - (2 ^ 63)"
definition I64_MAX :: int where "I64_MAX = 2 ^ 63 - 1"

definition unix_nanos :: "timestamp \<Rightarrow> int" where
  "unix_nanos t = (if t < I64_MIN then I64_MIN else if t > I64_MAX then I64_MAX else t)"

record timestamps =
  ts_poll_success :: int
  ts_resync_success :: int
  ts_events_connect :: int

definition timestamps_new :: timestamps where
  "timestamps_new = \<lparr>ts_poll_success = 0, ts_resync_success = 0, ts_events_connect = 0\<rparr>"

definition mark_poll_ok :: "timestamp \<Rightarrow> timestamps \<Rightarrow> timestamps" where
  "mark_poll_ok now ts = ts\<lparr>ts_poll_success := unix_nanos now\<rparr>"

definition mark_resync_ok :: "timestamp \<Rightarrow> timestamps \<Rightarrow> timestamps" where
  "mark_resync_ok now ts = ts\<lparr>ts_resync_success := unix_nanos now\<rparr>"

definition mark_events_connected :: "timestamp \<Rightarrow> timestamps \<Rightarrow> timestamps" where
  "mark_events_connected now ts = ts\<lparr>ts_events_connect := unix_nanos now\<rparr>"

datatype resync_result = Success | Failure

primrec resync_result_str :: "resync_result \<Rightarrow> string" where
  "resync_result_str Success = ''success''"
| "resync_result_str Failure = ''failure''"

record exporter_metrics =
  em_poll_durations :: "nanos list"
  em_polls :: nat
  em_poll_errors :: nat
  em_events_reconnects :: nat
  em_events_dropped :: nat
  em_poll_rejections :: nat
  em_resyncs :: "(string, nat) hmap"
  em_timestamps :: timestamps

text \<open>Both \<^verbatim>\<open>resyncs_total\<close> series exist at 0 from the start.\<close>

definition exporter_metrics_new :: "timestamps \<Rightarrow> exporter_metrics" where
  "exporter_metrics_new ts =
     \<lparr>em_poll_durations = [], em_polls = 0, em_poll_errors = 0, em_events_reconnects = 0, em_events_dropped = 0, em_poll_rejections = 0,
      em_resyncs = fold (\<lambda>r m. if hhas m (resync_result_str r) then m else hput (resync_result_str r) 0 m) [Success, Failure] [],
      em_timestamps = ts\<rparr>"

definition observe_poll_duration :: "nanos \<Rightarrow> exporter_metrics \<Rightarrow> exporter_metrics" where
  "observe_poll_duration duration m = m\<lparr>em_poll_durations := em_poll_durations m @ [duration]\<rparr>"

definition inc_polls :: "exporter_metrics \<Rightarrow> exporter_metrics" where
  "inc_polls m = m\<lparr>em_polls := Suc (em_polls m)\<rparr>"

definition inc_poll_errors :: "exporter_metrics \<Rightarrow> exporter_metrics" where
  "inc_poll_errors m = m\<lparr>em_poll_errors := Suc (em_poll_errors m)\<rparr>"

definition inc_event_reconnect :: "exporter_metrics \<Rightarrow> exporter_metrics" where
  "inc_event_reconnect m = m\<lparr>em_events_reconnects := Suc (em_events_reconnects m)\<rparr>"

definition inc_events_dropped :: "exporter_metrics \<Rightarrow> exporter_metrics" where
  "inc_events_dropped m = m\<lparr>em_events_dropped := Suc (em_events_dropped m)\<rparr>"

definition inc_poll_rejections :: "exporter_metrics \<Rightarrow> exporter_metrics" where
  "inc_poll_rejections m = m\<lparr>em_poll_rejections := Suc (em_poll_rejections m)\<rparr>"

definition resyncs :: "resync_result \<Rightarrow> exporter_metrics \<Rightarrow> nat" where
  "resyncs r m = (case hget (em_resyncs m) (resync_result_str r) of Some n \<Rightarrow> n | None \<Rightarrow> 0)"

definition inc_resync :: "resync_result \<Rightarrow> exporter_metrics \<Rightarrow> exporter_metrics" where
  "inc_resync r m = m\<lparr>em_resyncs := hput (resync_result_str r) (Suc (resyncs r m)) (em_resyncs m)\<rparr>"

lemma resyncs_inc: "resyncs r (inc_resync r' m) = (if r = r' then Suc (resyncs r m) else resyncs r m)"
  by (cases r; cases r') (simp_all add: resyncs_def inc_resync_def update_conv')

lemma resyncs_new: "resyncs r (exporter_metrics_new ts) = 0 \<and> hhas (em_resyncs (exporter_metrics_new ts)) (resync_result_str r)"
  by (cases r) (simp_all add: resyncs_def exporter_metrics_new_def hhas_def)

lemma unix_nanos_bounds: "I64_MIN \<le> unix_nanos t \<and> unix_nanos t \<le> I64_MAX"
  by (simp add: unix_nanos_def I64_MIN_def I64_MAX_def)

end
