(* ===== verification/Net_Addr.thy ===== *)
theory Net_Addr
  imports Rust_Text
begin

text \<open>
  The standard library's parser of IP addresses, \<^verbatim>\<open>str::parse::<IpAddr>()\<close>, which the \<^verbatim>\<open>node.ip\<close>
  constraint uses: decimal octets without leading zeros, groups of hexadecimal digits, one \<^verbatim>\<open>::\<close>, and
  an IPv4 address in the last two groups. A reader returns the value and the bytes left, or nothing
  and then consumes nothing. \<open>to_canonical\<close> reads an IPv4-mapped IPv6 address as IPv4.
\<close>

definition to_digit :: "nat \<Rightarrow> char \<Rightarrow> nat option" where
  "to_digit radix c =
     (let d = (if is_ascii_digit c then Some (byte c - 48)
               else if 97 \<le> byte c \<and> byte c \<le> 102 then Some (byte c - 87)
               else if 65 \<le> byte c \<and> byte c \<le> 70 then Some (byte c - 55)
               else None)
      in case d of Some v \<Rightarrow> if v < radix then Some v else None | None \<Rightarrow> None)"

text \<open>The digit loop: \<open>bound\<close> is the size of the integer type, past which \<^verbatim>\<open>checked_mul\<close> and \<^verbatim>\<open>checked_add\<close> fail.\<close>

fun read_digits :: "nat \<Rightarrow> nat \<Rightarrow> nat \<Rightarrow> nat \<Rightarrow> nat \<Rightarrow> string \<Rightarrow> (nat \<times> nat \<times> string) option" where
  "read_digits radix bound max_digits result count [] = Some (result, count, [])"
| "read_digits radix bound max_digits result count (c # cs) =
     (case to_digit radix c of
        None \<Rightarrow> Some (result, count, c # cs)
      | Some d \<Rightarrow>
          if bound \<le> result * radix + d \<or> max_digits < Suc count then None
          else read_digits radix bound max_digits (result * radix + d) (Suc count) cs)"

definition read_number :: "nat \<Rightarrow> nat \<Rightarrow> nat \<Rightarrow> bool \<Rightarrow> string \<Rightarrow> (nat \<times> string) option" where
  "read_number radix bound max_digits allow_zero_prefix s =
     (case read_digits radix bound max_digits 0 0 s of
        None \<Rightarrow> None
      | Some (result, count, rest) \<Rightarrow>
          if count = 0 then None
          else if \<not> allow_zero_prefix \<and> starts_with ''0'' s \<and> 1 < count then None
          else Some (result, rest))"

definition read_given_char :: "char \<Rightarrow> string \<Rightarrow> string option" where
  "read_given_char c s = (case s of x # xs \<Rightarrow> if x = c then Some xs else None | [] \<Rightarrow> None)"

definition read_separator :: "char \<Rightarrow> nat \<Rightarrow> (string \<Rightarrow> ('a \<times> string) option) \<Rightarrow> string \<Rightarrow> ('a \<times> string) option" where
  "read_separator sep index inner s =
     (if index > 0 then Option.bind (read_given_char sep s) inner else inner s)"

definition read_octet :: "nat \<Rightarrow> string \<Rightarrow> (nat \<times> string) option" where
  "read_octet i s = read_separator (CHR ''.'') i (read_number 10 256 3 False) s"

definition read_ipv4_addr :: "string \<Rightarrow> (nat \<times> string) option" where
  "read_ipv4_addr s =
     Option.bind (read_octet 0 s) (\<lambda>(a, s).
     Option.bind (read_octet 1 s) (\<lambda>(b, s).
     Option.bind (read_octet 2 s) (\<lambda>(c, s).
     Option.bind (read_octet 3 s) (\<lambda>(d, s).
       Some (((a * 256 + b) * 256 + c) * 256 + d, s)))))"

text \<open>
  \<^verbatim>\<open>read_groups\<close>: from index \<open>i\<close>, with \<open>left\<close> groups of the limit to go. The result is the groups
  read, whether the last two are an embedded IPv4 address, and the rest.
\<close>

fun read_groups :: "nat \<Rightarrow> nat \<Rightarrow> string \<Rightarrow> nat list \<times> bool \<times> string" where
  "read_groups i 0 s = ([], False, s)"
| "read_groups i (Suc left) s =
     (case (if left > 0 then read_separator (CHR '':'') i read_ipv4_addr s else None) of
        Some (v4, rest) \<Rightarrow> ([v4 div 65536, v4 mod 65536], True, rest)
      | None \<Rightarrow>
          (case read_separator (CHR '':'') i (read_number 16 65536 4 True) s of
             Some (g, rest) \<Rightarrow>
               (let (gs, v4, rest') = read_groups (Suc i) left rest in (g # gs, v4, rest'))
           | None \<Rightarrow> ([], False, s)))"

definition groups_bits :: "nat list \<Rightarrow> nat" where
  "groups_bits gs = foldl (\<lambda>acc g. acc * 65536 + g) 0 gs"

definition read_ipv6_addr :: "string \<Rightarrow> (nat \<times> string) option" where
  "read_ipv6_addr s =
     (let (head, head_ipv4, rest) = read_groups 0 8 s in
      if length head = 8 then Some (groups_bits head, rest)
      else if head_ipv4 then None
      else Option.bind (read_given_char (CHR '':'') rest) (\<lambda>rest.
           Option.bind (read_given_char (CHR '':'') rest) (\<lambda>rest.
             let (tail, _, rest) = read_groups 0 (8 - (length head + 1)) rest in
             Some (groups_bits (head @ replicate (8 - length head - length tail) 0 @ tail), rest))))"

definition parse_ip_addr :: "string \<Rightarrow> ip_addr option" where
  "parse_ip_addr s =
     (case (case read_ipv4_addr s of
              Some (v, rest) \<Rightarrow> Some (V4 v, rest)
            | None \<Rightarrow> map_option (\<lambda>(v, rest). (V6 v, rest)) (read_ipv6_addr s)) of
        Some (ip, []) \<Rightarrow> Some ip
      | _ \<Rightarrow> None)"

fun to_canonical :: "ip_addr \<Rightarrow> ip_addr" where
  "to_canonical (V4 v) = V4 v"
| "to_canonical (V6 v) = (if v div 2 ^ 32 = 0xFFFF then V4 (v mod 2 ^ 32) else V6 v)"

section \<open>Facts\<close>

definition ip_ok :: "ip_addr \<Rightarrow> bool" where
  "ip_ok ip = (case ip of V4 v \<Rightarrow> v < 2 ^ 32 | V6 v \<Rightarrow> v < 2 ^ 128)"

lemma to_canonical_idem [simp]: "to_canonical (to_canonical ip) = to_canonical ip"
  by (cases ip) simp_all

lemma read_digits_bound:
  "read_digits radix bound m r n s = Some (v, k, rest) \<Longrightarrow> r < bound \<Longrightarrow> v < bound"
  by (induction radix bound m r n s rule: read_digits.induct) (auto split: option.splits if_splits)

lemma read_number_bound: "read_number radix bound m z s = Some (v, rest) \<Longrightarrow> 0 < bound \<Longrightarrow> v < bound"
  by (auto simp: read_number_def split: option.splits if_splits dest: read_digits_bound)

lemma read_octet_bound: "read_octet i s = Some (v, rest) \<Longrightarrow> v < 256"
  by (auto simp: read_octet_def read_separator_def bind_eq_Some_conv split: if_splits dest: read_number_bound)

lemma read_ipv4_bound: "read_ipv4_addr s = Some (v, rest) \<Longrightarrow> v < 2 ^ 32"
proof -
  assume "read_ipv4_addr s = Some (v, rest)"
  then obtain a b c d where "v = ((a * 256 + b) * 256 + c) * 256 + d" "a < 256" "b < 256" "c < 256" "d < 256"
    by (auto simp: read_ipv4_addr_def bind_eq_Some_conv dest!: read_octet_bound)
  then show ?thesis by simp
qed

lemma read_groups_bound: "g \<in> set (fst (read_groups i n s)) \<Longrightarrow> g < 65536"
proof (induction i n s rule: read_groups.induct)
  case (2 i left s)
  have v4: "v div 65536 < 65536" if "read_separator (CHR '':'') i read_ipv4_addr s = Some (v, r)" for v r
    using that read_ipv4_bound by (force simp: read_separator_def bind_eq_Some_conv less_mult_imp_div_less split: if_splits)
  have num: "h < 65536" if "read_separator (CHR '':'') i (read_number 16 65536 4 True) s = Some (h, r)" for h r
    using that read_number_bound by (force simp: read_separator_def bind_eq_Some_conv split: if_splits)
  show ?case
    using 2 v4 num by (auto simp: split_def Let_def split: option.splits if_splits)
qed simp

lemma read_groups_length: "length (fst (read_groups i n s)) \<le> n"
  by (induction i n s rule: read_groups.induct) (auto simp: split_def Let_def less_Suc_eq_le Suc_le_eq split: option.splits if_splits)

lemma groups_bits_bound: "\<forall>g \<in> set gs. g < 65536 \<Longrightarrow> groups_bits gs < 65536 ^ length gs"
proof (induction gs rule: rev_induct)
  case (snoc g gs)
  then have "groups_bits gs < 65536 ^ length gs" "g < 65536" by simp_all
  then have "groups_bits gs * 65536 + g < 65536 ^ length gs * 65536" by linarith
  then show ?case by (simp add: groups_bits_def)
qed (simp add: groups_bits_def)

lemma read_ipv6_bound: "read_ipv6_addr s = Some (v, rest) \<Longrightarrow> v < 2 ^ 128"
proof -
  assume r: "read_ipv6_addr s = Some (v, rest)"
  obtain head h4 rest1 where h: "read_groups 0 8 s = (head, h4, rest1)" by (metis prod_cases3)
  have head: "length head \<le> 8" "\<forall>g \<in> set head. g < 65536"
    using read_groups_length [of 0 8 s] read_groups_bound [of _ 0 8 s] h by auto
  have "\<exists>gs. v = groups_bits gs \<and> length gs = 8 \<and> (\<forall>g \<in> set gs. g < 65536)"
  proof (cases "length head = 8")
    case True
    then show ?thesis using r h head by (auto simp: read_ipv6_addr_def)
  next
    case False
    with r h obtain rest2 where v: "v = groups_bits (head
        @ replicate (8 - length head - length (fst (read_groups 0 (8 - (length head + 1)) rest2))) 0
        @ fst (read_groups 0 (8 - (length head + 1)) rest2))"
      by (auto simp: read_ipv6_addr_def bind_eq_Some_conv split_def Let_def split: if_splits)
    let ?tail = "fst (read_groups 0 (8 - (length head + 1)) rest2)"
    have tail: "length ?tail \<le> 8 - (length head + 1)" "\<forall>g \<in> set ?tail. g < 65536"
      using read_groups_length [of 0 "8 - (length head + 1)" rest2] read_groups_bound [of _ 0 "8 - (length head + 1)" rest2]
      by auto
    have "length (head @ replicate (8 - length head - length ?tail) 0 @ ?tail) = 8"
      using tail(1) head(1) False by simp
    moreover have "\<forall>g \<in> set (head @ replicate (8 - length head - length ?tail) 0 @ ?tail). g < 65536"
      using tail(2) head(2) by auto
    ultimately show ?thesis using v by blast
  qed
  then obtain gs where "v = groups_bits gs" "length gs = 8" "\<forall>g \<in> set gs. g < 65536" by blast
  then show ?thesis using groups_bits_bound [of gs] by simp
qed

text \<open>A parsed address is within its width.\<close>

lemma parse_ip_addr_ok: "parse_ip_addr s = Some ip \<Longrightarrow> ip_ok ip"
  by (auto simp: parse_ip_addr_def ip_ok_def read_ipv4_bound [simplified] read_ipv6_bound [simplified]
      split: option.splits list.splits)

lemma to_canonical_ok: "ip_ok ip \<Longrightarrow> ip_ok (to_canonical ip)"
  by (cases ip) (simp_all add: ip_ok_def)

section \<open>Dotted quads\<close>

text \<open>Decimal printing of an octet, as \<^verbatim>\<open>Display\<close> writes it, and the round trip through the parser.\<close>

definition digit_char :: "nat \<Rightarrow> char" where
  "digit_char d = char_of (48 + d)"

definition show_octet :: "nat \<Rightarrow> string" where
  "show_octet n =
     (if n < 10 then [digit_char n]
      else if n < 100 then [digit_char (n div 10), digit_char (n mod 10)]
      else [digit_char (n div 100), digit_char (n div 10 mod 10), digit_char (n mod 10)])"

definition show_ipv4 :: "nat \<Rightarrow> nat \<Rightarrow> nat \<Rightarrow> nat \<Rightarrow> string" where
  "show_ipv4 a b c d =
     show_octet a @ ''.'' @ show_octet b @ ''.'' @ show_octet c @ ''.'' @ show_octet d"

lemma to_digit_digit_char: "d < 10 \<Longrightarrow> to_digit 10 (digit_char d) = Some d"
  by (simp add: to_digit_def digit_char_def is_ascii_digit_def)

lemma digit_char_eq: "d < 10 \<Longrightarrow> digit_char d = CHR ''0'' \<longleftrightarrow> d = 0"
proof
  assume "d < 10" and "digit_char d = CHR ''0''"
  then have "byte (digit_char d) = byte (CHR ''0'')" by simp
  then show "d = 0" using \<open>d < 10\<close> by (simp add: digit_char_def)
next
  have "digit_char 0 = CHR ''0''" by code_simp
  then show "d = 0 \<Longrightarrow> digit_char d = CHR ''0''" by simp
qed

definition stops :: "string \<Rightarrow> bool" where
  "stops s \<longleftrightarrow> (case s of [] \<Rightarrow> True | c # _ \<Rightarrow> to_digit 10 c = None)"

lemma read_digits_stops: "stops s \<Longrightarrow> read_digits 10 b m r n s = Some (r, n, s)"
  by (cases s) (simp_all add: stops_def)

lemma read_number_octet:
  assumes "n < 256" and "stops s"
  shows "read_number 10 256 3 False (show_octet n @ s) = Some (n, s)"
proof -
  consider "n < 10" | "10 \<le> n" "n < 100" | "100 \<le> n" by linarith
  then show ?thesis
  proof cases
    case 1
    then show ?thesis using assms(2)
      by (simp add: show_octet_def read_number_def to_digit_digit_char read_digits_stops)
  next
    case 2
    then have "n div 10 < 10" "n div 10 \<noteq> 0" "n div 10 * 10 + n mod 10 = n" by auto
    then show ?thesis using 2 assms(2)
      by (simp add: show_octet_def read_number_def to_digit_digit_char read_digits_stops starts_with_def digit_char_eq)
  next
    case 3
    have d: "n div 100 < 10" "n div 100 \<noteq> 0" using assms(1) 3 by auto
    have "n div 100 * 10 + n div 10 mod 10 = n div 10"
      using mult_div_mod_eq [of 10 "n div 10"] div_mult2_eq [of n 10 10] by simp
    moreover have "n div 10 * 10 + n mod 10 = n" by simp
    moreover have "n div 10 < 256" "n div 100 < 256" using assms(1) by auto
    ultimately show ?thesis using 3 d assms
      by (simp add: show_octet_def read_number_def to_digit_digit_char read_digits_stops starts_with_def digit_char_eq)
  qed
qed

lemma parse_show_ipv4:
  assumes "a < 256" "b < 256" "c < 256" "d < 256"
  shows "parse_ip_addr (show_ipv4 a b c d) = Some (V4 (((a * 256 + b) * 256 + c) * 256 + d))"
proof -
  have dot: "stops (CHR ''.'' # s)" for s by (simp add: stops_def to_digit_def is_ascii_digit_def)
  have "read_ipv4_addr (show_ipv4 a b c d) = Some (((a * 256 + b) * 256 + c) * 256 + d, [])"
    using assms read_number_octet [of d "[]"]
    by (simp add: read_ipv4_addr_def read_octet_def read_separator_def read_given_char_def show_ipv4_def
        read_number_octet dot stops_def [of "[]"])
  then show ?thesis by (simp add: parse_ip_addr_def)
qed

end
