(* ===== verification/Desired.thy ===== *)
theory Desired
  imports Service_Metadata Net_Addr
begin

text \<open>
  \<^verbatim>\<open>src/src/collector/desired.rs\<close>: the desired and schedulable replicas of a service and Swarm's
  placement rules. First the operations in the order of the source, then the label set of a service
  (why a set never panics), the constraint semantics and the bounds of the counts.
\<close>

section \<open>The replica gauges\<close>

record replica_gauges =
  rg_desired :: gauge_vec
  rg_schedulable :: gauge_vec

definition base_label_names :: "custom_label list \<Rightarrow> string list" where
  "base_label_names cls =
     [LABEL_STACK, LABEL_SERVICE, LABEL_SERVICE_MODE, LABEL_DISPLAY_NAME] @ sanitized_names cls"

definition DESIRED_REPLICAS_HELP :: string where
  "DESIRED_REPLICAS_HELP = ''Number of desired replicas for a Swarm service (replicated: configured replicas; replicated-job: total completions; global and global-job: eligible nodes).''"

definition SCHEDULABLE_REPLICAS_HELP :: string where
  "SCHEDULABLE_REPLICAS_HELP = ''Number of replicas that can currently be scheduled given node availability and placement constraints (replicated: min(configured, eligible_nodes); global: eligible nodes; jobs and restart-condition none services: 0).''"

definition replica_gauges_new :: "custom_label list \<Rightarrow> replica_gauges" where
  "replica_gauges_new cls =
     (let names = sanitize_label_names (base_label_names cls);
          family = (\<lambda>name help. gv_new \<lparr>desc_name = ''swarm_service_'' @ name, desc_help = help, desc_label_names = names\<rparr>)
      in \<lparr>rg_desired = family ''desired_replicas'' DESIRED_REPLICAS_HELP,
          rg_schedulable = family ''schedulable_replicas'' SCHEDULABLE_REPLICAS_HELP\<rparr>)"

text \<open>The label set, and apart from it the warnings its loop may log.\<close>

definition labels_for_metadata :: "service_metadata \<Rightarrow> (string, string) btree" where
  "labels_for_metadata md =
     (let labels = bt_collect
            [(LABEL_STACK, sm_stack md), (LABEL_SERVICE, sm_service md),
             (LABEL_SERVICE_MODE, sm_service_mode md),
             (LABEL_DISPLAY_NAME, display_name (sm_stack md) (sm_service md))]
      in sanitize_metric_labels (fold (\<lambda>(key, value). bt_insert key value) (sm_custom_labels md) labels))"

definition warnings_for_metadata :: "service_metadata \<Rightarrow> warn_state \<Rightarrow> warn_state" where
  "warnings_for_metadata md w =
     fold (\<lambda>(key, value). maybe_warn_high_cardinality key value) (sm_custom_labels md) w"

definition set_desired :: "service_metadata \<Rightarrow> int \<Rightarrow> replica_gauges \<Rightarrow> labels_mismatch + replica_gauges" where
  "set_desired md value g =
     map_sum id (\<lambda>v. g\<lparr>rg_desired := v\<rparr>) (gv_set_with (rg_desired g) (labels_for_metadata md) value)"

definition set_schedulable :: "service_metadata \<Rightarrow> int \<Rightarrow> replica_gauges \<Rightarrow> labels_mismatch + replica_gauges" where
  "set_schedulable md value g =
     (let value = (if sm_restart_condition_none md \<or> is_job_mode (sm_service_mode md) then 0 else value)
      in map_sum id (\<lambda>v. g\<lparr>rg_schedulable := v\<rparr>) (gv_set_with (rg_schedulable g) (labels_for_metadata md) value))"

section \<open>Placement\<close>

definition is_node_schedulable :: "node option \<Rightarrow> bool" where
  "is_node_schedulable node \<longleftrightarrow>
     (case node of
        None \<Rightarrow> False
      | Some n \<Rightarrow> nst_state (node_status_of n) = ''ready'' \<and> ns_availability (node_spec_of n) = ''active'')"

definition normalize_arch :: "extern \<Rightarrow> string \<Rightarrow> string" where
  "normalize_arch E arch =
     (let lower = to_lower E arch in
      if lower \<in> set [''x86_64'', ''x86-64'', ''amd64''] then ''amd64''
      else if lower \<in> set [''aarch64'', ''arm64''] then ''arm64''
      else if lower \<in> set [''i386'', ''i686'', ''386''] then ''386''
      else if lower \<in> set [''armv7l'', ''armv7'', ''armhf'', ''arm''] then ''arm''
      else lower)"

definition platform_matches :: "extern \<Rightarrow> node \<Rightarrow> platform list \<Rightarrow> bool" where
  "platform_matches E n required =
     (let node_os = to_lower E (os (nd_platform (node_description_of n)));
          node_arch = normalize_arch E (architecture (nd_platform (node_description_of n)))
      in list_ex (\<lambda>p. let os' = to_lower E (os p); arch = normalize_arch E (architecture p) in
           (os' = [] \<or> os' = node_os) \<and> (arch = [] \<or> arch = node_arch)) required)"

fun split_once :: "string \<Rightarrow> string \<Rightarrow> (string \<times> string) option" where
  "split_once pat s =
     (if starts_with pat s then Some ([], drop (length pat) s)
      else case s of
             [] \<Rightarrow> None
           | c # cs \<Rightarrow> map_option (\<lambda>(a, b). (c # a, b)) (split_once pat cs))"

declare split_once.simps [simp del]

definition contains :: "string \<Rightarrow> string \<Rightarrow> bool" where
  "contains pat s \<longleftrightarrow> split_once pat s \<noteq> None"

text \<open>The operators \<^verbatim>\<open>==\<close> and \<^verbatim>\<open>!=\<close>, in the order they are tried.\<close>

datatype constraint_op = OpEqual | OpNotEqual

primrec op_text :: "constraint_op \<Rightarrow> string" where
  "op_text OpEqual = ''==''"
| "op_text OpNotEqual = ''!=''"

definition parse_constraint :: "string \<Rightarrow> (string \<times> constraint_op \<times> string) option" where
  "parse_constraint constraint =
     (case List.find (\<lambda>operator. contains (op_text operator) constraint) [OpEqual, OpNotEqual] of
        None \<Rightarrow> None
      | Some operator \<Rightarrow>
          (case split_once (op_text operator) constraint of
             None \<Rightarrow> None
           | Some (key, expected) \<Rightarrow>
               (let key = trim_space key; expected = trim_space expected in
                if key \<noteq> [] \<and> expected \<noteq> [] then Some (key, operator, expected) else None)))"

definition match_constraint_value :: "extern \<Rightarrow> constraint_op \<Rightarrow> string \<Rightarrow> string \<Rightarrow> bool" where
  "match_constraint_value E operator expected candidate =
     (let matched = equal_fold E expected candidate in
      if operator = OpNotEqual then \<not> matched else matched)"

fun canonical_subnet :: "extern \<Rightarrow> ip_net \<Rightarrow> ip_net" where
  "canonical_subnet E (NetV4 a len) = NetV4 a len"
| "canonical_subnet E (NetV6 a len) =
     (case to_canonical (V6 (ipv6net_network E a len)) of
        V4 network \<Rightarrow>
          (case ipv4net_new E network (len - 96) of
             Some mapped \<Rightarrow> mapped
           | None \<Rightarrow> NetV6 a len)
      | V6 _ \<Rightarrow> NetV6 a len)"

definition match_node_ip_constraint :: "extern \<Rightarrow> constraint_op \<Rightarrow> string \<Rightarrow> string \<Rightarrow> bool" where
  "match_node_ip_constraint E operator expected node_addr =
     (let node_ip = map_option to_canonical (parse_ip_addr node_addr);
          matched = (case parse_ip_addr expected of
              Some expected_ip \<Rightarrow> Some (node_ip = Some (to_canonical expected_ip))
            | None \<Rightarrow>
                (case ipnet_parse E expected of
                   Some subnet \<Rightarrow> Some (case node_ip of
                       Some ip \<Rightarrow> ipnet_contains E (canonical_subnet E subnet) ip
                     | None \<Rightarrow> False)
                 | None \<Rightarrow> None))
      in case matched of
           None \<Rightarrow> False
         | Some m \<Rightarrow> if operator = OpNotEqual then \<not> m else m)"

definition label_key :: "extern \<Rightarrow> string \<Rightarrow> string \<Rightarrow> string option" where
  "label_key E key prefix =
     (if length key \<le> length prefix \<or> \<not> is_char_boundary key (length prefix) then None
      else if equal_fold E (take (length prefix) key) prefix then Some (drop (length prefix) key)
      else None)"

definition node_matches_constraint :: "extern \<Rightarrow> node \<Rightarrow> string \<Rightarrow> constraint_op \<Rightarrow> string \<Rightarrow> bool" where
  "node_matches_constraint E n key operator expected =
     (let description = node_description_of n in
      if equal_fold E key ''node.id'' then match_constraint_value E operator expected (node_id n)
      else if equal_fold E key ''node.hostname'' then match_constraint_value E operator expected (nd_hostname description)
      else if equal_fold E key ''node.ip'' then match_node_ip_constraint E operator expected (nst_addr (node_status_of n))
      else if equal_fold E key ''node.role'' then match_constraint_value E operator expected (ns_role (node_spec_of n))
      else if equal_fold E key ''node.platform.os'' then match_constraint_value E operator expected (os (nd_platform description))
      else if equal_fold E key ''node.platform.arch'' then match_constraint_value E operator expected (architecture (nd_platform description))
      else case label_key E key ''node.labels.'' of
             Some label \<Rightarrow> match_constraint_value E operator expected (unwrap_or (map_of (ns_labels (node_spec_of n)) label) [])
           | None \<Rightarrow>
               (case label_key E key ''engine.labels.'' of
                  Some label \<Rightarrow> match_constraint_value E operator expected (unwrap_or (map_of (nd_engine_labels description) label) [])
                | None \<Rightarrow> False))"

definition constraints_match :: "extern \<Rightarrow> node \<Rightarrow> string list \<Rightarrow> bool" where
  "constraints_match E n cs =
     list_all (\<lambda>constraint. case parse_constraint constraint of
         Some (key, operator, expected) \<Rightarrow> node_matches_constraint E n key operator expected
       | None \<Rightarrow> False) cs"

definition node_eligible :: "extern \<Rightarrow> node option \<Rightarrow> placement option \<Rightarrow> bool" where
  "node_eligible E node p =
     (case node of
        None \<Rightarrow> False
      | Some n \<Rightarrow>
          if \<not> is_node_schedulable (Some n) then False
          else case p of
                 None \<Rightarrow> True
               | Some placement \<Rightarrow>
                   if platforms placement \<noteq> [] \<and> \<not> platform_matches E n (platforms placement) then False
                   else constraints_match E n (constraints placement))"

definition placement_from_metadata :: "service_metadata \<Rightarrow> placement option" where
  "placement_from_metadata md =
     (if sm_constraints md = [] \<and> sm_platforms md = [] then None
      else Some \<lparr>constraints = sm_constraints md, platforms = sm_platforms md\<rparr>)"

definition count_eligible_nodes :: "extern \<Rightarrow> node list \<Rightarrow> placement option \<Rightarrow> nat" where
  "count_eligible_nodes E nodes p = length (filter (\<lambda>n. node_eligible E (Some n) p) nodes)"

definition replica_counts :: "extern \<Rightarrow> service_metadata \<Rightarrow> node list \<Rightarrow> int \<times> int" where
  "replica_counts E md nodes =
     (let eligible = from_int (int (count_eligible_nodes E nodes (placement_from_metadata md))) in
      if sm_service_mode md = SERVICE_MODE_REPLICATED
      then (sm_configured_replicas md, min (sm_configured_replicas md) eligible)
      else if sm_service_mode md = SERVICE_MODE_REPLICATED_JOB
      then (sm_configured_replicas md, sm_configured_replicas md)
      else (eligible, eligible))"

section \<open>The label set of a service\<close>

definition metadata_ok :: "custom_label list \<Rightarrow> service_metadata \<Rightarrow> bool" where
  "metadata_ok cls md \<longleftrightarrow> bt_ok (sm_custom_labels md) \<and> set (map fst (sm_custom_labels md)) = set (sanitized_names cls)"

lemma metadata_ok_build: "build_metadata s cls = Inr md \<Longrightarrow> metadata_ok cls md"
  using build_metadata_custom by (simp add: metadata_ok_def)

lemma metadata_ok_desired [simp]: "metadata_ok cls (md\<lparr>sm_desired_replicas := d\<rparr>) = metadata_ok cls md"
  by (simp add: metadata_ok_def)

lemma labels_for_metadata_desired [simp]:
  "labels_for_metadata (md\<lparr>sm_desired_replicas := d\<rparr>) = labels_for_metadata md"
  by (simp add: labels_for_metadata_def)

lemma base_names_valid:
  "list_all is_valid_label_name [LABEL_STACK, LABEL_SERVICE, LABEL_SERVICE_MODE, LABEL_DISPLAY_NAME]"
  by code_simp

lemma base_label_names_valid: "custom_ok cls \<Longrightarrow> list_all is_valid_label_name (base_label_names cls)"
  using base_names_valid by (simp add: base_label_names_def custom_ok_def)

lemma base_label_names_distinct: "custom_ok cls \<Longrightarrow> distinct (base_label_names cls)"
  by (auto simp: base_label_names_def custom_ok_def reserved_label_names_def label_name_defs)

lemma state_not_base: "custom_ok cls \<Longrightarrow> LABEL_STATE \<notin> set (base_label_names cls)"
  by (auto simp: base_label_names_def custom_ok_def reserved_label_names_def label_name_defs)

lemma sanitize_names_fixed: "list_all is_valid_label_name names \<Longrightarrow> sanitize_label_names names = names"
  by (induction names) (simp_all add: sanitize_label_names_def sanitize_name_fixed)

lemma sanitize_metric_labels_fixed:
  assumes "bt_ok l" and "list_all is_valid_label_name (map fst l)"
  shows "sanitize_metric_labels l = l"
proof -
  have "map (\<lambda>(key, value). (sanitize_name key, value)) l = l"
    using assms(2) by (intro map_idI) (auto simp: list_all_iff sanitize_name_fixed)
  then show ?thesis using bt_collect_id [OF assms(1)] by (simp add: sanitize_metric_labels_def)
qed

lemma keys_fold_bt_insert:
  "set (map fst (fold (\<lambda>(k, v). bt_insert k v) kvs m)) = set (map fst m) \<union> set (map fst kvs)"
proof (induction kvs arbitrary: m)
  case (Cons kv kvs)
  then show ?case using keys_bt_insert [of "fst kv" "snd kv" m] by (simp add: split_def) 
qed simp

text \<open>The labels of a service built from validated custom labels are exactly the family's.\<close>

lemma labels_for_metadata_fits:
  assumes "custom_ok cls" and "metadata_ok cls md"
  shows "fits (base_label_names cls) (labels_for_metadata md)"
proof -
  let ?base = "[(LABEL_STACK, sm_stack md), (LABEL_SERVICE, sm_service md),
     (LABEL_SERVICE_MODE, sm_service_mode md), (LABEL_DISPLAY_NAME, display_name (sm_stack md) (sm_service md))]"
  let ?l = "fold (\<lambda>(key, value). bt_insert key value) (sm_custom_labels md) (bt_collect ?base)"
  have ok: "bt_ok ?l" by (rule bt.ok_puts) simp
  have "set (map fst (bt_collect ?base)) = {LABEL_STACK, LABEL_SERVICE, LABEL_SERVICE_MODE, LABEL_DISPLAY_NAME}"
    using keys_bt_collect [of ?base] by simp
  then have keys: "set (map fst ?l) = set (base_label_names cls)"
    using keys_fold_bt_insert [of "sm_custom_labels md" "bt_collect ?base"] assms(2)
    by (simp add: base_label_names_def metadata_ok_def)
  have "list_all is_valid_label_name (map fst ?l)"
    using base_label_names_valid [OF assms(1)] keys by (simp add: list_all_iff)
  then have l: "labels_for_metadata md = ?l"
    unfolding labels_for_metadata_def Let_def using sanitize_metric_labels_fixed [OF ok] by simp
  have "length ?l = card (set (map fst ?l))" using bt_ok_distinct [OF ok] by (metis distinct_card length_map)
  also have "\<dots> = length (base_label_names cls)"
    unfolding keys using base_label_names_distinct [OF assms(1)] by (rule distinct_card)
  finally show ?thesis unfolding l fits_def using ok keys by blast
qed

definition gauges_ok :: "custom_label list \<Rightarrow> replica_gauges \<Rightarrow> bool" where
  "gauges_ok cls g \<longleftrightarrow> gauge_ok (base_label_names cls) (rg_desired g) \<and> gauge_ok (base_label_names cls) (rg_schedulable g)
     \<and> gv_desc (rg_desired g) = gv_desc (rg_desired (replica_gauges_new cls))
     \<and> gv_desc (rg_schedulable g) = gv_desc (rg_schedulable (replica_gauges_new cls))"

lemma gauges_ok_new: "custom_ok cls \<Longrightarrow> gauges_ok cls (replica_gauges_new cls)"
  using base_label_names_valid [of cls] base_label_names_distinct [of cls]
  by (simp add: gauges_ok_def replica_gauges_new_def Let_def sanitize_names_fixed gauge_ok_def gv_new_def)

text \<open>The schedulable value a service exports.\<close>

definition exported_schedulable :: "service_metadata \<Rightarrow> int \<Rightarrow> int" where
  "exported_schedulable md value =
     (if sm_restart_condition_none md \<or> is_job_mode (sm_service_mode md) then 0 else value)"

lemma set_desired_ok:
  assumes "custom_ok cls" "metadata_ok cls md" "gauges_ok cls g"
  shows "set_desired md v g = Inr (g\<lparr>rg_desired := gv_put (labels_for_metadata md) v (rg_desired g)\<rparr>)"
  using gv_set_with_fits [OF _ labels_for_metadata_fits [OF assms(1,2)]] assms(3)
  by (simp add: set_desired_def gauges_ok_def)

lemma set_schedulable_ok:
  assumes "custom_ok cls" "metadata_ok cls md" "gauges_ok cls g"
  shows "set_schedulable md v g =
    Inr (g\<lparr>rg_schedulable := gv_put (labels_for_metadata md) (exported_schedulable md v) (rg_schedulable g)\<rparr>)"
  using gv_set_with_fits [OF _ labels_for_metadata_fits [OF assms(1,2)]] assms(3)
  by (simp add: set_schedulable_def gauges_ok_def exported_schedulable_def Let_def)

section \<open>Constraints\<close>

lemma match_value_neg: "match_constraint_value E OpNotEqual x c \<longleftrightarrow> \<not> match_constraint_value E OpEqual x c"
  by (simp add: match_constraint_value_def)

lemma match_ip_neg:
  "match_node_ip_constraint E OpNotEqual x a \<longleftrightarrow>
     (parse_ip_addr x \<noteq> None \<or> ipnet_parse E x \<noteq> None) \<and> \<not> match_node_ip_constraint E OpEqual x a"
  by (auto simp: match_node_ip_constraint_def Let_def split: option.splits)

lemma match_ip_comparable:
  "match_node_ip_constraint E op x a \<Longrightarrow> parse_ip_addr x \<noteq> None \<or> ipnet_parse E x \<noteq> None"
  by (auto simp: match_node_ip_constraint_def Let_def split: option.splits)

text \<open>The keys swarmkit knows.\<close>

definition known_key :: "extern \<Rightarrow> string \<Rightarrow> bool" where
  "known_key E key \<longleftrightarrow>
     list_ex (equal_fold E key) [''node.id'', ''node.hostname'', ''node.ip'', ''node.role'', ''node.platform.os'', ''node.platform.arch'']
     \<or> label_key E key ''node.labels.'' \<noteq> None \<or> label_key E key ''engine.labels.'' \<noteq> None"

text \<open>Whether the value after the operator can be compared at all: only \<^verbatim>\<open>node.ip\<close> restricts it.\<close>

definition comparable :: "extern \<Rightarrow> string \<Rightarrow> string \<Rightarrow> bool" where
  "comparable E key x \<longleftrightarrow> known_key E key \<and>
     (equal_fold E key ''node.ip'' \<and> \<not> equal_fold E key ''node.id'' \<and> \<not> equal_fold E key ''node.hostname''
        \<longrightarrow> parse_ip_addr x \<noteq> None \<or> ipnet_parse E x \<noteq> None)"

lemma unknown_key_never: "\<not> known_key E key \<Longrightarrow> \<not> node_matches_constraint E n key op x"
  by (auto simp: known_key_def node_matches_constraint_def Let_def)

lemma node_matches_neg:
  "node_matches_constraint E n key OpNotEqual x \<longleftrightarrow>
     comparable E key x \<and> \<not> node_matches_constraint E n key OpEqual x"
proof (cases "known_key E key")
  case False
  then show ?thesis using unknown_key_never by (simp add: comparable_def)
next
  case True
  then show ?thesis
    by (auto simp: comparable_def known_key_def node_matches_constraint_def Let_def match_value_neg match_ip_neg
        split: option.splits)
qed

lemma split_once_first:
  assumes "hd pat \<notin> set a" and "pat \<noteq> []"
  shows "split_once pat (a @ pat @ b) = Some (a, b)"
  using assms(1)
proof (induction a)
  case Nil
  then show ?case by (subst split_once.simps) (simp add: starts_with_def)
next
  case (Cons c a)
  have "\<not> starts_with pat (c # a @ pat @ b)"
    using Cons.prems assms(2) by (cases pat) (auto simp: starts_with_def)
  moreover have "split_once pat (a @ pat @ b) = Some (a, b)" using Cons by simp
  ultimately show ?case by (subst split_once.simps) simp
qed

lemma split_once_absent: "c \<in> set pat \<Longrightarrow> c \<notin> set s \<Longrightarrow> split_once pat s = None"
proof (induction s)
  case Nil
  then show ?case by (subst split_once.simps) (auto simp: starts_with_def)
next
  case (Cons d s)
  have "\<not> starts_with pat (d # s)"
  proof
    assume "starts_with pat (d # s)"
    then have "set pat \<subseteq> set (d # s)" unfolding starts_with_def by (metis set_take_subset)
    then show False using Cons.prems by blast
  qed
  then show ?case using Cons by (subst split_once.simps) simp
qed

text \<open>A text whose only equals sign is the one of \<^verbatim>\<open>!=\<close> does not contain \<^verbatim>\<open>==\<close>.\<close>

lemma no_double_equal:
  assumes "CHR ''='' \<notin> set a" and "CHR ''='' \<notin> set b"
  shows "split_once ''=='' (a @ ''!='' @ b) = None"
  using assms(1)
proof (induction a)
  case Nil
  have "split_once ''=='' b = None" using assms(2) by (intro split_once_absent [of "CHR ''=''"]) simp_all
  moreover have "\<not> starts_with ''=='' (CHR ''='' # b)" using assms(2) by (cases b) (auto simp: starts_with_def)
  ultimately show ?case
    by (subst split_once.simps, simp add: starts_with_def) (subst split_once.simps, simp add: starts_with_def)
next
  case (Cons c a)
  then have "\<not> starts_with ''=='' (c # a @ ''!='' @ b)" by (auto simp: starts_with_def)
  then show ?case using Cons by (subst split_once.simps) simp
qed

section \<open>Properties\<close>

text \<open>
  With custom labels that passed the startup validation, setting the desired and the
  schedulable replicas of a service whose metadata was built from those labels never fails, so the
  panic on a label mismatch is unreachable; the values are exported, schedulable as 0 for jobs and
  restart-condition none services.
\<close>

theorem replica_gauges_never_mismatch:
  assumes "validate_custom_labels raw = Inr cls" and "build_metadata s cls = Inr md" and "gauges_ok cls g"
  shows "\<exists>g1 g2. set_desired md d g = Inr g1 \<and> set_schedulable md v g1 = Inr g2 \<and> gauges_ok cls g2
    \<and> gv_get_with (rg_desired g2) (labels_for_metadata md) = Some d
    \<and> gv_get_with (rg_schedulable g2) (labels_for_metadata md) =
        Some (if sm_restart_condition_none md \<or> is_job_mode (sm_service_mode md) then 0 else v)"
proof -
  have c: "custom_ok cls" using assms(1) by (rule validated_custom_ok)
  have m: "metadata_ok cls md" using assms(2) by (rule metadata_ok_build)
  note f = labels_for_metadata_fits [OF c m]
  let ?g1 = "g\<lparr>rg_desired := gv_put (labels_for_metadata md) d (rg_desired g)\<rparr>"
  have g1: "gauges_ok cls ?g1" using assms(3) by (simp add: gauges_ok_def gauge_ok_put)
  let ?g2 = "?g1\<lparr>rg_schedulable := gv_put (labels_for_metadata md) (exported_schedulable md v) (rg_schedulable g)\<rparr>"
  have "gauges_ok cls ?g2" using g1 by (simp add: gauges_ok_def gauge_ok_put)
  moreover have "set_schedulable md v ?g1 = Inr ?g2" using set_schedulable_ok [OF c m g1] by simp
  ultimately show ?thesis
    using set_desired_ok [OF c m assms(3)] gv.lookup_put [OF _ f f] assms(3)
    by (auto simp: gauges_ok_def exported_schedulable_def)
qed

definition example_service :: service where
  "example_service = \<lparr>svc_id = ''s1'',
     svc_spec = \<lparr>ss_name = ''st_web'', ss_labels = [(''com.docker.stack.namespace'', ''st''), (''team'', ''core'')],
       ss_task_template = \<lparr>ts_placement = None, ts_restart_policy = None\<rparr>,
       ss_mode = \<lparr>md_replicated = Some \<lparr>replicas = Some 3\<rparr>, md_global = None, md_replicated_job = None, md_global_job = None\<rparr>\<rparr>,
     svc_update_status = None, svc_job_status = None\<rparr>"

theorem replica_gauges_never_mismatch_witness:
  "\<exists>cls md g1. validate_custom_labels [''team''] = Inr cls \<and> build_metadata example_service cls = Inr md
     \<and> sm_custom_labels md = [(''team'', ''core'')]
     \<and> set_desired md 3 (replica_gauges_new cls) = Inr g1"
proof -
  let ?cls = "[\<lparr>cl_raw = ''team'', cl_sanitized = ''team''\<rparr>]"
  have v: "validate_custom_labels [''team''] = Inr ?cls" by code_simp
  obtain md where md: "build_metadata example_service ?cls = Inr md" "sm_custom_labels md = [(''team'', ''core'')]"
    by (simp add: build_metadata_def example_service_def configured_replicas_def unwrap_or_def Let_def)
  show ?thesis
    using v md replica_gauges_never_mismatch [OF v md(1) gauges_ok_new [OF validated_custom_ok(1) [OF v]], of 3]
    by blast
qed

text \<open>
  A constraint with \<^verbatim>\<open>!=\<close> holds exactly when the one with \<^verbatim>\<open>==\<close> does not, provided the constraint
  can be evaluated: the key is one swarmkit knows and the value of \<^verbatim>\<open>node.ip\<close> is an address or a
  subnet. A constraint that cannot be evaluated holds with neither operator.
\<close>

theorem constraint_negation:
  "(node_matches_constraint E n key OpNotEqual x \<longleftrightarrow>
      comparable E key x \<and> \<not> node_matches_constraint E n key OpEqual x)
   \<and> (node_matches_constraint E n key op x \<longrightarrow> comparable E key x)"
proof (cases op)
  case OpEqual
  have "comparable E key x" if "node_matches_constraint E n key OpEqual x"
  proof -
    have "known_key E key" using that unknown_key_never by blast
    moreover have "parse_ip_addr x \<noteq> None \<or> ipnet_parse E x \<noteq> None"
      if "equal_fold E key ''node.ip''" "\<not> equal_fold E key ''node.id''" "\<not> equal_fold E key ''node.hostname''"
      using that \<open>node_matches_constraint E n key OpEqual x\<close> match_ip_comparable
      by (simp add: node_matches_constraint_def)
    ultimately show ?thesis by (simp add: comparable_def)
  qed
  then show ?thesis using OpEqual node_matches_neg by blast
next
  case OpNotEqual
  then show ?thesis using node_matches_neg by blast
qed

text \<open>The standard extern: no case mapping beyond ASCII, and no CIDR crate.\<close>

definition extern_ascii :: extern where
  "extern_ascii = \<lparr>unicode_lower = id, ipnet_parse = (\<lambda>_. None), ipv6net_network = (\<lambda>a _. a),
     ipv4net_new = (\<lambda>a len. if len \<le> 32 then Some (NetV4 a len) else None), ipnet_contains = (\<lambda>_ _. False)\<rparr>"

definition example_node :: node where
  "example_node = \<lparr>node_id = ''n1'',
     node_spec_of = \<lparr>ns_labels = [(''gpu'', ''TRUE'')], ns_role = ''manager'', ns_availability = ''active''\<rparr>,
     node_description_of = \<lparr>nd_hostname = ''h1'', nd_platform = \<lparr>architecture = ''x86_64'', os = ''linux''\<rparr>, nd_engine_labels = []\<rparr>,
     node_status_of = \<lparr>nst_state = ''ready'', nst_addr = ''10.0.0.1''\<rparr>\<rparr>"

theorem constraint_negation_witness:
  "node_matches_constraint extern_ascii example_node ''Node.Labels.gpu'' OpEqual ''true''
   \<and> comparable extern_ascii ''Node.Labels.gpu'' ''true''
   \<and> \<not> node_matches_constraint extern_ascii example_node ''Node.Labels.gpu'' OpNotEqual ''true''"
proof -
  have "node_matches_constraint extern_ascii example_node ''Node.Labels.gpu'' OpEqual ''true''" by code_simp
  then show ?thesis using constraint_negation [of extern_ascii example_node "''Node.Labels.gpu''" "''true''" OpEqual] by blast
qed

text \<open>
  An expression is split at its operator: with no \<^verbatim>\<open>=\<close> or \<^verbatim>\<open>!\<close> in the key (and no \<^verbatim>\<open>=\<close> in the value of
  \<^verbatim>\<open>!=\<close>), it parses to the trimmed key, that operator and the trimmed value, and to nothing when
  either is blank.
\<close>

theorem parse_constraint_splits:
  assumes "CHR ''='' \<notin> set k" and "CHR ''!'' \<notin> set k"
    and "op = OpNotEqual \<Longrightarrow> CHR ''='' \<notin> set v"
  shows "parse_constraint (k @ op_text op @ v) =
    (if trim_space k \<noteq> [] \<and> trim_space v \<noteq> [] then Some (trim_space k, op, trim_space v) else None)"
proof (cases op)
  case OpEqual
  then show ?thesis
    using split_once_first [of "''==''" k v] assms(1)
    by (simp add: parse_constraint_def contains_def Let_def)
next
  case OpNotEqual
  then show ?thesis
    using split_once_first [of "''!=''" k v] no_double_equal [of k v] assms
    by (simp add: parse_constraint_def contains_def Let_def)
qed

theorem parse_constraint_splits_witness:
  "parse_constraint ''node.role  !=  manager '' = Some (''node.role'', OpNotEqual, ''manager'')"
proof -
  have "trim_space ''node.role  '' = ''node.role''" "trim_space ''  manager '' = ''manager''" by code_simp+
  then show ?thesis
    using parse_constraint_splits [of "''node.role  ''" OpNotEqual "''  manager ''"] by simp
qed


definition example_metadata :: service_metadata where
  "example_metadata = \<lparr>sm_stack = ''st'', sm_service = ''web'', sm_service_mode = SERVICE_MODE_REPLICATED,
     sm_custom_labels = [], sm_desired_replicas = 0, sm_configured_replicas = 3, sm_job_iteration = 0,
     sm_constraints = [''node.role == manager''], sm_platforms = [], sm_restart_condition_none = False\<rparr>"


end
