(* ===== verification/Service_Update.thy ===== *)
theory Service_Update
  imports Desired
begin

text \<open>
  \<^verbatim>\<open>src/src/collector/service_update.rs\<close>: the update and rollback state of a service, one series per
  known state with 1 on the current one, and the started and completed times.
\<close>

section \<open>Operations\<close>

definition KNOWN_STATES :: "string list" where
  "KNOWN_STATES = [''updating'', ''completed'', ''paused'', ''rollback_started'', ''rollback_completed'']"

definition update_state_from_swarm :: "string option \<Rightarrow> string" where
  "update_state_from_swarm state =
     (case state of
        None \<Rightarrow> ''completed''
      | Some s \<Rightarrow>
          if s = ''completed'' then ''completed''
          else if s = ''updating'' then ''updating''
          else if s = ''paused'' \<or> s = ''rollback_paused'' then ''paused''
          else if s = ''rollback_started'' then ''rollback_started''
          else if s = ''rollback_completed'' then ''rollback_completed''
          else ''paused'')"

definition clone_labels_with_state :: "(string, string) btree \<Rightarrow> string \<Rightarrow> (string, string) btree" where
  "clone_labels_with_state base state = bt_insert LABEL_STATE state base"

record service_update_metrics =
  su_state :: gauge_vec
  su_started :: gauge_vec
  su_completed :: gauge_vec

definition service_update_new :: "custom_label list \<Rightarrow> service_update_metrics" where
  "service_update_new cls =
     (let base = base_label_names cls;
          with_state = base @ [LABEL_STATE];
          family = (\<lambda>name help labels. gv_new \<lparr>desc_name = ''swarm_service_'' @ name, desc_help = help, desc_label_names = labels\<rparr>)
      in \<lparr>su_state = family ''update_state_info''
            ''Service update/rollback state indicator (1 for the current state, 0 otherwise).'' with_state,
          su_started = family ''update_started_timestamp_seconds''
            ''Unix timestamp (seconds) when the current/last service update started (0 if unknown).'' base,
          su_completed = family ''update_completed_timestamp_seconds''
            ''Unix timestamp (seconds) when the current/last service update completed (0 if unknown).'' base\<rparr>)"

definition seconds_of :: "gotime option \<Rightarrow> int" where
  "seconds_of time = (case time of None \<Rightarrow> 0 | Some t \<Rightarrow> from_int (unix t))"

text \<open>One write of a family: an error stops the update where it is.\<close>

definition su_write :: "(service_update_metrics \<Rightarrow> gauge_vec) \<Rightarrow> (gauge_vec \<Rightarrow> service_update_metrics \<Rightarrow> service_update_metrics)
    \<Rightarrow> (string, string) btree \<Rightarrow> int \<Rightarrow> service_update_metrics \<Rightarrow> (labels_mismatch, service_update_metrics) outcome" where
  "su_write field update labels value m =
     (case gv_set_with (field m) labels value of
        Inl e \<Rightarrow> Stopped e m
      | Inr g \<Rightarrow> Done (update g m))"

definition update_for_service :: "service \<Rightarrow> service_metadata \<Rightarrow> service_update_metrics
    \<Rightarrow> (labels_mismatch, service_update_metrics) outcome" where
  "update_for_service s md m =
     (let base = labels_for_metadata md;
          status = svc_update_status s;
          current = update_state_from_swarm (map_option us_state status);
          started = seconds_of (Option.bind status us_started_at);
          completed = seconds_of (Option.bind status us_completed_at)
      in and_then (for_each (\<lambda>state. su_write su_state (\<lambda>g m. m\<lparr>su_state := g\<rparr>)
                       (clone_labels_with_state base state) (if state = current then 1 else 0)) KNOWN_STATES m)
         (\<lambda>m. and_then (su_write su_started (\<lambda>g m. m\<lparr>su_started := g\<rparr>) base started m)
         (\<lambda>m. su_write su_completed (\<lambda>g m. m\<lparr>su_completed := g\<rparr>) base completed m)))"

definition su_clear :: "service_metadata \<Rightarrow> service_update_metrics \<Rightarrow> service_update_metrics" where
  "su_clear md m =
     (let base = labels_for_metadata md in
      \<lparr>su_state = fold (\<lambda>state g. snd (gv_delete_with g (clone_labels_with_state base state))) KNOWN_STATES (su_state m),
       su_started = snd (gv_delete_with (su_started m) base),
       su_completed = snd (gv_delete_with (su_completed m) base)\<rparr>)"

section \<open>The families stay well formed\<close>

definition updates_ok :: "custom_label list \<Rightarrow> service_update_metrics \<Rightarrow> bool" where
  "updates_ok cls m \<longleftrightarrow> gauge_ok (base_label_names cls @ [LABEL_STATE]) (su_state m)
     \<and> gauge_ok (base_label_names cls) (su_started m) \<and> gauge_ok (base_label_names cls) (su_completed m)
     \<and> gv_desc (su_state m) = gv_desc (su_state (service_update_new cls)) \<and> gv_desc (su_started m) = gv_desc (su_started (service_update_new cls))
     \<and> gv_desc (su_completed m) = gv_desc (su_completed (service_update_new cls))"

lemma updates_ok_new: "custom_ok cls \<Longrightarrow> updates_ok cls (service_update_new cls)"
  using base_label_names_distinct state_not_base
  by (simp add: updates_ok_def service_update_new_def Let_def gauge_ok_def gv_new_def)

lemma clone_labels_fits:
  assumes "custom_ok cls" and "fits (base_label_names cls) base"
  shows "fits (base_label_names cls @ [LABEL_STATE]) (clone_labels_with_state base state)"
proof -
  have ok: "bt_ok (clone_labels_with_state base state)" using assms(2) by (simp add: fits_def clone_labels_with_state_def)
  have keys: "set (map fst (clone_labels_with_state base state)) = set (base_label_names cls @ [LABEL_STATE])"
    using assms(2) keys_bt_insert [of LABEL_STATE state base] by (auto simp: fits_def clone_labels_with_state_def)
  have "distinct (base_label_names cls @ [LABEL_STATE])"
    using base_label_names_distinct [OF assms(1)] state_not_base [OF assms(1)] by simp
  then have "length (clone_labels_with_state base state) = length (base_label_names cls @ [LABEL_STATE])"
    using keys bt_ok_distinct [OF ok] by (metis distinct_card length_map)
  then show ?thesis using ok keys by (simp add: fits_def)
qed

lemma clone_labels_inj:
  assumes "custom_ok cls" and "fits (base_label_names cls) b" and "fits (base_label_names cls) b'"
    and "clone_labels_with_state b x = clone_labels_with_state b' x'"
  shows "b = b' \<and> x = x'"
proof -
  have eq: "(map_of b)(LABEL_STATE \<mapsto> x) = (map_of b')(LABEL_STATE \<mapsto> x')"
    using assms(4) by (simp add: clone_labels_with_state_def) (metis map_of_bt_insert)
  have "map_of b LABEL_STATE = None" "map_of b' LABEL_STATE = None"
    using assms(2,3) state_not_base [OF assms(1)] by (simp_all add: fits_def map_of_eq_None_iff)
  then have "map_of b = map_of b'" using eq by (metis fun_upd_triv fun_upd_upd)
  then have "b = b'" using assms(2,3) by (intro bt_eqI) (simp_all add: fits_def)
  moreover have "x = x'" using fun_cong [OF eq, of LABEL_STATE] by simp
  ultimately show ?thesis by simp
qed

text \<open>A label set of the state family splits into the service's labels and the state.\<close>

lemma for_each_write_state:
  assumes "updates_ok cls m" and "\<forall>x \<in> set xs. fits (base_label_names cls @ [LABEL_STATE]) (lab x)"
  shows "for_each (\<lambda>x. su_write su_state (\<lambda>g m. m\<lparr>su_state := g\<rparr>) (lab x) (val x)) xs m =
     Done (m\<lparr>su_state := fold (\<lambda>x. gv_put (lab x) (val x)) xs (su_state m)\<rparr>)"
  using assms
proof (induction xs arbitrary: m)
  case (Cons x xs)
  let ?m = "m\<lparr>su_state := gv_put (lab x) (val x) (su_state m)\<rparr>"
  have "su_write su_state (\<lambda>g m. m\<lparr>su_state := g\<rparr>) (lab x) (val x) m = Done ?m"
    using Cons.prems gv_set_with_fits [of "base_label_names cls @ [LABEL_STATE]" "su_state m" "lab x" "val x"]
    by (simp add: su_write_def updates_ok_def)
  moreover have "updates_ok cls ?m" using Cons.prems(1) by (simp add: updates_ok_def gauge_ok_put)
  ultimately show ?case using Cons.IH [of ?m] Cons.prems(2) by simp
qed simp

text \<open>The state after an update that met no mismatch.\<close>

definition updated :: "service \<Rightarrow> service_metadata \<Rightarrow> service_update_metrics \<Rightarrow> service_update_metrics" where
  "updated s md m =
     (let base = labels_for_metadata md; status = svc_update_status s;
          current = update_state_from_swarm (map_option us_state status)
      in \<lparr>su_state = fold (\<lambda>x. gv_put (clone_labels_with_state base x) (if x = current then 1 else 0)) KNOWN_STATES (su_state m),
          su_started = gv_put base (seconds_of (Option.bind status us_started_at)) (su_started m),
          su_completed = gv_put base (seconds_of (Option.bind status us_completed_at)) (su_completed m)\<rparr>)"

lemma fold_gauge_ok_put: "gauge_ok names g \<Longrightarrow> gauge_ok names (fold (\<lambda>x. gv_put (lab x) (val x)) xs g)"
  by (induction xs arbitrary: g) (simp_all add: gauge_ok_put)

lemma fold_desc_put [simp]: "gv_desc (fold (\<lambda>x. gv_put (lab x) (val x)) xs g) = gv_desc g"
  by (induction xs arbitrary: g) simp_all

lemma updated_ok: "updates_ok cls m \<Longrightarrow> updates_ok cls (updated s md m)"
  by (simp add: updates_ok_def updated_def Let_def gauge_ok_put fold_gauge_ok_put)

lemma update_for_service_ok:
  assumes "custom_ok cls" "metadata_ok cls md" "updates_ok cls m"
  shows "update_for_service s md m = Done (updated s md m)"
proof -
  let ?base = "labels_for_metadata md"
  let ?cur = "update_state_from_swarm (map_option us_state (svc_update_status s))"
  note f = labels_for_metadata_fits [OF assms(1,2)]
  have "for_each (\<lambda>state. su_write su_state (\<lambda>g m. m\<lparr>su_state := g\<rparr>)
      (clone_labels_with_state ?base state) (if state = ?cur then 1 else 0)) KNOWN_STATES m =
    Done (m\<lparr>su_state := fold (\<lambda>x. gv_put (clone_labels_with_state ?base x) (if x = ?cur then 1 else 0)) KNOWN_STATES (su_state m)\<rparr>)"
    using for_each_write_state [OF assms(3), of KNOWN_STATES "clone_labels_with_state ?base" "\<lambda>x. if x = ?cur then 1 else 0"]
      clone_labels_fits [OF assms(1) f] by simp
  then show ?thesis
    using assms(3) gv_set_with_fits [OF _ f]
    by (simp add: update_for_service_def updated_def updates_ok_def su_write_def Let_def)
qed

lemma lookup_put_states:
  assumes "custom_ok cls" "fits (base_label_names cls) base" "fits (base_label_names cls) other"
    and "gauge_ok (base_label_names cls @ [LABEL_STATE]) g"
  shows "gv_get_with (fold (\<lambda>x. gv_put (clone_labels_with_state base x) (val x)) xs g) (clone_labels_with_state other y) =
    (if other = base \<and> y \<in> set xs then Some (val y) else gv_get_with g (clone_labels_with_state other y))"
  using assms(4)
proof (induction xs arbitrary: g)
  case (Cons x xs)
  have same: "clone_labels_with_state other y = clone_labels_with_state base x \<longleftrightarrow> other = base \<and> y = x"
    using clone_labels_inj [OF assms(1,3,2)] by auto
  show ?case
    using Cons.IH [OF gauge_ok_put [OF Cons.prems], of "clone_labels_with_state base x" "val x"]
      gv.lookup_put [OF Cons.prems clone_labels_fits [OF assms(1,2)] clone_labels_fits [OF assms(1,3)]]
    by (auto simp: same)
qed simp

lemma lookup_clear_states:
  assumes "custom_ok cls" "fits (base_label_names cls) base" "fits (base_label_names cls) other"
    and "gauge_ok (base_label_names cls @ [LABEL_STATE]) g"
  shows "gv_get_with (fold (\<lambda>x g. snd (gv_delete_with g (clone_labels_with_state base x))) xs g) (clone_labels_with_state other y) =
    (if other = base \<and> y \<in> set xs then None else gv_get_with g (clone_labels_with_state other y))"
  using assms(4)
proof (induction xs arbitrary: g)
  case (Cons x xs)
  have same: "clone_labels_with_state other y = clone_labels_with_state base x \<longleftrightarrow> other = base \<and> y = x"
    using clone_labels_inj [OF assms(1,3,2)] by auto
  show ?case
    using Cons.IH [OF gauge_ok_delete [OF Cons.prems], of "clone_labels_with_state base x"]
      gv.lookup_remove [OF Cons.prems clone_labels_fits [OF assms(1,2)] clone_labels_fits [OF assms(1,3)]]
    by (auto simp: same)
qed simp

lemma fold_gauge_ok_delete:
  "gauge_ok names g \<Longrightarrow> gauge_ok names (fold (\<lambda>x g. snd (gv_delete_with g (lab x))) xs g)"
  by (induction xs arbitrary: g) (simp_all add: gauge_ok_delete)

lemma fold_desc_delete [simp]: "gv_desc (fold (\<lambda>x g. snd (gv_delete_with g (lab x))) xs g) = gv_desc g"
  by (induction xs arbitrary: g) simp_all

lemma su_clear_ok: "updates_ok cls m \<Longrightarrow> updates_ok cls (su_clear md m)"
  by (simp add: updates_ok_def su_clear_def Let_def gauge_ok_delete fold_gauge_ok_delete)

lemma update_state_known: "update_state_from_swarm st \<in> set KNOWN_STATES"
  by (auto simp: update_state_from_swarm_def KNOWN_STATES_def split: option.split)

lemma KNOWN_STATES_distinct: "distinct KNOWN_STATES"
  by (simp add: KNOWN_STATES_def)

section \<open>Properties\<close>

definition no_update_service :: "string \<Rightarrow> nat \<Rightarrow> service" where
  "no_update_service name n = \<lparr>svc_id = name,
     svc_spec = \<lparr>ss_name = name, ss_labels = [], ss_task_template = \<lparr>ts_placement = None, ts_restart_policy = None\<rparr>,
       ss_mode = \<lparr>md_replicated = Some \<lparr>replicas = Some n\<rparr>, md_global = None, md_replicated_job = None, md_global_job = None\<rparr>\<rparr>,
     svc_update_status = None, svc_job_status = None\<rparr>"



text \<open>
  Clearing a removed service deletes its series from the three update families, and no series
  of another label set.
\<close>

theorem update_clear_exact:
  assumes "custom_ok cls" and "metadata_ok cls md" and "updates_ok cls m"
    and "fits (base_label_names cls) other"
  shows "let m' = su_clear md m; gone = (other = labels_for_metadata md) in
    updates_ok cls m'
    \<and> (\<forall>x \<in> set KNOWN_STATES. gv_get_with (su_state m') (clone_labels_with_state other x) =
          (if gone then None else gv_get_with (su_state m) (clone_labels_with_state other x)))
    \<and> gv_get_with (su_started m') other = (if gone then None else gv_get_with (su_started m) other)
    \<and> gv_get_with (su_completed m') other = (if gone then None else gv_get_with (su_completed m) other)"
proof -
  note f = labels_for_metadata_fits [OF assms(1,2)]
  have ok: "gauge_ok (base_label_names cls @ [LABEL_STATE]) (su_state m)" "gauge_ok (base_label_names cls) (su_started m)"
    "gauge_ok (base_label_names cls) (su_completed m)" using assms(3) by (simp_all add: updates_ok_def)
  show ?thesis
    using su_clear_ok [OF assms(3), of md] lookup_clear_states [OF assms(1) f assms(4) ok(1)]
      gv.lookup_remove [OF ok(2) f assms(4)] gv.lookup_remove [OF ok(3) f assms(4)]
    by (simp add: su_clear_def Let_def)
qed

theorem update_clear_exact_witness:
  "\<exists>md. build_metadata (no_update_service ''web'' 2) [] = Inr md
    \<and> gv_get_with (su_started (su_clear md (updated (no_update_service ''web'' 2) md (service_update_new [])))) (labels_for_metadata md) = None"
proof -
  have c: "custom_ok []" by (simp add: custom_ok_def sanitized_names_def)
  obtain md where md: "build_metadata (no_update_service ''web'' 2) [] = Inr md"
    by (simp add: build_metadata_def no_update_service_def configured_replicas_def Let_def)
  note m = metadata_ok_build [OF md]
  show ?thesis
    using md update_clear_exact [OF c m updated_ok [OF updates_ok_new [OF c]] labels_for_metadata_fits [OF c m]]
    by (auto simp: Let_def)
qed

end
