(* ===== verification/Nodes_By_State.thy ===== *)
theory Nodes_By_State
  imports Docker_Types Metric_Families
begin

text \<open>
  \<^verbatim>\<open>src/src/collector/nodes.rs\<close>: the number of nodes per role, availability and status, rebuilt whole
  from each node snapshot and published in one swap.
\<close>

section \<open>Operations\<close>

definition nodes_by_state_desc :: desc where
  "nodes_by_state_desc = \<lparr>desc_name = ''swarm_cluster_nodes_by_state'',
     desc_help = ''Number of Swarm nodes grouped by role, availability, and status.'',
     desc_label_names = [''role'', ''availability'', ''status'']\<rparr>"

definition nodes_by_state_new :: snapshot_family where
  "nodes_by_state_new = sf_new nodes_by_state_desc"

definition node_key :: "node \<Rightarrow> string \<times> string \<times> string" where
  "node_key n = (ns_role (node_spec_of n), ns_availability (node_spec_of n), nst_state (node_status_of n))"

definition count_nodes :: "node list \<Rightarrow> (string \<times> string \<times> string, int) btree" where
  "count_nodes nodes =
     fold (\<lambda>n counts. let key = node_key n; old = (case map_of counts key of Some c \<Rightarrow> c | None \<Rightarrow> 0)
                       in bt_insert key (f64_add old 1) counts) nodes []"

definition build_nodes_by_state :: "snapshot_family \<Rightarrow> node list \<Rightarrow> snapshot_builder" where
  "build_nodes_by_state family nodes =
     fold (\<lambda>((role, availability, status), count).
             sb_set (sf_desc family) [(''role'', role), (''availability'', availability), (''status'', status)] count)
          (count_nodes nodes) sb_new"

definition update_from_slice :: "node list \<Rightarrow> snapshot_family \<Rightarrow> snapshot_family" where
  "update_from_slice nodes family =
     (case sb_build (build_nodes_by_state family nodes) of
        Inr families \<Rightarrow> family\<lparr>sf_collector := sc_publish (sf_collector family) families\<rparr>
      | Inl _ \<Rightarrow> family)"

section \<open>The published family\<close>

definition nodes_ok :: "snapshot_family \<Rightarrow> bool" where
  "nodes_ok f \<longleftrightarrow> sf_desc f = nodes_by_state_desc \<and> sc_descs (sf_collector f) = [nodes_by_state_desc] \<and> collector_ok (sf_collector f)"

lemma nodes_ok_new [simp]: "nodes_ok nodes_by_state_new"
  by (simp add: nodes_ok_def nodes_by_state_new_def sf_new_def) (simp add: sc_new_def)

lemma nodes_ok_update: "nodes_ok f \<Longrightarrow> nodes_ok (update_from_slice nodes f)"
proof -
  assume f: "nodes_ok f"
  have "builder_ok [sf_desc f] (fold (\<lambda>((role, availability, status), count).
      sb_set (sf_desc f) [(''role'', role), (''availability'', availability), (''status'', status)] count) kvs b)" if "builder_ok [sf_desc f] b" for kvs b
    using that by (induction kvs arbitrary: b) (simp_all add: split_def builder_ok_set)
  then have "builder_ok (sc_descs (sf_collector f)) (build_nodes_by_state f nodes)"
    using f by (simp add: build_nodes_by_state_def nodes_ok_def)
  then show ?thesis using f collector_ok_publish by (auto simp: nodes_ok_def update_from_slice_def split: sum.split)
qed

section \<open>Counting\<close>

definition tally :: "node list \<Rightarrow> string \<times> string \<times> string \<Rightarrow> nat" where
  "tally nodes key = length (filter (\<lambda>n. node_key n = key) nodes)"

lemma count_nodes_snoc:
  "count_nodes (nodes @ [n]) =
     bt_insert (node_key n) (f64_add (case map_of (count_nodes nodes) (node_key n) of Some c \<Rightarrow> c | None \<Rightarrow> 0) 1) (count_nodes nodes)"
  by (simp add: count_nodes_def Let_def)

lemma count_nodes_ok: "bt_ok (count_nodes nodes)"
  by (induction nodes rule: rev_induct) (simp_all add: count_nodes_snoc, simp add: count_nodes_def)

lemma tally_le: "tally nodes key \<le> length nodes"
  by (simp add: tally_def)

lemma count_nodes_tally:
  "length nodes < 2 ^ 53 \<Longrightarrow>
   map_of (count_nodes nodes) key = (if tally nodes key = 0 then None else Some (int (tally nodes key)))"
proof (induction nodes arbitrary: key rule: rev_induct)
  case Nil
  then show ?case by (simp add: count_nodes_def tally_def)
next
  case (snoc n nodes)
  have le: "tally nodes (node_key n) + 1 < 2 ^ 53" using snoc.prems tally_le [of nodes "node_key n"] by simp
  have "f64_add (int (tally nodes (node_key n))) 1 = int (tally nodes (node_key n)) + 1"
    unfolding f64_add_def using le by (intro from_int_exact) simp
  then show ?case
    using snoc by (auto simp: count_nodes_snoc map_of_bt_insert tally_def f64_add_def)
qed

lemma set_error_node_labels:
  "desc_label_names d = [''role'', ''availability'', ''status''] \<Longrightarrow>
   set_error d [(''role'', r), (''availability'', a), (''status'', s)] = None"
  by (simp add: set_error_def hm_collect_def Let_def)

lemma sb_set_node:
  "desc_label_names d = [''role'', ''availability'', ''status''] \<Longrightarrow>
   sb_set d [(''role'', r), (''availability'', a), (''status'', s)] c b = sb_insert d [r, a, s] c b"
  by (simp add: sb_set_ok set_error_node_labels) (simp add: hm_collect_def)

text \<open>Recording the counts under one descriptor builds one family holding them.\<close>

definition key_list :: "string \<times> string \<times> string \<Rightarrow> string list" where
  "key_list k = [fst k, fst (snd k), snd (snd k)]"

lemma fold_insert_family:
  assumes "sb_families b = [(desc_name d, \<lparr>bf_desc = d, bf_series = m\<rparr>)]"
  shows "sb_families (fold (\<lambda>(k, c). sb_insert d (key_list k) c) kvs b) =
      [(desc_name d, \<lparr>bf_desc = d, bf_series = fold (\<lambda>(k, c). bt_insert (key_list k) c) kvs m\<rparr>)]
    \<and> sb_error (fold (\<lambda>(k, c). sb_insert d (key_list k) c) kvs b) = sb_error b"
  using assms
proof (induction kvs arbitrary: b m)
  case (Cons kv kvs)
  obtain k c where kv: "kv = (k, c)" by (cases kv)
  have fam: "sb_families (sb_insert d (key_list k) c b) = [(desc_name d, \<lparr>bf_desc = d, bf_series = bt_insert (key_list k) c m\<rparr>)]"
    and err: "sb_error (sb_insert d (key_list k) c b) = sb_error b"
    using Cons.prems by (simp_all add: sb_insert_def Let_def)
  show ?case using Cons.IH [OF fam] err by (simp add: kv)
qed simp

lemma key_list_inj: "key_list k = key_list k' \<longleftrightarrow> k = k'"
  by (auto simp: key_list_def prod_eq_iff)

lemma map_of_key_list:
  "map_of (map (\<lambda>(k, c). (key_list k, c)) kvs) (key_list k) = map_of kvs k"
  by (induction kvs) (auto simp: key_list_inj)

lemma build_nodes_by_state_fold:
  "sf_desc f = nodes_by_state_desc \<Longrightarrow>
   build_nodes_by_state f nodes = fold (\<lambda>(k, c). sb_insert nodes_by_state_desc (key_list k) c) (count_nodes nodes) sb_new"
proof -
  assume d: "sf_desc f = nodes_by_state_desc"
  have "(\<lambda>((r, a, s), c). sb_set (sf_desc f) [(''role'', r), (''availability'', a), (''status'', s)] c)
      = (\<lambda>(k, c). sb_insert nodes_by_state_desc (key_list k) c)"
    using sb_set_node [of nodes_by_state_desc]
    by (intro ext) (simp add: d nodes_by_state_desc_def key_list_def split_def)
  then show ?thesis by (simp add: build_nodes_by_state_def)
qed

text \<open>The build never fails, and its one family lists the counts.\<close>

lemma build_nodes_by_state_result:
  assumes "sf_desc f = nodes_by_state_desc"
  shows "sb_build (build_nodes_by_state f nodes) =
    Inr (if nodes = [] then []
         else [\<lparr>bf_desc = nodes_by_state_desc,
                bf_series = fold (\<lambda>(k, c). bt_insert (key_list k) c) (count_nodes nodes) []\<rparr>])"
proof (cases "count_nodes nodes")
  case Nil
  then have "nodes = []"
    using count_nodes_snoc by (metis append_butlast_last_id bt_insert.elims list.discI)
  with Nil show ?thesis by (simp add: build_nodes_by_state_fold [OF assms] sb_build_def sb_new_def)
next
  case (Cons kc kcs)
  obtain k c where kc: "kc = (k, c)" by (cases kc)
  have "nodes \<noteq> []" using Cons by (auto simp: count_nodes_def)
  let ?d = nodes_by_state_desc
  have fam: "sb_families (sb_insert ?d (key_list k) c sb_new) = [(desc_name ?d, \<lparr>bf_desc = ?d, bf_series = bt_insert (key_list k) c []\<rparr>)]"
    and err: "sb_error (sb_insert ?d (key_list k) c sb_new) = None"
    by (simp_all add: sb_insert_def sb_new_def Let_def)
  show ?thesis
    using fold_insert_family [OF fam, of kcs] err \<open>nodes \<noteq> []\<close>
    by (simp add: build_nodes_by_state_fold [OF assms] sb_build_def Cons kc)
qed

lemma series_lookup:
  "map_of (fold (\<lambda>(k, c). bt_insert (key_list k) c) (count_nodes nodes) []) (key_list k) = map_of (count_nodes nodes) k"
proof -
  have "fold (\<lambda>(k, c). bt_insert (key_list k) c) kvs m = fold (\<lambda>(k, c). bt_insert k c) (map (\<lambda>(k, c). (key_list k, c)) kvs) m"
    for kvs :: "((string \<times> string \<times> string) \<times> int) list" and m
    by (induction kvs arbitrary: m) (auto simp: split_def)
  then have "map_of (fold (\<lambda>(k, c). bt_insert (key_list k) c) (count_nodes nodes) []) (key_list k) =
      map_of (rev (map (\<lambda>(k, c). (key_list k, c)) (count_nodes nodes))) (key_list k)"
    using map_of_bt_collect [of "map (\<lambda>(k, c). (key_list k, c)) (count_nodes nodes)"] by (simp add: bt_collect_def)
  also have "\<dots> = map_of (rev (count_nodes nodes)) k"
    by (simp add: rev_map map_of_key_list)
  also have "\<dots> = map_of (count_nodes nodes) k"
    using bt_ok_distinct [OF count_nodes_ok] by (simp add: map_of_rev_distinct)
  finally show ?thesis by simp
qed

section \<open>Properties\<close>

text \<open>
  An update always publishes, and the published family has for each combination of role,
  availability and status exactly the number of nodes reporting it, with no series for a
  combination no node has; no nodes publish no family.
\<close>

theorem nodes_by_state_published:
  assumes "sf_desc f = nodes_by_state_desc" and "length nodes < 2 ^ 53"
  shows "\<exists>families. sc_current (sf_collector (update_from_slice nodes f)) = Some families
    \<and> (if nodes = [] then families = []
       else \<exists>series. families = [\<lparr>bf_desc = nodes_by_state_desc, bf_series = series\<rparr>]
         \<and> (\<forall>r a s. map_of series [r, a, s] =
              (let n = length (filter (\<lambda>n. node_key n = (r, a, s)) nodes) in if n = 0 then None else Some (int n))))"
proof -
  have "map_of (fold (\<lambda>(k, c). bt_insert (key_list k) c) (count_nodes nodes) []) [r, a, s] =
      (let n = length (filter (\<lambda>n. node_key n = (r, a, s)) nodes) in if n = 0 then None else Some (int n))" for r a s
    using series_lookup [of nodes "(r, a, s)"] count_nodes_tally [OF assms(2), of "(r, a, s)"]
    by (simp add: key_list_def tally_def Let_def)
  then show ?thesis
    by (simp add: update_from_slice_def build_nodes_by_state_result [OF assms(1)] sc_publish_def)
qed

definition state_node :: "string \<Rightarrow> string \<Rightarrow> string \<Rightarrow> node" where
  "state_node r a s = \<lparr>node_id = ''n'', node_spec_of = \<lparr>ns_labels = [], ns_role = r, ns_availability = a\<rparr>,
     node_description_of = \<lparr>nd_hostname = ''h'', nd_platform = \<lparr>architecture = '''', os = ''''\<rparr>, nd_engine_labels = []\<rparr>,
     node_status_of = \<lparr>nst_state = s, nst_addr = ''''\<rparr>\<rparr>"

theorem nodes_by_state_published_witness:
  "\<exists>series. sc_current (sf_collector (update_from_slice
       [state_node ''worker'' ''active'' ''ready'', state_node ''manager'' ''drain'' ''down'', state_node ''worker'' ''active'' ''ready'']
       nodes_by_state_new)) = Some [\<lparr>bf_desc = nodes_by_state_desc, bf_series = series\<rparr>]
    \<and> map_of series [''worker'', ''active'', ''ready''] = Some 2"
proof -
  let ?nodes = "[state_node ''worker'' ''active'' ''ready'', state_node ''manager'' ''drain'' ''down'', state_node ''worker'' ''active'' ''ready'']"
  have "sf_desc nodes_by_state_new = nodes_by_state_desc" by (simp add: nodes_by_state_new_def sf_new_def)
  from nodes_by_state_published [OF this, of ?nodes]
  obtain series where s: "sc_current (sf_collector (update_from_slice ?nodes nodes_by_state_new)) = Some [\<lparr>bf_desc = nodes_by_state_desc, bf_series = series\<rparr>]"
    "\<forall>r a s. map_of series [r, a, s] =
       (let n = length (filter (\<lambda>n. node_key n = (r, a, s)) ?nodes) in if n = 0 then None else Some (int n))"
    by auto
  have two: "length (filter (\<lambda>n. node_key n = (''worker'', ''active'', ''ready'')) ?nodes) = 2"
    by (simp add: node_key_def state_node_def)
  have "map_of series [''worker'', ''active'', ''ready''] =
      (let n = length (filter (\<lambda>n. node_key n = (''worker'', ''active'', ''ready'')) ?nodes) in if n = 0 then None else Some (int n))"
    using s(2) by blast
  then have "map_of series [''worker'', ''active'', ''ready''] = Some 2" unfolding two by simp
  with s(1) show ?thesis by blast
qed

end
