(* ===== verification/Replicas_State.thy ===== *)
theory Replicas_State
  imports Service_Update
begin

text \<open>
  \<^verbatim>\<open>src/src/collector/poll_snapshot.rs\<close> and \<^verbatim>\<open>src/src/collector/replicas_state.rs\<close>: the snapshot a poll
  counts against, the choice of the current task per slot or node, the counters of a poll and the
  three families published from them. The task list is an argument: what the Docker call returned,
  or its error.
\<close>

section \<open>The polling snapshot\<close>

record poll_service =
  ps_generation :: nat
  ps_metadata :: service_metadata
  ps_labels :: "(string, string) btree"

definition poll_service_new :: "nat \<Rightarrow> service_metadata \<Rightarrow> poll_service" where
  "poll_service_new generation md =
     \<lparr>ps_generation = generation, ps_metadata = md, ps_labels = labels_for_metadata md\<rparr>"

record poll_snapshot =
  sn_services :: "(string, poll_service) hmap"
  sn_nodes :: "node list"
  sn_node_generation :: nat
  sn_epoch :: nat

definition service_ids :: "poll_snapshot \<Rightarrow> string list" where
  "service_ids snapshot = sort (hkeys (sn_services snapshot))"

section \<open>The current task\<close>

definition KNOWN_TASK_STATES :: "string list" where
  "KNOWN_TASK_STATES = [''new'', ''allocated'', ''pending'', ''assigned'', ''accepted'', ''preparing'', ''ready'',
     ''starting'', ''running'', ''complete'', ''shutdown'', ''failed'', ''rejected'', ''remove'', ''orphaned'']"

definition TASK_STATE_RUNNING :: string where "TASK_STATE_RUNNING = ''running''"
definition TASK_STATE_COMPLETE :: string where "TASK_STATE_COMPLETE = ''complete''"

definition RETIRED_DESIRED_STATES :: "string list" where
  "RETIRED_DESIRED_STATES = [''shutdown'', ''failed'', ''rejected'', ''remove'', ''orphaned'']"

definition STOPPED_TASK_STATES :: "string list" where
  "STOPPED_TASK_STATES = [''complete'', ''shutdown'', ''failed'', ''rejected'', ''remove'', ''orphaned'']"

abbreviation task_state :: "task \<Rightarrow> string" where
  "task_state t \<equiv> tst_state (tk_status t)"

definition retired_task :: "task \<Rightarrow> bool" where
  "retired_task t \<longleftrightarrow> tk_desired_state t \<in> set RETIRED_DESIRED_STATES"

definition retired_not_stopped :: "task \<Rightarrow> bool" where
  "retired_not_stopped t \<longleftrightarrow> retired_task t \<and> task_state t \<notin> set STOPPED_TASK_STATES"

definition newer_than :: "task \<Rightarrow> task \<Rightarrow> bool" where
  "newer_than candidate current =
     (if tk_created_at candidate \<noteq> tk_created_at current then tk_created_at candidate > tk_created_at current
      else let candidate_status = tst_timestamp (tk_status candidate);
               current_status = tst_timestamp (tk_status current) in
           if \<not> is_zero candidate_status \<and> \<not> is_zero current_status then candidate_status > current_status
           else tk_version candidate > tk_version current)"

definition preferred_task :: "task \<Rightarrow> task \<Rightarrow> bool" where
  "preferred_task candidate current =
     (let candidate_retired = retired_task candidate in
      if candidate_retired \<noteq> retired_task current then \<not> candidate_retired
      else let candidate_running = (task_state candidate = TASK_STATE_RUNNING) in
           if candidate_running \<noteq> (task_state current = TASK_STATE_RUNNING) then candidate_running
           else newer_than candidate current)"

record latest_key =
  lk_service_id :: string
  lk_slot :: int
  lk_node_id :: string

definition dedupe_key_for_task :: "task \<Rightarrow> service_metadata \<Rightarrow> latest_key option" where
  "dedupe_key_for_task t md =
     (if is_job_mode (sm_service_mode md)
         \<and> (case tk_job_iteration t of None \<Rightarrow> True | Some i \<Rightarrow> i \<noteq> sm_job_iteration md)
      then None
      else let mode = sm_service_mode md in
           if mode = SERVICE_MODE_REPLICATED \<or> mode = SERVICE_MODE_REPLICATED_JOB
           then Some \<lparr>lk_service_id = tk_service_id t, lk_slot = tk_slot t, lk_node_id = []\<rparr>
           else Some \<lparr>lk_service_id = tk_service_id t, lk_slot = 0, lk_node_id = tk_node_id t\<rparr>)"

section \<open>The counters\<close>

record task_counter =
  tc_states :: "(string, int) hmap"
  tc_labels :: "(string, string) btree"
  tc_wanted :: int
  tc_wanted_complete :: int
  tc_eligible_nodes_covered :: bool
  tc_desired :: int
  tc_desired_known :: bool

definition task_counter_new :: "(string, string) btree \<Rightarrow> task_counter" where
  "task_counter_new labels =
     \<lparr>tc_states = [], tc_labels = labels, tc_wanted = 0, tc_wanted_complete = 0,
      tc_eligible_nodes_covered = False, tc_desired = 0, tc_desired_known = False\<rparr>"

definition for_service :: "poll_service \<Rightarrow> task_counter" where
  "for_service service =
     (task_counter_new (ps_labels service))
       \<lparr>tc_desired := sm_desired_replicas (ps_metadata service), tc_desired_known := True\<rparr>"

definition tc_inc :: "string \<Rightarrow> task_counter \<Rightarrow> task_counter" where
  "tc_inc state c =
     c\<lparr>tc_states := hput state (f64_add (unwrap_or (hget (tc_states c) state) 0) 1) (tc_states c)\<rparr>"

definition tc_state :: "task_counter \<Rightarrow> string \<Rightarrow> int" where
  "tc_state c state = unwrap_or (hget (tc_states c) state) 0"

definition tc_mode :: "task_counter \<Rightarrow> string" where
  "tc_mode c = unwrap_or (map_of (tc_labels c) LABEL_SERVICE_MODE) []"

type_synonym service_counter = "(string, task_counter) hmap"

definition counter_for :: "service_counter \<Rightarrow> string \<Rightarrow> poll_service \<Rightarrow> task_counter" where
  "counter_for counters service_id service = unwrap_or (hget counters service_id) (for_service service)"

text \<open>The nodes a global job completed on, per service.\<close>

type_synonym completed_nodes = "(string, string list) hmap"

definition count_wanted :: "task \<Rightarrow> task_counter \<Rightarrow> completed_nodes \<Rightarrow> task_counter \<times> completed_nodes" where
  "count_wanted t counter completed =
     (if retired_task t then (counter, completed)
      else let counter = counter\<lparr>tc_wanted := f64_add (tc_wanted counter) 1\<rparr> in
           if task_state t \<noteq> TASK_STATE_COMPLETE then (counter, completed)
           else let counter = counter\<lparr>tc_wanted_complete := f64_add (tc_wanted_complete counter) 1\<rparr> in
                (counter,
                 if tc_mode counter = SERVICE_MODE_GLOBAL_JOB
                 then hput (tk_service_id t)
                        (List.insert (tk_node_id t) (unwrap_or (hget completed (tk_service_id t)) [])) completed
                 else completed))"

text \<open>Step 1: the current task per key.\<close>

definition latest_step :: "poll_snapshot \<Rightarrow> task \<Rightarrow> (latest_key, task) hmap \<Rightarrow> (latest_key, task) hmap" where
  "latest_step snapshot t latest =
     (case hget (sn_services snapshot) (tk_service_id t) of
        None \<Rightarrow> latest
      | Some service \<Rightarrow>
          if retired_not_stopped t then latest
          else case dedupe_key_for_task t (ps_metadata service) of
                 None \<Rightarrow> latest
               | Some key \<Rightarrow>
                   if (case hget latest key of None \<Rightarrow> True | Some previous \<Rightarrow> preferred_task t previous)
                   then hput key t latest else latest)"

definition latest_tasks :: "poll_snapshot \<Rightarrow> task list \<Rightarrow> (latest_key, task) hmap" where
  "latest_tasks snapshot tasks = fold (latest_step snapshot) tasks []"

text \<open>Step 2: the chosen tasks per service, by state.\<close>

definition count_step :: "poll_snapshot \<Rightarrow> latest_key \<times> task \<Rightarrow> service_counter \<times> completed_nodes
    \<Rightarrow> service_counter \<times> completed_nodes" where
  "count_step snapshot kt st =
     (let (key, t) = kt; (counters, completed) = st in
      case hget (sn_services snapshot) (lk_service_id key) of
        None \<Rightarrow> (counters, completed)
      | Some service \<Rightarrow>
          let counter = tc_inc (task_state t) (counter_for counters (lk_service_id key) service);
              (counter, completed) = count_wanted t counter completed
          in (hput (lk_service_id key) counter counters, completed))"

definition eligible_nodes_covered :: "extern \<Rightarrow> node list \<Rightarrow> placement option \<Rightarrow> string list \<Rightarrow> bool" where
  "eligible_nodes_covered E nodes placement completed \<longleftrightarrow>
     nodes \<noteq> []
     \<and> list_all (\<lambda>n. node_id n \<in> set completed) (filter (\<lambda>n. node_eligible E (Some n) placement) nodes)"

definition mark_eligible_nodes_covered :: "extern \<Rightarrow> completed_nodes \<Rightarrow> poll_snapshot \<Rightarrow> service_counter \<Rightarrow> service_counter" where
  "mark_eligible_nodes_covered E completed snapshot counters =
     map (\<lambda>(service_id, counter).
       (service_id,
        if tc_mode counter \<noteq> SERVICE_MODE_GLOBAL_JOB then counter
        else let placement = Option.bind (hget (sn_services snapshot) service_id)
                   (\<lambda>service. placement_from_metadata (ps_metadata service))
             in counter\<lparr>tc_eligible_nodes_covered := eligible_nodes_covered E (sn_nodes snapshot) placement
                   (unwrap_or (hget completed service_id) [])\<rparr>)) counters"

definition add_services_without_tasks :: "string list \<Rightarrow> poll_snapshot \<Rightarrow> service_counter \<Rightarrow> service_counter" where
  "add_services_without_tasks ids snapshot counters =
     fold (\<lambda>service_id counters.
       if hhas counters service_id then counters
       else case hget (sn_services snapshot) service_id of
              None \<Rightarrow> counters
            | Some service \<Rightarrow> hput service_id (for_service service) counters) ids counters"

definition poll_replicas_state :: "extern \<Rightarrow> 'e + task list \<Rightarrow> poll_snapshot \<Rightarrow> 'e + service_counter" where
  "poll_replicas_state E listed snapshot =
     (let ids = service_ids snapshot in
      if ids = [] then Inr []
      else case listed of
             Inl e \<Rightarrow> Inl e
           | Inr tasks \<Rightarrow>
               let (counters, completed) = fold (count_step snapshot) (latest_tasks snapshot tasks) ([], [])
               in Inr (add_services_without_tasks ids snapshot
                         (mark_eligible_nodes_covered E completed snapshot counters)))"

section \<open>The published families\<close>

definition job_at_desired :: "string \<Rightarrow> task_counter \<Rightarrow> int \<Rightarrow> bool" where
  "job_at_desired mode counter desired =
     (let all_wanted_complete = (tc_wanted_complete counter = tc_wanted counter) in
      if mode = SERVICE_MODE_REPLICATED_JOB
      then all_wanted_complete \<and> tc_wanted_complete counter \<ge> desired
      else tc_wanted counter > 0 \<and> all_wanted_complete \<and> tc_eligible_nodes_covered counter)"

text \<open>The key of a logged mismatch: the numbers of its text, with the job's three more.\<close>

type_synonym mismatch_key = "int \<times> int \<times> (int \<times> int \<times> bool) option"

record replicas_state =
  rs_collector :: snapshot_collector
  rs_state_desc :: desc
  rs_running_desc :: desc
  rs_at_desired_desc :: desc
  rs_mismatch_logged :: "(string, mismatch_key) hmap"

definition state_label_names :: "custom_label list \<Rightarrow> string list" where
  "state_label_names cls =
     [LABEL_STACK, LABEL_SERVICE, LABEL_SERVICE_MODE, LABEL_DISPLAY_NAME] @ [LABEL_STATE] @ sanitized_names cls"

definition REPLICAS_STATE_HELP :: string where
  "REPLICAS_STATE_HELP = ''Number of tasks per Swarm service segmented by task state (current task per slot for replicated services and replicated jobs or node for global services and global jobs; jobs count only their current iteration).''"

definition RUNNING_REPLICAS_HELP :: string where
  "RUNNING_REPLICAS_HELP = ''Current number of running tasks per Swarm service (current task per slot for replicated services and replicated jobs or node for global services and global jobs; jobs count only their current iteration).''"

definition AT_DESIRED_HELP :: string where
  "AT_DESIRED_HELP = ''Service is at desired replicas (1) or not (0). Jobs are at desired once finished: every task of the current iteration completed.''"

definition replicas_state_new :: "custom_label list \<Rightarrow> replicas_state" where
  "replicas_state_new cls =
     (let names = (\<lambda>with_state. sanitize_label_names (if with_state then state_label_names cls else base_label_names cls));
          state_desc = \<lparr>desc_name = ''swarm_task_replicas_state'', desc_help = REPLICAS_STATE_HELP, desc_label_names = names True\<rparr>;
          running_desc = \<lparr>desc_name = ''swarm_service_running_replicas'', desc_help = RUNNING_REPLICAS_HELP, desc_label_names = names False\<rparr>;
          at_desired_desc = \<lparr>desc_name = ''swarm_service_at_desired'', desc_help = AT_DESIRED_HELP, desc_label_names = names False\<rparr>
      in \<lparr>rs_collector = sc_new [state_desc, running_desc, at_desired_desc], rs_state_desc = state_desc,
          rs_running_desc = running_desc, rs_at_desired_desc = at_desired_desc, rs_mismatch_logged = []\<rparr>)"

definition log_mismatch_once_per_change :: "string \<Rightarrow> (string, string) btree \<Rightarrow> int \<Rightarrow> int \<Rightarrow> task_counter
    \<Rightarrow> (string, mismatch_key) hmap \<Rightarrow> (string, mismatch_key) hmap" where
  "log_mismatch_once_per_change service_id base running desired counter logged =
     (let mode = unwrap_or (map_of base LABEL_SERVICE_MODE) [];
          key = (running, desired,
                 if is_job_mode mode
                 then Some (tc_wanted counter, tc_wanted_complete counter, tc_eligible_nodes_covered counter) else None)
      in if hget logged service_id = Some key then logged
         else if hhas logged service_id then logged
         else hput service_id key logged)"

definition at_desired :: "string \<Rightarrow> (string, string) btree \<Rightarrow> task_counter \<Rightarrow> (string, mismatch_key) hmap
    \<Rightarrow> int \<times> (string, mismatch_key) hmap" where
  "at_desired service_id base counter logged =
     (let running = tc_state counter TASK_STATE_RUNNING in
      if \<not> tc_desired_known counter then (0, logged)
      else let mode = unwrap_or (map_of base LABEL_SERVICE_MODE) [];
               desired = tc_desired counter;
               reached = (if is_job_mode mode then job_at_desired mode counter desired else running = desired)
           in if reached then (1, logged)
              else (0, log_mismatch_once_per_change service_id base running desired counter logged))"

definition rs_build_service :: "replicas_state \<Rightarrow> string \<times> task_counter \<Rightarrow> snapshot_builder \<times> (string, mismatch_key) hmap
    \<Rightarrow> snapshot_builder \<times> (string, mismatch_key) hmap" where
  "rs_build_service rs sc st =
     (let (service_id, counter) = sc; (builder, logged) = st;
          base = sanitize_metric_labels (tc_labels counter);
          builder = fold (\<lambda>state. sb_set (rs_state_desc rs) (bt_insert LABEL_STATE state base) (tc_state counter state))
                      KNOWN_TASK_STATES builder;
          builder = sb_set (rs_running_desc rs) base (tc_state counter TASK_STATE_RUNNING) builder;
          (value, logged) = at_desired service_id base counter logged
      in (sb_set (rs_at_desired_desc rs) base value builder, logged))"

definition rs_build :: "service_counter \<Rightarrow> replicas_state \<Rightarrow> snapshot_builder \<times> replicas_state" where
  "rs_build counters rs =
     (let (builder, logged) = fold (rs_build_service rs) counters (sb_new, rs_mismatch_logged rs)
      in (builder, rs\<lparr>rs_mismatch_logged := logged\<rparr>))"

definition rs_update :: "service_counter \<Rightarrow> replicas_state \<Rightarrow> (build_error, replicas_state) outcome" where
  "rs_update counters rs =
     (let (builder, rs) = rs_build counters rs in
      case sb_build builder of
        Inl e \<Rightarrow> Stopped e rs
      | Inr families \<Rightarrow> Done (rs\<lparr>rs_collector := sc_publish (rs_collector rs) families\<rparr>))"

definition forget_service :: "string \<Rightarrow> replicas_state \<Rightarrow> replicas_state" where
  "forget_service service_id rs = rs\<lparr>rs_mismatch_logged := hdel service_id (rs_mismatch_logged rs)\<rparr>"

end
