(* ===== verification/Task_Choice.thy ===== *)
theory Task_Choice
  imports Replicas_State
begin

text \<open>
  The choice of the current task per key. The interface \<open>preference\<close> states when keeping the first
  task that nothing later beats is well defined: the relation is a strict weak order. It is
  interpreted twice on \<open>preferred_task\<close>, for tasks that all report a status time and for tasks
  that report none; across the two kinds the relation is not transitive, and the list order decides.
\<close>

section \<open>Picking by preference\<close>

fun pick :: "('a \<Rightarrow> 'a \<Rightarrow> bool) \<Rightarrow> 'a list \<Rightarrow> 'a option" where
  "pick pref [] = None"
| "pick pref (x # xs) = Some (fold (\<lambda>y acc. if pref y acc then y else acc) xs x)"

lemma pick_snoc:
  "pick pref (xs @ [y]) = (case pick pref xs of None \<Rightarrow> Some y | Some acc \<Rightarrow> Some (if pref y acc then y else acc))"
  by (cases xs) simp_all

lemma pick_mem: "pick pref xs = Some x \<Longrightarrow> x \<in> set xs"
proof (induction xs arbitrary: x rule: rev_induct)
  case (snoc y xs)
  then show ?case by (auto simp: pick_snoc split: option.splits if_splits)
qed simp

lemma pick_None: "pick pref xs = None \<longleftrightarrow> xs = []"
  by (cases xs) simp_all

locale preference =
  fixes pref :: "'a \<Rightarrow> 'a \<Rightarrow> bool" and carrier :: "'a \<Rightarrow> bool"
  assumes asym: "carrier a \<Longrightarrow> carrier b \<Longrightarrow> pref a b \<Longrightarrow> \<not> pref b a"
    and negtrans: "carrier a \<Longrightarrow> carrier b \<Longrightarrow> carrier c \<Longrightarrow> pref a c \<Longrightarrow> pref a b \<or> pref b c"
begin

lemma irrefl: "carrier a \<Longrightarrow> \<not> pref a a"
  using asym by blast

lemma trans: "carrier a \<Longrightarrow> carrier b \<Longrightarrow> carrier c \<Longrightarrow> pref a b \<Longrightarrow> pref b c \<Longrightarrow> pref a c"
  using asym negtrans by blast

text \<open>Nothing in the list beats the task picked.\<close>

lemma pick_maximal:
  "pick pref xs = Some x \<Longrightarrow> \<forall>y \<in> set xs. carrier y \<Longrightarrow> y \<in> set xs \<Longrightarrow> \<not> pref y x"
proof (induction xs arbitrary: x y rule: rev_induct)
  case (snoc z xs)
  show ?case
  proof (cases "pick pref xs")
    case None
    then show ?thesis using snoc.prems irrefl by (auto simp: pick_snoc pick_None)
  next
    case (Some acc)
    have acc: "carrier acc" "carrier z" "carrier y"
      using pick_mem [OF Some] snoc.prems(2,3) by auto
    have best: "y \<in> set xs \<Longrightarrow> \<not> pref y acc" using snoc.IH [OF Some] snoc.prems(2) by auto
    have x: "x = (if pref z acc then z else acc)" using snoc.prems(1) Some by (simp add: pick_snoc)
    show ?thesis
    proof (cases "pref z acc")
      case True
      then show ?thesis using x acc best snoc.prems(3) asym irrefl trans by (metis Un_iff empty_iff empty_set set_ConsD set_append)
    next
      case False
      then show ?thesis using x best snoc.prems(3) by auto
    qed
  qed
qed simp

text \<open>Two orders of the same tasks pick tasks that neither beats: the same one when no two tie.\<close>

lemma pick_order:
  assumes "set xs = set ys" and "\<forall>y \<in> set xs. carrier y" and "pick pref xs = Some x" and "pick pref ys = Some y"
  shows "\<not> pref x y \<and> \<not> pref y x"
  using assms pick_maximal pick_mem by metis

lemma pick_order_unique:
  assumes "set xs = set ys" and "\<forall>y \<in> set xs. carrier y"
    and "\<forall>a \<in> set xs. \<forall>b \<in> set xs. a \<noteq> b \<longrightarrow> pref a b \<or> pref b a"
  shows "pick pref xs = pick pref ys"
proof (cases "pick pref xs")
  case None
  then show ?thesis using assms(1) pick_None by (metis empty_set set_empty)
next
  case (Some x)
  then obtain y where y: "pick pref ys = Some y"
    using assms(1) pick_None by (metis empty_iff empty_set option.exhaust pick_mem)
  then have "\<not> pref x y \<and> \<not> pref y x" by (rule pick_order [OF assms(1,2) Some])
  moreover have "x \<in> set xs" "y \<in> set xs" using pick_mem Some y assms(1) by metis+
  ultimately show ?thesis using assms(3) Some y by metis
qed

end

section \<open>The preference of the exporter\<close>

definition dated :: "task \<Rightarrow> bool" where
  "dated t \<longleftrightarrow> \<not> is_zero (tst_timestamp (tk_status t))"

lemma newer_than_asym: "newer_than a b \<Longrightarrow> \<not> newer_than b a"
  by (auto simp: newer_than_def Let_def split: if_splits)

lemma newer_than_negtrans:
  "dated a = dated b \<Longrightarrow> dated b = dated c \<Longrightarrow> newer_than a c \<Longrightarrow> newer_than a b \<or> newer_than b c"
  by (cases "dated c") (auto simp: newer_than_def dated_def [symmetric] Let_def split: if_splits)

text \<open>The two rules before the age are total preorders, so they pass both laws on.\<close>

lemma preferred_task_rank:
  "preferred_task a b \<longleftrightarrow>
     (\<not> retired_task a \<and> retired_task b)
     \<or> (retired_task a = retired_task b \<and> task_state a = TASK_STATE_RUNNING \<and> task_state b \<noteq> TASK_STATE_RUNNING)
     \<or> (retired_task a = retired_task b \<and> (task_state a = TASK_STATE_RUNNING) = (task_state b = TASK_STATE_RUNNING) \<and> newer_than a b)"
  by (simp add: preferred_task_def Let_def)

lemma preferred_task_asym: "preferred_task a b \<Longrightarrow> \<not> preferred_task b a"
  using newer_than_asym [of a b] by (auto simp: preferred_task_rank)

lemma preferred_task_negtrans:
  assumes "dated a = dated b" and "dated b = dated c" and "preferred_task a c"
  shows "preferred_task a b \<or> preferred_task b c"
  using newer_than_negtrans [OF assms(1,2)] assms(3) unfolding preferred_task_rank by blast

interpretation dated: preference preferred_task dated
  by (unfold_locales; metis preferred_task_asym preferred_task_negtrans)

interpretation undated: preference preferred_task "\<lambda>t. \<not> dated t"
  by (unfold_locales; metis preferred_task_asym preferred_task_negtrans)

section \<open>The task kept per key\<close>

text \<open>The key a listed task is counted under, if it is counted.\<close>

definition task_key :: "poll_snapshot \<Rightarrow> task \<Rightarrow> latest_key option" where
  "task_key snapshot t =
     (case hget (sn_services snapshot) (tk_service_id t) of
        None \<Rightarrow> None
      | Some service \<Rightarrow> if retired_not_stopped t then None else dedupe_key_for_task t (ps_metadata service))"

definition candidates :: "poll_snapshot \<Rightarrow> task list \<Rightarrow> latest_key \<Rightarrow> task list" where
  "candidates snapshot tasks key = filter (\<lambda>t. task_key snapshot t = Some key) tasks"

lemma latest_step_key:
  "latest_step snapshot t latest =
     (case task_key snapshot t of
        None \<Rightarrow> latest
      | Some key \<Rightarrow>
          if (case hget latest key of None \<Rightarrow> True | Some previous \<Rightarrow> preferred_task t previous)
          then hput key t latest else latest)"
  by (simp add: latest_step_def task_key_def split: option.split)

lemma latest_tasks_ok: "hmap_ok (latest_tasks snapshot tasks)"
  by (induction tasks rule: rev_induct)
     (auto simp: latest_tasks_def latest_step_key split: option.split)

lemma latest_tasks_pick:
  "hget (latest_tasks snapshot tasks) key = pick preferred_task (candidates snapshot tasks key)"
proof (induction tasks arbitrary: key rule: rev_induct)
  case Nil
  then show ?case by (simp add: latest_tasks_def candidates_def)
next
  case (snoc t tasks)
  have l: "latest_tasks snapshot (tasks @ [t]) = latest_step snapshot t (latest_tasks snapshot tasks)"
    by (simp add: latest_tasks_def)
  have c: "candidates snapshot (tasks @ [t]) key =
      candidates snapshot tasks key @ (if task_key snapshot t = Some key then [t] else [])"
    by (simp add: candidates_def)
  show ?case
    unfolding l c latest_step_key using snoc
    by (cases "task_key snapshot t") (auto simp: pick_snoc update_conv' split: option.splits)
qed

lemma task_key_service: "task_key snapshot t = Some key \<Longrightarrow> lk_service_id key = tk_service_id t"
  by (auto simp: task_key_def dedupe_key_for_task_def Let_def split: option.splits if_splits)

lemma task_key_known: "task_key snapshot t = Some key \<Longrightarrow> hhas (sn_services snapshot) (lk_service_id key)"
  using task_key_service by (fastforce simp: task_key_def hhas_def split: option.splits)

lemma latest_tasks_mem:
  assumes "(key, t) \<in> set (latest_tasks snapshot tasks)"
  shows "t \<in> set tasks" and "task_key snapshot t = Some key"
proof -
  have "hget (latest_tasks snapshot tasks) key = Some t"
    using assms hget_mem_iff [OF latest_tasks_ok] by metis
  then have "t \<in> set (candidates snapshot tasks key)" by (simp add: latest_tasks_pick pick_mem)
  then show "t \<in> set tasks" "task_key snapshot t = Some key" by (simp_all add: candidates_def)
qed

text \<open>The first two rules as a number: wanted counts double, running once.\<close>

definition task_rank :: "task \<Rightarrow> nat" where
  "task_rank t = (if retired_task t then 0 else 2) + (if task_state t = TASK_STATE_RUNNING then 1 else 0)"

lemma preferred_task_rank_le: "preferred_task a b \<Longrightarrow> task_rank b \<le> task_rank a"
  by (auto simp: preferred_task_rank task_rank_def)

lemma not_preferred_rank_le: "\<not> preferred_task a b \<Longrightarrow> task_rank a \<le> task_rank b"
  by (auto simp: preferred_task_rank task_rank_def)

lemma pick_rank:
  "pick preferred_task ts = Some x \<Longrightarrow> y \<in> set ts \<Longrightarrow> task_rank y \<le> task_rank x"
proof (induction ts arbitrary: x y rule: rev_induct)
  case (snoc t ts)
  show ?case
  proof (cases "pick preferred_task ts")
    case None
    then show ?thesis using snoc.prems by (auto simp: pick_snoc pick_None)
  next
    case (Some acc)
    then have x: "x = (if preferred_task t acc then t else acc)" using snoc.prems(1) by (simp add: pick_snoc)
    have "task_rank acc \<le> task_rank x" "task_rank t \<le> task_rank x"
      using x preferred_task_rank_le [of t acc] not_preferred_rank_le [of t acc] by auto
    then show ?thesis using snoc.IH [OF Some] snoc.prems(2) by (auto intro: le_trans)
  qed
qed simp

section \<open>Properties\<close>

text \<open>
  C29: the task counted for a slot or node is one of the listed tasks of that key; it is one Swarm
  still wants whenever the key has such a task, and a running one whenever a wanted task of the key
  runs, whatever the order of the list.
\<close>

theorem current_task_wanted_running:
  assumes "hget (latest_tasks snapshot tasks) key = Some t"
    and "u \<in> set tasks" and "task_key snapshot u = Some key" and "\<not> retired_task u"
  shows "t \<in> set tasks \<and> task_key snapshot t = Some key \<and> \<not> retired_task t
    \<and> (task_state u = TASK_STATE_RUNNING \<longrightarrow> task_state t = TASK_STATE_RUNNING)"
proof -
  have p: "pick preferred_task (candidates snapshot tasks key) = Some t"
    using assms(1) by (simp add: latest_tasks_pick)
  have u: "u \<in> set (candidates snapshot tasks key)" using assms(2,3) by (simp add: candidates_def)
  have "t \<in> set (candidates snapshot tasks key)" by (rule pick_mem [OF p])
  moreover have "task_rank u \<le> task_rank t" by (rule pick_rank [OF p u])
  ultimately show ?thesis
    using assms(4) by (auto simp: candidates_def task_rank_def split: if_splits)
qed

definition mk_task :: "string \<Rightarrow> string \<Rightarrow> timestamp \<Rightarrow> nat \<Rightarrow> task" where
  "mk_task state desired status_time version = \<lparr>tk_version = version, tk_created_at = GoTime 0, tk_service_id = ''s'',
     tk_slot = 1, tk_node_id = ''n'', tk_status = \<lparr>tst_timestamp = GoTime status_time, tst_state = state\<rparr>,
     tk_desired_state = desired, tk_job_iteration = None\<rparr>"

definition one_service :: "string \<Rightarrow> int \<Rightarrow> poll_snapshot" where
  "one_service mode desired =
     \<lparr>sn_services = [(''s'', poll_service_new 1
        \<lparr>sm_stack = [], sm_service = ''s'', sm_service_mode = mode, sm_custom_labels = [],
         sm_desired_replicas = desired, sm_configured_replicas = desired, sm_job_iteration = 0, sm_constraints = [],
         sm_platforms = [], sm_restart_condition_none = False\<rparr>)],
      sn_nodes = [], sn_node_generation = 1, sn_epoch = 1\<rparr>"

definition slot_key :: latest_key where
  "slot_key = \<lparr>lk_service_id = ''s'', lk_slot = 1, lk_node_id = []\<rparr>"

lemma task_key_mk_task:
  "\<not> retired_not_stopped (mk_task st d ts v) \<Longrightarrow>
   task_key (one_service SERVICE_MODE_REPLICATED n) (mk_task st d ts v) = Some slot_key"
  by (simp add: task_key_def one_service_def poll_service_new_def dedupe_key_for_task_def mk_task_def slot_key_def
      is_job_mode_def service_mode_defs)

theorem current_task_wanted_running_witness:
  "hget (latest_tasks (one_service SERVICE_MODE_REPLICATED 1)
       [mk_task ''running'' ''running'' 1 1, mk_task ''failed'' ''shutdown'' 9 9]) slot_key = Some (mk_task ''running'' ''running'' 1 1)
   \<and> \<not> retired_task (mk_task ''running'' ''running'' 1 1)"
proof -
  let ?a = "mk_task ''running'' ''running'' 1 1" and ?b = "mk_task ''failed'' ''shutdown'' 9 9"
  let ?sn = "one_service SERVICE_MODE_REPLICATED 1"
  have r: "\<not> retired_task ?a" "retired_task ?b" "\<not> retired_not_stopped ?a" "\<not> retired_not_stopped ?b"
    by (simp_all add: retired_task_def retired_not_stopped_def mk_task_def RETIRED_DESIRED_STATES_def STOPPED_TASK_STATES_def)
  have k: "task_key ?sn ?a = Some slot_key" "task_key ?sn ?b = Some slot_key" using r(3,4) by (simp_all add: task_key_mk_task)
  have p: "\<not> preferred_task ?b ?a" using r by (simp add: preferred_task_rank)
  have "hget (latest_tasks ?sn [?a, ?b]) slot_key = Some ?a"
    using k p by (simp add: latest_tasks_pick candidates_def)
  with current_task_wanted_running [OF this _ k(1) r(1)] show ?thesis by simp
qed

text \<open>
  The task counted does not depend on the order of Docker's list, as long as the tasks of the
  key either all report a status time or none does, and no two of them tie.
\<close>

theorem current_task_order_independent:
  assumes "set tasks = set tasks'"
    and "(\<forall>t \<in> set (candidates snapshot tasks key). dated t) \<or> (\<forall>t \<in> set (candidates snapshot tasks key). \<not> dated t)"
    and "\<forall>a \<in> set (candidates snapshot tasks key). \<forall>b \<in> set (candidates snapshot tasks key).
           a \<noteq> b \<longrightarrow> preferred_task a b \<or> preferred_task b a"
  shows "hget (latest_tasks snapshot tasks) key = hget (latest_tasks snapshot tasks') key"
proof -
  have same: "set (candidates snapshot tasks key) = set (candidates snapshot tasks' key)"
    using assms(1) by (simp add: candidates_def)
  show ?thesis unfolding latest_tasks_pick
    using assms(2) dated.pick_order_unique [OF same _ assms(3)] undated.pick_order_unique [OF same _ assms(3)] by blast
qed

theorem current_task_order_independent_witness:
  "hget (latest_tasks (one_service SERVICE_MODE_REPLICATED 1) [mk_task ''failed'' ''running'' 5 1, mk_task ''pending'' ''running'' 6 2]) slot_key =
   hget (latest_tasks (one_service SERVICE_MODE_REPLICATED 1) [mk_task ''pending'' ''running'' 6 2, mk_task ''failed'' ''running'' 5 1]) slot_key"
proof (rule current_task_order_independent)
  let ?a = "mk_task ''failed'' ''running'' 5 1" and ?b = "mk_task ''pending'' ''running'' 6 2"
  let ?sn = "one_service SERVICE_MODE_REPLICATED 1"
  have r: "\<not> retired_not_stopped ?a" "\<not> retired_not_stopped ?b"
    by (simp_all add: retired_not_stopped_def retired_task_def mk_task_def RETIRED_DESIRED_STATES_def)
  have c: "candidates ?sn [?a, ?b] slot_key = [?a, ?b]" using r by (simp add: candidates_def task_key_mk_task)
  have d: "dated ?a" "dated ?b"
    by (simp_all add: dated_def mk_task_def is_zero_def go_zero_time_def GO_ZERO_SECONDS_def)
  have "preferred_task ?b ?a"
    using d by (simp add: preferred_task_rank newer_than_def dated_def)
       (simp add: mk_task_def retired_task_def TASK_STATE_RUNNING_def RETIRED_DESIRED_STATES_def less_gotime_def)
  then show "\<forall>a \<in> set (candidates ?sn [?a, ?b] slot_key). \<forall>b \<in> set (candidates ?sn [?a, ?b] slot_key).
           a \<noteq> b \<longrightarrow> preferred_task a b \<or> preferred_task b a"
    unfolding c by auto
  show "(\<forall>t \<in> set (candidates ?sn [?a, ?b] slot_key). dated t) \<or> (\<forall>t \<in> set (candidates ?sn [?a, ?b] slot_key). \<not> dated t)"
    unfolding c using d by simp
qed auto


end
