(* ===== verification/Poll_Counts.thy ===== *)
theory Poll_Counts
  imports Task_Choice
begin

text \<open>
  What a poll counts and publishes: every service of the snapshot has a counter with the snapshot's
  labels and desired replicas; its counts are the numbers of chosen tasks per state, over the keys
  of that service; the three families are published together and cannot fail to build.
\<close>

section \<open>Counting the chosen tasks\<close>

definition tasks_of :: "string \<Rightarrow> (latest_key, task) hmap \<Rightarrow> task list" where
  "tasks_of sid latest = map snd (filter (\<lambda>(k, t). lk_service_id k = sid) latest)"

lemma tasks_of_snoc: "tasks_of sid (l @ [(k, t)]) = tasks_of sid l @ (if lk_service_id k = sid then [t] else [])"
  by (simp add: tasks_of_def)

lemma length_tasks_of: "length (tasks_of sid l) \<le> length l"
  by (simp add: tasks_of_def)

definition num :: "('a \<Rightarrow> bool) \<Rightarrow> 'a list \<Rightarrow> nat" where
  "num P xs = length (filter P xs)"

lemma num_simps [simp]: "num P [] = 0" "num P (xs @ [x]) = num P xs + (if P x then 1 else 0)"
  by (simp_all add: num_def)

lemma num_le: "num P xs \<le> length xs"
  by (simp add: num_def)

lemma f64_add_one: "int n + 1 < 2 ^ 53 \<Longrightarrow> f64_add (int n) 1 = int n + 1"
  unfolding f64_add_def by (rule from_int_exact) simp

text \<open>A counter holds the tallies of a list of tasks.\<close>

definition counts :: "poll_service \<Rightarrow> task list \<Rightarrow> task_counter \<Rightarrow> bool" where
  "counts service ts c \<longleftrightarrow>
     tc_labels c = ps_labels service \<and> tc_desired_known c \<and> tc_desired c = sm_desired_replicas (ps_metadata service)
     \<and> hmap_ok (tc_states c)
     \<and> (\<forall>state. tc_state c state = int (num (\<lambda>t. task_state t = state) ts))
     \<and> tc_wanted c = int (num (\<lambda>t. \<not> retired_task t) ts)
     \<and> tc_wanted_complete c = int (num (\<lambda>t. \<not> retired_task t \<and> task_state t = TASK_STATE_COMPLETE) ts)"

lemma counts_new: "counts service [] (for_service service)"
  by (simp add: counts_def for_service_def task_counter_new_def tc_state_def unwrap_or_def)

lemma counts_covered [simp]: "counts service ts (c\<lparr>tc_eligible_nodes_covered := b\<rparr>) = counts service ts c"
  by (simp add: counts_def tc_state_def)

lemma counts_task:
  assumes "counts service ts c" and "Suc (length ts) < 2 ^ 53"
  shows "counts service (ts @ [t]) (fst (count_wanted t (tc_inc (task_state t) c) completed))"
proof -
  have small: "int (num P ts) + 1 < 2 ^ 53" for P using assms(2) num_le [of P ts] by simp
  have inc: "f64_add (int (num P ts)) 1 = int (num P ts) + 1" for P by (rule f64_add_one [OF small])
  let ?c = "tc_inc (task_state t) c"
  have state: "tc_state ?c s = (if s = task_state t then f64_add (tc_state c s) 1 else tc_state c s)" for s
    by (simp add: tc_state_def tc_inc_def unwrap_or_def update_conv')
  have rest: "tc_labels ?c = tc_labels c" "tc_desired_known ?c = tc_desired_known c" "tc_desired ?c = tc_desired c"
    "tc_wanted ?c = tc_wanted c" "tc_wanted_complete ?c = tc_wanted_complete c"
    by (simp_all add: tc_inc_def)
  have ok: "hmap_ok (tc_states c) \<Longrightarrow> hmap_ok (tc_states ?c)" by (simp add: tc_inc_def)
  let ?d = "fst (count_wanted t ?c completed)"
  have d: "tc_labels ?d = tc_labels ?c" "tc_desired_known ?d = tc_desired_known ?c" "tc_desired ?d = tc_desired ?c"
    "tc_states ?d = tc_states ?c" "tc_state ?d s = tc_state ?c s"
    "tc_wanted ?d = (if retired_task t then tc_wanted ?c else f64_add (tc_wanted ?c) 1)"
    "tc_wanted_complete ?d = (if retired_task t \<or> task_state t \<noteq> TASK_STATE_COMPLETE then tc_wanted_complete ?c else f64_add (tc_wanted_complete ?c) 1)" for s
    by (simp_all add: count_wanted_def Let_def tc_state_def)
  show ?thesis
    using assms(1) ok unfolding counts_def d state rest by (auto simp: inc)
qed

definition service_label_mode :: "poll_service \<Rightarrow> string" where
  "service_label_mode service = unwrap_or (map_of (ps_labels service) LABEL_SERVICE_MODE) []"

abbreviation wanted_complete :: "task \<Rightarrow> bool" where
  "wanted_complete t \<equiv> \<not> retired_task t \<and> task_state t = TASK_STATE_COMPLETE"

text \<open>What the second step has established after the chosen tasks \<open>l\<close>.\<close>

definition counted :: "poll_snapshot \<Rightarrow> (latest_key, task) hmap \<Rightarrow> service_counter \<times> completed_nodes \<Rightarrow> bool" where
  "counted snapshot l st \<longleftrightarrow>
     hmap_ok (fst st)
     \<and> (\<forall>sid service. hget (sn_services snapshot) sid = Some service \<longrightarrow>
          (case hget (fst st) sid of
             None \<Rightarrow> tasks_of sid l = []
           | Some c \<Rightarrow> tasks_of sid l \<noteq> [] \<and> counts service (tasks_of sid l) c \<and> \<not> tc_eligible_nodes_covered c)
          \<and> (service_label_mode service = SERVICE_MODE_GLOBAL_JOB \<longrightarrow>
               set (unwrap_or (hget (snd st) sid) []) = tk_node_id ` set (filter wanted_complete (tasks_of sid l))))
     \<and> set (hkeys (fst st)) \<subseteq> set (hkeys (sn_services snapshot))"

lemma counts_mode: "counts service ts c \<Longrightarrow> tc_mode c = service_label_mode service"
  by (simp add: counts_def tc_mode_def service_label_mode_def)

lemma count_wanted_mode: "tc_mode (fst (count_wanted t c cn)) = tc_mode c"
  by (simp add: count_wanted_def tc_mode_def Let_def)

lemma count_wanted_covered [simp]:
  "tc_eligible_nodes_covered (fst (count_wanted t c cn)) = tc_eligible_nodes_covered c"
  by (simp add: count_wanted_def Let_def)

lemma tc_inc_other [simp]: "tc_mode (tc_inc st c) = tc_mode c" "tc_eligible_nodes_covered (tc_inc st c) = tc_eligible_nodes_covered c"
  by (simp_all add: tc_inc_def tc_mode_def)

lemma count_wanted_completed:
  "snd (count_wanted t c cn) =
     (if wanted_complete t \<and> tc_mode c = SERVICE_MODE_GLOBAL_JOB
      then hput (tk_service_id t) (List.insert (tk_node_id t) (unwrap_or (hget cn (tk_service_id t)) [])) cn else cn)"
  by (simp add: count_wanted_def Let_def tc_mode_def)

lemma for_service_covered [simp]: "\<not> tc_eligible_nodes_covered (for_service service)"
  by (simp add: for_service_def task_counter_new_def)

lemma counted_step:
  assumes "counted snapshot l st" and "lk_service_id k = tk_service_id t"
    and "hget (sn_services snapshot) (lk_service_id k) = Some service" and "Suc (length l) < 2 ^ 53"
  shows "counted snapshot (l @ [(k, t)]) (count_step snapshot (k, t) st)"
proof -
  obtain counters cn where st: "st = (counters, cn)" by (cases st)
  let ?sid = "lk_service_id k"
  let ?c0 = "tc_inc (task_state t) (counter_for counters ?sid service)"
  let ?r = "count_wanted t ?c0 cn"
  have step: "count_step snapshot (k, t) st = (hput ?sid (fst ?r) counters, snd ?r)"
    using assms(3) by (simp add: count_step_def st split_def Let_def)
  have ok: "hmap_ok counters" using assms(1) by (simp add: counted_def st)
  have base: "counts service (tasks_of ?sid l) (counter_for counters ?sid service)"
    and cov: "\<not> tc_eligible_nodes_covered (counter_for counters ?sid service)"
  proof -
    have "case hget counters ?sid of None \<Rightarrow> tasks_of ?sid l = []
        | Some c \<Rightarrow> tasks_of ?sid l \<noteq> [] \<and> counts service (tasks_of ?sid l) c \<and> \<not> tc_eligible_nodes_covered c"
      using assms(1,3) by (simp add: counted_def st)
    then show "counts service (tasks_of ?sid l) (counter_for counters ?sid service)"
      "\<not> tc_eligible_nodes_covered (counter_for counters ?sid service)"
      using counts_new [of service] by (auto simp: counter_for_def unwrap_or_def split: option.splits)
  qed
  have small: "Suc (length (tasks_of ?sid l)) < 2 ^ 53"
    using assms(4) length_tasks_of [of ?sid l] by linarith
  have new: "counts service (tasks_of ?sid l @ [t]) (fst ?r)" by (rule counts_task [OF base small])
  note mode = counts_mode [OF base]
  have completed: "set (unwrap_or (hget (snd ?r) sid) []) =
      set (unwrap_or (hget cn sid) []) \<union> (if sid = ?sid \<and> wanted_complete t then {tk_node_id t} else {})"
    if "service_label_mode s' = SERVICE_MODE_GLOBAL_JOB" "hget (sn_services snapshot) sid = Some s'" for sid s'
    using that assms(2,3) mode by (auto simp: count_wanted_completed update_conv' unwrap_or_def split: option.splits)
  show ?thesis
    unfolding counted_def step
  proof (intro conjI allI impI)
    show "hmap_ok (fst (hput ?sid (fst ?r) counters, snd ?r))" using ok by simp
    show "set (hkeys (fst (hput ?sid (fst ?r) counters, snd ?r))) \<subseteq> set (hkeys (sn_services snapshot))"
    proof -
      have "set (hkeys counters) \<subseteq> set (hkeys (sn_services snapshot))" using assms(1) by (simp add: counted_def st)
      then show ?thesis
        using hkeys_hput [of ?sid "fst ?r" counters] hget_Some_mem [OF assms(3)] by (simp only: fst_conv) blast
    qed
  next
    fix sid s'
    assume s': "hget (sn_services snapshot) sid = Some s'"
    show "case hget (fst (hput ?sid (fst ?r) counters, snd ?r)) sid of None \<Rightarrow> tasks_of sid (l @ [(k, t)]) = []
        | Some c \<Rightarrow> tasks_of sid (l @ [(k, t)]) \<noteq> [] \<and> counts s' (tasks_of sid (l @ [(k, t)])) c \<and> \<not> tc_eligible_nodes_covered c"
    proof (cases "sid = ?sid")
      case True
      then show ?thesis using assms(3) new s' cov by (simp add: update_conv' tasks_of_snoc)
    next
      case False
      have "case hget counters sid of None \<Rightarrow> tasks_of sid l = []
        | Some c \<Rightarrow> tasks_of sid l \<noteq> [] \<and> counts s' (tasks_of sid l) c \<and> \<not> tc_eligible_nodes_covered c"
        using assms(1) s' by (simp add: counted_def st)
      moreover have "tasks_of sid (l @ [(k, t)]) = tasks_of sid l" using False by (simp add: tasks_of_snoc)
      ultimately show ?thesis using False by (simp only: fst_conv update_conv' fun_upd_apply if_False)
    qed
    assume gm: "service_label_mode s' = SERVICE_MODE_GLOBAL_JOB"
    then have old: "set (unwrap_or (hget cn sid) []) = tk_node_id ` set (filter wanted_complete (tasks_of sid l))"
      using assms(1) s' by (simp add: counted_def st)
    have "set (unwrap_or (hget (snd (hput ?sid (fst ?r) counters, snd ?r)) sid) []) =
        set (unwrap_or (hget cn sid) []) \<union> (if sid = ?sid \<and> wanted_complete t then {tk_node_id t} else {})"
      using completed [OF gm s'] by simp
    also have "\<dots> = tk_node_id ` set (filter wanted_complete (tasks_of sid (l @ [(k, t)])))"
      unfolding old by (auto simp: tasks_of_snoc)
    finally show "set (unwrap_or (hget (snd (hput ?sid (fst ?r) counters, snd ?r)) sid) []) =
        tk_node_id ` set (filter wanted_complete (tasks_of sid (l @ [(k, t)])))" .
  qed
qed

lemma counted_fold:
  assumes "\<forall>(k, t) \<in> set l. lk_service_id k = tk_service_id t \<and> hhas (sn_services snapshot) (lk_service_id k)"
    and "length l < 2 ^ 53"
  shows "counted snapshot l (fold (count_step snapshot) l ([], []))"
  using assms
proof (induction l rule: rev_induct)
  case Nil
  then show ?case by (simp add: counted_def tasks_of_def unwrap_or_def)
next
  case (snoc kt l)
  obtain k t where kt: "kt = (k, t)" by (cases kt)
  have "lk_service_id k = tk_service_id t" "hhas (sn_services snapshot) (lk_service_id k)"
    using snoc.prems(1) by (auto simp: kt)
  then obtain service where "hget (sn_services snapshot) (lk_service_id k) = Some service" by (auto simp: hhas_def)
  moreover have "counted snapshot l (fold (count_step snapshot) l ([], []))"
    using snoc by (auto simp: kt)
  moreover have "Suc (length l) < 2 ^ 53" using snoc.prems(2) by simp
  ultimately show ?case
    using counted_step \<open>lk_service_id k = tk_service_id t\<close> by (simp add: kt)
qed

section \<open>The result of a poll\<close>

lemma latest_length: "length (latest_tasks snapshot tasks) \<le> length tasks"
proof (induction tasks rule: rev_induct)
  case (snoc t tasks)
  have "latest_tasks snapshot (tasks @ [t]) = latest_step snapshot t (latest_tasks snapshot tasks)"
    by (simp add: latest_tasks_def)
  moreover have "length (latest_step snapshot t l) \<le> Suc (length l)" for l
    by (auto simp: latest_step_key length_hput split: option.split)
  ultimately show ?case using snoc le_trans by fastforce
qed (simp add: latest_tasks_def)

lemma map_of_map_snd: "map_of (map (\<lambda>(k, v). (k, f k v)) m) k = map_option (f k) (map_of m k)"
  by (induction m) auto

lemma hget_mark:
  "hget (mark_eligible_nodes_covered E completed snapshot counters) sid =
     map_option (\<lambda>c. if tc_mode c \<noteq> SERVICE_MODE_GLOBAL_JOB then c
        else c\<lparr>tc_eligible_nodes_covered := eligible_nodes_covered E (sn_nodes snapshot)
               (Option.bind (hget (sn_services snapshot) sid) (\<lambda>service. placement_from_metadata (ps_metadata service)))
               (unwrap_or (hget completed sid) [])\<rparr>) (hget counters sid)"
  unfolding mark_eligible_nodes_covered_def Let_def by (rule map_of_map_snd)

lemma keys_mark: "hkeys (mark_eligible_nodes_covered E completed snapshot counters) = hkeys counters"
  by (simp add: mark_eligible_nodes_covered_def comp_def split_def)

lemma hget_add_services:
  "hget (add_services_without_tasks ids snapshot counters) sid =
     (case hget counters sid of
        Some c \<Rightarrow> Some c
      | None \<Rightarrow> if sid \<in> set ids then map_option for_service (hget (sn_services snapshot) sid) else None)"
proof (induction ids arbitrary: counters)
  case (Cons i ids)
  let ?step = "if hhas counters i then counters
     else case hget (sn_services snapshot) i of None \<Rightarrow> counters | Some service \<Rightarrow> hput i (for_service service) counters"
  have "add_services_without_tasks (i # ids) snapshot counters = add_services_without_tasks ids snapshot ?step"
    by (simp add: add_services_without_tasks_def)
  then show ?case using Cons [of ?step]
    by (auto simp: hhas_def update_conv' split: option.splits)
qed (simp add: add_services_without_tasks_def split: option.split)

lemma hmap_ok_add_services: "hmap_ok counters \<Longrightarrow> hmap_ok (add_services_without_tasks ids snapshot counters)"
  unfolding add_services_without_tasks_def
  by (induction ids arbitrary: counters) (auto split: option.split)

text \<open>The whole poll, per service of the snapshot.\<close>

lemma poll_counts_service:
  assumes "length tasks < 2 ^ 53" and "hget (sn_services snapshot) sid = Some service"
    and "poll_replicas_state E (Inr tasks) snapshot = Inr counters"
  shows "hmap_ok counters \<and> set (hkeys counters) = set (hkeys (sn_services snapshot))"
    and "\<exists>c. hget counters sid = Some c \<and> counts service (tasks_of sid (latest_tasks snapshot tasks)) c
       \<and> tc_eligible_nodes_covered c =
          (tasks_of sid (latest_tasks snapshot tasks) \<noteq> [] \<and> service_label_mode service = SERVICE_MODE_GLOBAL_JOB
           \<and> eligible_nodes_covered E (sn_nodes snapshot) (placement_from_metadata (ps_metadata service))
               (map tk_node_id (filter wanted_complete (tasks_of sid (latest_tasks snapshot tasks)))))"
proof -
  let ?l = "latest_tasks snapshot tasks"
  obtain cs completed where st: "fold (count_step snapshot) ?l ([], []) = (cs, completed)" by (metis surj_pair)
  have "sid \<in> set (service_ids snapshot)" using hget_Some_mem [OF assms(2)] by (simp add: service_ids_def)
  then have nonempty: "service_ids snapshot \<noteq> []" by auto
  then have counters: "counters = add_services_without_tasks (service_ids snapshot) snapshot
      (mark_eligible_nodes_covered E completed snapshot cs)"
    using assms(3) by (simp add: poll_replicas_state_def st)
  have keys: "\<forall>(k, t) \<in> set ?l. lk_service_id k = tk_service_id t \<and> hhas (sn_services snapshot) (lk_service_id k)"
    using latest_tasks_mem(2) task_key_service task_key_known by blast
  have len: "length ?l < 2 ^ 53" using assms(1) latest_length [of snapshot tasks] by linarith
  have inv: "counted snapshot ?l (cs, completed)" using counted_fold [OF keys len] st by simp
  have ids: "set (service_ids snapshot) = set (hkeys (sn_services snapshot))" by (simp add: service_ids_def)
  have ok: "hmap_ok (mark_eligible_nodes_covered E completed snapshot cs)"
    using inv keys_mark [of E completed snapshot cs] by (simp add: counted_def hmap_ok_def)
  have "sid' \<in> set (hkeys counters) \<longleftrightarrow> sid' \<in> set (hkeys (sn_services snapshot))" for sid'
  proof -
    have sub: "hhas cs sid' \<Longrightarrow> hhas (sn_services snapshot) sid'"
      using inv unfolding hhas_iff counted_def by auto
    have mem: "sid' \<in> set (service_ids snapshot) \<longleftrightarrow> hhas (sn_services snapshot) sid'"
      unfolding ids hhas_iff by simp
    have "hhas counters sid' \<longleftrightarrow> hhas (sn_services snapshot) sid'"
      using sub unfolding counters hhas_def hget_add_services hget_mark mem by (auto split: option.splits)
    then show ?thesis unfolding hhas_iff .
  qed
  moreover have "hmap_ok counters" unfolding counters by (rule hmap_ok_add_services [OF ok])
  ultimately show "hmap_ok counters \<and> set (hkeys counters) = set (hkeys (sn_services snapshot))" by blast
  have mem: "sid \<in> set (service_ids snapshot)" unfolding ids by (rule hget_Some_mem [OF assms(2)])
  have per: "case hget cs sid of None \<Rightarrow> tasks_of sid ?l = []
      | Some c \<Rightarrow> tasks_of sid ?l \<noteq> [] \<and> counts service (tasks_of sid ?l) c \<and> \<not> tc_eligible_nodes_covered c"
    and dn: "service_label_mode service = SERVICE_MODE_GLOBAL_JOB \<Longrightarrow>
      set (unwrap_or (hget completed sid) []) = tk_node_id ` set (filter wanted_complete (tasks_of sid ?l))"
    using inv assms(2) by (simp_all add: counted_def)
  have cov: "eligible_nodes_covered E nodes p xs = eligible_nodes_covered E nodes p ys" if "set xs = set ys" for nodes p xs ys
    using that by (simp add: eligible_nodes_covered_def)
  show "\<exists>c. hget counters sid = Some c \<and> counts service (tasks_of sid ?l) c
       \<and> tc_eligible_nodes_covered c = (tasks_of sid ?l \<noteq> [] \<and> service_label_mode service = SERVICE_MODE_GLOBAL_JOB
           \<and> eligible_nodes_covered E (sn_nodes snapshot) (placement_from_metadata (ps_metadata service))
               (map tk_node_id (filter wanted_complete (tasks_of sid ?l))))"
  proof (cases "hget cs sid")
    case None
    then show ?thesis
      using per mem assms(2) counts_new [of service] unfolding counters by (simp add: hget_add_services hget_mark)
  next
    case (Some c)
    then have c: "counts service (tasks_of sid ?l) c" "tasks_of sid ?l \<noteq> []" "\<not> tc_eligible_nodes_covered c"
      using per by simp_all
    have "hget counters sid = Some (if service_label_mode service \<noteq> SERVICE_MODE_GLOBAL_JOB then c
        else c\<lparr>tc_eligible_nodes_covered := eligible_nodes_covered E (sn_nodes snapshot) (placement_from_metadata (ps_metadata service))
             (unwrap_or (hget completed sid) [])\<rparr>)"
      unfolding counters using Some assms(2) counts_mode [OF c(1)] by (simp add: hget_add_services hget_mark)
    moreover have "eligible_nodes_covered E (sn_nodes snapshot) (placement_from_metadata (ps_metadata service)) (unwrap_or (hget completed sid) [])
        = eligible_nodes_covered E (sn_nodes snapshot) (placement_from_metadata (ps_metadata service))
            (map tk_node_id (filter wanted_complete (tasks_of sid ?l)))"
      if "service_label_mode service = SERVICE_MODE_GLOBAL_JOB"
      by (rule cov) (use dn [OF that] in simp)
    ultimately show ?thesis using c by (cases "service_label_mode service = SERVICE_MODE_GLOBAL_JOB") simp_all
  qed
qed

section \<open>Publishing\<close>

lemma fold_hput_distinct:
  "distinct (map fst (m @ l)) \<Longrightarrow> fold (\<lambda>(k, v). hput k v) l m = m @ l"
proof (induction l arbitrary: m)
  case (Cons kv l)
  obtain k v where kv: "kv = (k, v)" by (cases kv)
  have "k \<notin> fst ` set m" using Cons.prems by (auto simp: kv)
  then have "hput k v m = m @ [(k, v)]" by (induction m) auto
  then show ?case using Cons.IH [of "m @ [(k, v)]"] Cons.prems by (simp add: kv)
qed simp

lemma hm_collect_id: "distinct (map fst l) \<Longrightarrow> hm_collect l = l"
  unfolding hm_collect_def using fold_hput_distinct [of "[]" l] by simp

lemma set_error_fits:
  assumes "fits (desc_label_names d) l"
  shows "set_error d l = None"
proof -
  have l: "hm_collect l = l" using assms by (simp add: fits_def hm_collect_id bt_ok_distinct)
  have "set (desc_label_names d) \<subseteq> set (map fst l)" "length l = length (desc_label_names d)"
    using assms by (simp_all add: fits_def)
  moreover from this have "collect_values (\<lambda>missing. MissingLabel (the missing) (desc_label_names d)) l (desc_label_names d) =
      Inr (map (\<lambda>n. the (map_of l n)) (desc_label_names d))"
    unfolding collect_values_Inr by simp
  ultimately show ?thesis by (simp add: set_error_def Let_def l)
qed

text \<open>The key a fitting label set is stored under.\<close>

definition series_key :: "desc \<Rightarrow> (string, string) btree \<Rightarrow> string list" where
  "series_key d l = map (\<lambda>n. the (map_of l n)) (desc_label_names d)"

lemma sb_set_fits:
  "fits (desc_label_names d) l \<Longrightarrow> sb_set d l v b = sb_insert d (series_key d l) v b"
  using sb_set_ok [OF set_error_fits]
  by (simp add: series_key_def fits_def hm_collect_id bt_ok_distinct)

definition rs_descs_ok :: "custom_label list \<Rightarrow> replicas_state \<Rightarrow> bool" where
  "rs_descs_ok cls rs \<longleftrightarrow> rs_state_desc rs = rs_state_desc (replicas_state_new cls)
     \<and> rs_running_desc rs = rs_running_desc (replicas_state_new cls)
     \<and> rs_at_desired_desc rs = rs_at_desired_desc (replicas_state_new cls)
     \<and> sc_descs (rs_collector rs) = [rs_state_desc rs, rs_running_desc rs, rs_at_desired_desc rs] \<and> collector_ok (rs_collector rs)"

lemma rs_descs_ok_new [simp]: "rs_descs_ok cls (replicas_state_new cls)"
  by (simp add: rs_descs_ok_def replicas_state_new_def Let_def) (simp add: sc_new_def)

lemma state_names_valid: "custom_ok cls \<Longrightarrow> list_all is_valid_label_name (state_label_names cls)"
proof -
  have "is_valid_label_name LABEL_STATE" by code_simp
  moreover assume "custom_ok cls"
  ultimately show ?thesis
    using base_label_names_valid [of cls] by (simp add: state_label_names_def base_label_names_def)
qed

lemma rs_desc_names:
  assumes "custom_ok cls" and "rs_descs_ok cls rs"
  shows "desc_label_names (rs_state_desc rs) = state_label_names cls" "desc_name (rs_state_desc rs) = ''swarm_task_replicas_state''"
    "desc_label_names (rs_running_desc rs) = base_label_names cls" "desc_name (rs_running_desc rs) = ''swarm_service_running_replicas''"
    "desc_label_names (rs_at_desired_desc rs) = base_label_names cls" "desc_name (rs_at_desired_desc rs) = ''swarm_service_at_desired''"
  using assms sanitize_names_fixed [OF base_label_names_valid [OF assms(1)]] sanitize_names_fixed [OF state_names_valid [OF assms(1)]]
  by (simp_all add: rs_descs_ok_def replicas_state_new_def Let_def)

text \<open>Whatever an update publishes is of these families.\<close>

lemma rs_descs_ok_update:
  assumes "rs_descs_ok cls rs" and "rs_update counters rs = Done rs'"
  shows "rs_descs_ok cls rs'"
proof -
  let ?ds = "[rs_state_desc rs, rs_running_desc rs, rs_at_desired_desc rs]"
  have n: "distinct (map desc_name ?ds)" using assms(1) by (simp add: rs_descs_ok_def replicas_state_new_def Let_def)
  have states: "builder_ok ?ds (fold (\<lambda>state. sb_set (rs_state_desc rs) (l state) (v state)) xs b)" if "builder_ok ?ds b" for l v xs b
    using that builder_ok_set [OF _ _ n] by (induction xs arbitrary: b) simp_all
  have "builder_ok ?ds (fst (rs_build_service rs sc st))" if "builder_ok ?ds (fst st)" for sc st
    using that by (auto simp: rs_build_service_def Let_def split: prod.splits intro!: builder_ok_set n states)
  then have "builder_ok ?ds (fst (fold (rs_build_service rs) counters st))" if "builder_ok ?ds (fst st)" for st
    using that by (induction counters arbitrary: st) auto
  from this [of "(sb_new, rs_mismatch_logged rs)"] have b: "builder_ok ?ds (fst (rs_build counters rs))"
    by (auto simp: rs_build_def split: prod.splits)
  have s: "\<exists>logged. snd (rs_build counters rs) = rs\<lparr>rs_mismatch_logged := logged\<rparr>" by (auto simp: rs_build_def split_def Let_def)
  then obtain families where "sb_build (fst (rs_build counters rs)) = Inr families"
    and "rs' = snd (rs_build counters rs)\<lparr>rs_collector := sc_publish (rs_collector (snd (rs_build counters rs))) families\<rparr>"
    using assms(2) by (auto simp: rs_update_def split_def Let_def split: sum.splits)
  then show ?thesis using assms(1) s b collector_ok_publish by (auto simp: rs_descs_ok_def)
qed

lemma state_fits:
  assumes "custom_ok cls" and "fits (base_label_names cls) base"
  shows "fits (state_label_names cls) (bt_insert LABEL_STATE state base)"
proof -
  have f: "fits (base_label_names cls @ [LABEL_STATE]) (bt_insert LABEL_STATE state base)"
    using clone_labels_fits [OF assms, of state] by (simp add: clone_labels_with_state_def)
  have "set (state_label_names cls) = set (base_label_names cls @ [LABEL_STATE])"
    "length (state_label_names cls) = length (base_label_names cls @ [LABEL_STATE])"
    by (auto simp: state_label_names_def base_label_names_def)
  then show ?thesis using f by (simp add: fits_def)
qed

lemma sanitize_fits:
  assumes "custom_ok cls" and "fits (base_label_names cls) base"
  shows "sanitize_metric_labels base = base"
proof (rule sanitize_metric_labels_fixed)
  show "list_all is_valid_label_name (map fst base)"
    using assms(2) base_label_names_valid [OF assms(1)] by (simp add: fits_def list_all_iff)
qed (use assms(2) in \<open>simp add: fits_def\<close>)

text \<open>The at-desired value of a counter, apart from what is logged.\<close>

definition at_desired_value :: "task_counter \<Rightarrow> int" where
  "at_desired_value c =
     (let mode = tc_mode c in
      if tc_desired_known c
         \<and> (if is_job_mode mode then job_at_desired mode c (tc_desired c) else tc_state c TASK_STATE_RUNNING = tc_desired c)
      then 1 else 0)"

lemma at_desired_fst: "fst (at_desired sid (tc_labels c) c logged) = at_desired_value c"
  by (simp add: at_desired_def at_desired_value_def tc_mode_def Let_def)

text \<open>What one service writes into the builder.\<close>

definition write_service :: "replicas_state \<Rightarrow> task_counter \<Rightarrow> snapshot_builder \<Rightarrow> snapshot_builder" where
  "write_service rs c b =
     sb_insert (rs_at_desired_desc rs) (series_key (rs_at_desired_desc rs) (tc_labels c)) (at_desired_value c)
       (sb_insert (rs_running_desc rs) (series_key (rs_running_desc rs) (tc_labels c)) (tc_state c TASK_STATE_RUNNING)
         (fold (\<lambda>st. sb_insert (rs_state_desc rs) (series_key (rs_state_desc rs) (bt_insert LABEL_STATE st (tc_labels c))) (tc_state c st))
            KNOWN_TASK_STATES b))"

lemma rs_build_service_write:
  assumes "custom_ok cls" and "rs_descs_ok cls rs" and "fits (base_label_names cls) (tc_labels c)"
  shows "fst (rs_build_service rs (sid, c) (b, logged)) = write_service rs c b"
proof -
  note n = rs_desc_names [OF assms(1,2)]
  have st: "sb_set (rs_state_desc rs) (bt_insert LABEL_STATE x (tc_labels c)) v =
      sb_insert (rs_state_desc rs) (series_key (rs_state_desc rs) (bt_insert LABEL_STATE x (tc_labels c))) v" for x v
    by (intro ext sb_set_fits) (use state_fits [OF assms(1,3)] n(1) in simp)
  have run: "sb_set (rs_running_desc rs) (tc_labels c) v b' = sb_insert (rs_running_desc rs) (series_key (rs_running_desc rs) (tc_labels c)) v b'"
    and at: "sb_set (rs_at_desired_desc rs) (tc_labels c) v b' = sb_insert (rs_at_desired_desc rs) (series_key (rs_at_desired_desc rs) (tc_labels c)) v b'" for v b'
    using sb_set_fits assms(3) n(3,5) by simp_all
  show ?thesis
    using at_desired_fst [of sid c logged] sanitize_fits [OF assms(1,3)]
    by (simp add: rs_build_service_def write_service_def split_def Let_def st run at)
qed

lemma rs_build_write:
  assumes "custom_ok cls" and "rs_descs_ok cls rs" and "\<forall>(sid, c) \<in> set counters. fits (base_label_names cls) (tc_labels c)"
  shows "fst (fold (rs_build_service rs) counters (b, logged)) = fold (\<lambda>(sid, c). write_service rs c) counters b"
  using assms(3)
proof (induction counters arbitrary: b logged)
  case (Cons sc counters)
  obtain sid c where sc: "sc = (sid, c)" by (cases sc)
  have "fits (base_label_names cls) (tc_labels c)" using Cons.prems by (simp add: sc)
  from rs_build_service_write [OF assms(1,2) this]
  have step: "fst (rs_build_service rs (sid, c) (b, logged)) = write_service rs c b" by simp
  obtain b1 l1 where r: "rs_build_service rs (sid, c) (b, logged) = (b1, l1)" by (metis surj_pair)
  show ?case using Cons.IH [of b1 l1] Cons.prems step by (simp add: sc r)
qed simp

lemma sb_error_insert [simp]: "sb_error (sb_insert d k v b) = sb_error b"
  by (simp add: sb_insert_def Let_def)

lemma sb_error_write_service [simp]: "sb_error (write_service rs c b) = sb_error b"
proof -
  have "sb_error (fold (\<lambda>st. sb_insert d (f st) (g st)) xs b) = sb_error b" for d f g and xs :: "string list"
    by (induction xs arbitrary: b) simp_all
  then show ?thesis by (simp add: write_service_def)
qed

lemma sb_error_fold_write: "sb_error (fold (\<lambda>(sid, c). write_service rs c) counters b) = sb_error b"
  by (induction counters arbitrary: b) (auto simp: split_def)

text \<open>The value of one write, and of a whole build where no two services share a label set.\<close>

lemma sb_value_fold_other:
  "name \<noteq> desc_name d \<or> key \<notin> f ` set xs \<Longrightarrow>
   sb_value (fold (\<lambda>st. sb_insert d (f st) (g st)) xs b) name key = sb_value b name key"
  by (induction xs arbitrary: b) (auto simp: sb_value_insert)

lemma sb_value_fold_hit:
  "inj_on f (set xs) \<Longrightarrow> x \<in> set xs \<Longrightarrow>
   sb_value (fold (\<lambda>st. sb_insert d (f st) (g st)) xs b) (desc_name d) (f x) = Some (g x)"
proof (induction xs rule: rev_induct)
  case (snoc y ys)
  show ?case
  proof (cases "x = y")
    case False
    then have "x \<in> set ys" "f x \<noteq> f y" using snoc.prems by (auto simp: inj_on_def)
    moreover have "inj_on f (set ys)" using snoc.prems(1) by (auto simp: inj_on_def)
    ultimately show ?thesis using snoc.IH by (simp add: sb_value_insert)
  qed (simp add: sb_value_insert)
qed simp

definition shown :: "replicas_state \<Rightarrow> task_counter \<Rightarrow> (string \<Rightarrow> string list \<Rightarrow> int option) \<Rightarrow> bool" where
  "shown rs c value \<longleftrightarrow>
     value ''swarm_service_running_replicas'' (series_key (rs_running_desc rs) (tc_labels c)) = Some (tc_state c TASK_STATE_RUNNING)
     \<and> value ''swarm_service_at_desired'' (series_key (rs_at_desired_desc rs) (tc_labels c)) = Some (at_desired_value c)
     \<and> (\<forall>st \<in> set KNOWN_TASK_STATES. value ''swarm_task_replicas_state''
          (series_key (rs_state_desc rs) (bt_insert LABEL_STATE st (tc_labels c))) = Some (tc_state c st))"

lemma series_key_inj:
  "fits (desc_label_names d) l \<Longrightarrow> fits (desc_label_names d) l' \<Longrightarrow> series_key d l = series_key d l' \<longleftrightarrow> l = l'"
  unfolding series_key_def using values_inj by blast

lemma state_key_inj:
  assumes "custom_ok cls" "rs_descs_ok cls rs" "fits (base_label_names cls) l" "fits (base_label_names cls) l'"
  shows "series_key (rs_state_desc rs) (bt_insert LABEL_STATE x l) = series_key (rs_state_desc rs) (bt_insert LABEL_STATE y l')
    \<longleftrightarrow> l = l' \<and> x = y"
proof -
  have "fits (desc_label_names (rs_state_desc rs)) (bt_insert LABEL_STATE x l)"
    "fits (desc_label_names (rs_state_desc rs)) (bt_insert LABEL_STATE y l')"
    using state_fits [OF assms(1)] assms(3,4) rs_desc_names(1) [OF assms(1,2)] by simp_all
  then show ?thesis
    using series_key_inj clone_labels_inj [OF assms(1,3,4), unfolded clone_labels_with_state_def] by metis
qed

lemma shown_write:
  assumes "custom_ok cls" "rs_descs_ok cls rs" "fits (base_label_names cls) (tc_labels c)"
  shows "shown rs c (sb_value (write_service rs c b))"
proof -
  have "inj_on (\<lambda>st. series_key (rs_state_desc rs) (bt_insert LABEL_STATE st (tc_labels c))) (set KNOWN_TASK_STATES)"
    using state_key_inj [OF assms(1,2,3,3)] by (simp add: inj_on_def)
  from sb_value_fold_hit [OF this, of _ "rs_state_desc rs" "tc_state c" b] show ?thesis
    using rs_desc_names(2,4,6) [OF assms(1,2)]
    by (simp add: shown_def write_service_def sb_value_insert)
qed

lemma shown_keep:
  assumes "custom_ok cls" "rs_descs_ok cls rs" "fits (base_label_names cls) (tc_labels c)" "fits (base_label_names cls) (tc_labels c')"
    and "tc_labels c \<noteq> tc_labels c'" and "shown rs c (sb_value b)"
  shows "shown rs c (sb_value (write_service rs c' b))"
proof -
  note n = rs_desc_names [OF assms(1,2)]
  have run: "series_key (rs_running_desc rs) (tc_labels c) \<noteq> series_key (rs_running_desc rs) (tc_labels c')"
    using series_key_inj [of "rs_running_desc rs"] assms(3-5) n(3) by simp
  have at: "series_key (rs_at_desired_desc rs) (tc_labels c) \<noteq> series_key (rs_at_desired_desc rs) (tc_labels c')"
    using series_key_inj [of "rs_at_desired_desc rs"] assms(3-5) n(5) by simp
  have st: "series_key (rs_state_desc rs) (bt_insert LABEL_STATE x (tc_labels c)) \<notin>
      (\<lambda>y. series_key (rs_state_desc rs) (bt_insert LABEL_STATE y (tc_labels c'))) ` set KNOWN_TASK_STATES" for x
    using state_key_inj [OF assms(1-4)] assms(5) by auto
  show ?thesis
    using assms(6) n run at st unfolding shown_def write_service_def
    by (simp add: sb_value_insert sb_value_fold_other)
qed

lemma shown_fold:
  assumes "custom_ok cls" "rs_descs_ok cls rs" "\<forall>(sid, c) \<in> set counters. fits (base_label_names cls) (tc_labels c)"
    and "distinct (map (tc_labels \<circ> snd) counters)" and "(sid, c) \<in> set counters"
  shows "shown rs c (sb_value (fold (\<lambda>(sid, c). write_service rs c) counters b))"
  using assms(3-5)
proof (induction counters rule: rev_induct)
  case (snoc sc counters)
  obtain sid' c' where sc: "sc = (sid', c')" by (cases sc)
  have f': "fits (base_label_names cls) (tc_labels c')" using snoc.prems(1) by (simp add: sc)
  show ?case
  proof (cases "(sid, c) \<in> set counters")
    case True
    have "tc_labels c \<noteq> tc_labels c'" using snoc.prems(2) True by (force simp: sc)
    moreover have "fits (base_label_names cls) (tc_labels c)" using snoc.prems(1) True by auto
    ultimately show ?thesis
      using shown_keep [OF assms(1,2) _ f'] snoc.IH snoc.prems True by (simp add: sc)
  next
    case False
    then show ?thesis using shown_write [OF assms(1,2) f'] snoc.prems(3) by (simp add: sc)
  qed
qed simp

text \<open>The value published under a family name and label values.\<close>

definition published :: "snapshot_collector \<Rightarrow> string \<Rightarrow> string list \<Rightarrow> int option" where
  "published c name key =
     (case sc_current c of
        None \<Rightarrow> None
      | Some fs \<Rightarrow> (case List.find (\<lambda>f. desc_name (bf_desc f) = name) fs of
                      None \<Rightarrow> None
                    | Some f \<Rightarrow> map_of (bf_series f) key))"

definition names_ok :: "snapshot_builder \<Rightarrow> bool" where
  "names_ok b \<longleftrightarrow> (\<forall>(n, f) \<in> set (sb_families b). desc_name (bf_desc f) = n)"

lemma names_ok_insert: "names_ok b \<Longrightarrow> names_ok (sb_insert d k v b)"
proof -
  have "x \<in> set (hput n f m) \<Longrightarrow> x = (n, f) \<or> x \<in> set m" for x n f and m :: "(string, built_family) hmap"
    by (induction m) (auto split: if_splits)
  moreover assume "names_ok b"
  moreover have "hget (sb_families b) (desc_name d) = Some f \<Longrightarrow> desc_name (bf_desc f) = desc_name d" for f
    using \<open>names_ok b\<close> by (auto simp: names_ok_def dest: map_of_SomeD)
  ultimately show ?thesis
    unfolding names_ok_def sb_insert_def Let_def by (fastforce split: option.splits)
qed

lemma find_family:
  "\<forall>(n, f) \<in> set m. desc_name (bf_desc f) = n \<Longrightarrow> List.find (\<lambda>f. desc_name (bf_desc f) = name) (map snd m) = map_of m name"
  by (induction m) auto

lemma names_ok_write: "names_ok b \<Longrightarrow> names_ok (fold (\<lambda>(sid, c). write_service rs c) counters b)"
proof (induction counters arbitrary: b)
  case (Cons sc counters)
  have st: "names_ok b \<Longrightarrow> names_ok (fold (\<lambda>st. sb_insert d (f st) (g st)) xs b)" for b d f g and xs :: "string list"
    by (induction xs arbitrary: b) (simp_all add: names_ok_insert)
  have "names_ok (write_service rs (snd sc) b)"
    unfolding write_service_def by (intro names_ok_insert st Cons.prems)
  then show ?case using Cons.IH by (simp add: split_def)
qed simp

text \<open>With label sets that fit, an update publishes what the loop wrote.\<close>

lemma rs_update_done:
  assumes "custom_ok cls" and "rs_descs_ok cls rs"
    and "\<forall>(sid, c) \<in> set counters. fits (base_label_names cls) (tc_labels c)"
  shows "\<exists>b logged. b = fold (\<lambda>(sid, c). write_service rs c) counters sb_new \<and> rs_update counters rs =
    Done (rs\<lparr>rs_mismatch_logged := logged, rs_collector := sc_publish (rs_collector rs) (map snd (sb_families b))\<rparr>)"
proof -
  let ?b = "fold (\<lambda>(sid, c). write_service rs c) counters sb_new"
  obtain b logged where f: "fold (rs_build_service rs) counters (sb_new, rs_mismatch_logged rs) = (b, logged)" by (metis surj_pair)
  then have b: "b = ?b" using rs_build_write [OF assms, of sb_new "rs_mismatch_logged rs"] by simp
  have "sb_error b = None" unfolding b sb_error_fold_write by (simp add: sb_new_def)
  then have "rs_update counters rs =
      Done (rs\<lparr>rs_mismatch_logged := logged, rs_collector := sc_publish (rs_collector rs) (map snd (sb_families b))\<rparr>)"
    by (simp add: rs_update_def rs_build_def f sb_build_def)
  then show ?thesis using b by blast
qed

section \<open>Properties\<close>

text \<open>
  C31: a poll of fewer than \<^verbatim>\<open>2^53\<close> tasks gives every service of the snapshot a counter and no other
  service one. The counter carries the snapshot's labels and desired replicas; the count of a state
  is the number of the service's slots (or nodes) whose current task is in it, so one task per slot;
  and the wanted and completed counts are over the tasks Swarm has not retired.
\<close>

theorem poll_counts_current_tasks:
  assumes "length tasks < 2 ^ 53" and "hget (sn_services snapshot) sid = Some service"
    and "poll_replicas_state E (Inr tasks) snapshot = Inr counters"
  shows "set (hkeys counters) = set (hkeys (sn_services snapshot))
    \<and> (\<exists>c. hget counters sid = Some c \<and> tc_labels c = ps_labels service
        \<and> tc_desired_known c \<and> tc_desired c = sm_desired_replicas (ps_metadata service)
        \<and> (\<forall>state. tc_state c state =
             int (length (filter (\<lambda>(k, t). lk_service_id k = sid \<and> task_state t = state) (latest_tasks snapshot tasks))))
        \<and> tc_wanted c = int (length (filter (\<lambda>(k, t). lk_service_id k = sid \<and> \<not> retired_task t) (latest_tasks snapshot tasks)))
        \<and> tc_wanted_complete c \<le> tc_wanted c)"
proof -
  let ?l = "latest_tasks snapshot tasks"
  have n: "num P (tasks_of sid ?l) = length (filter (\<lambda>(k, t). lk_service_id k = sid \<and> P t) ?l)" for P
    by (simp add: num_def tasks_of_def filter_map comp_def split_def conj_commute)
  have le: "num (\<lambda>t. P t \<and> Q t) ts \<le> num P ts" for P Q and ts :: "task list"
    by (induction ts) (auto simp: num_def)
  from poll_counts_service(2) [OF assms] obtain c where c: "hget counters sid = Some c" "counts service (tasks_of sid ?l) c" by blast
  moreover have "tc_wanted_complete c \<le> tc_wanted c" using c(2) le by (simp add: counts_def)
  ultimately show ?thesis
    using poll_counts_service(1) [OF assms] unfolding counts_def n by blast
qed

theorem poll_counts_current_tasks_witness:
  "\<exists>counters c. poll_replicas_state extern_ascii (Inr [mk_task ''running'' ''running'' 1 1, mk_task ''failed'' ''shutdown'' 9 9])
       (one_service SERVICE_MODE_REPLICATED 1) = (Inr counters :: unit + service_counter)
     \<and> hget counters ''s'' = Some c \<and> tc_state c ''running'' = 1 \<and> tc_state c ''failed'' = 0 \<and> tc_wanted_complete c \<le> tc_wanted c"
proof -
  let ?tasks = "[mk_task ''running'' ''running'' 1 1, mk_task ''failed'' ''shutdown'' 9 9]"
  let ?sn = "one_service SERVICE_MODE_REPLICATED 1"
  have "\<exists>cs. poll_replicas_state extern_ascii (Inr ?tasks) ?sn = (Inr cs :: unit + service_counter)"
    by (simp add: poll_replicas_state_def split_def Let_def)
  then obtain cs where cs: "poll_replicas_state extern_ascii (Inr ?tasks) ?sn = (Inr cs :: unit + service_counter)" by blast
  have l: "latest_tasks ?sn ?tasks = [(slot_key, mk_task ''running'' ''running'' 1 1)]" by code_simp
  have sv: "hget (sn_services ?sn) ''s'' = Some (snd (hd (sn_services ?sn)))" by (simp add: one_service_def)
  have "\<exists>c. hget cs ''s'' = Some c \<and> (\<forall>state. tc_state c state =
        int (length (filter (\<lambda>(k, t). lk_service_id k = ''s'' \<and> task_state t = state) [(slot_key, mk_task ''running'' ''running'' 1 1)])))
      \<and> tc_wanted_complete c \<le> tc_wanted c"
    using poll_counts_current_tasks [OF _ sv cs] l by auto
  then show ?thesis using cs by (auto simp: slot_key_def mk_task_def)
qed





end
