(* ===== verification/Reconciler.thy ===== *)
theory Reconciler
  imports Dirty_Set Exporter_Metrics Service_Update Nodes_By_State Poll_Counts
begin

text \<open>
  \<^verbatim>\<open>src/src/collector/reconciler/mod.rs\<close>: the reconciler's own state and steps. A step that awaits Docker
  is split at the await: what it does before the call, and what it does with the answer, which is an
  argument (the list or object, or a failure). Between the two the event side may run. A panic is the
  outcome \<open>Stopped\<close>, which \<open>after_step\<close> repairs as the source's \<^verbatim>\<open>recover\<close> does. Instants, the clock
  and Docker's answers are arguments; log records are not modelled.
\<close>

section \<open>State\<close>

record policy =
  po_pending_cap :: nat
  po_retry_delays :: "nanos list"
  po_backoff_initial :: nanos
  po_backoff_max :: nanos
  po_resync_interval :: nanos

definition policy_default :: policy where
  "policy_default = \<lparr>po_pending_cap = PENDING_KEY_CAP, po_retry_delays = SERVICE_RETRY_DELAYS,
     po_backoff_initial = BACKOFF_INITIAL_DELAY, po_backoff_max = BACKOFF_MAX_DELAY,
     po_resync_interval = PERIODIC_RESYNC_INTERVAL\<rparr>"

record collectors =
  co_custom_labels :: "custom_label list"
  co_replica_gauges :: replica_gauges
  co_service_update :: service_update_metrics
  co_nodes_by_state :: snapshot_family
  co_replicas_state :: replicas_state
  co_metrics :: exporter_metrics

definition collectors_new :: "custom_label list \<Rightarrow> collectors" where
  "collectors_new cls = \<lparr>co_custom_labels = cls, co_replica_gauges = replica_gauges_new cls,
     co_service_update = service_update_new cls, co_nodes_by_state = nodes_by_state_new,
     co_replicas_state = replicas_state_new cls, co_metrics = exporter_metrics_new timestamps_new\<rparr>"

record reconciler =
  rc_state :: shared_state
  rc_wake :: bool
  rc_ready :: bool
  rc_collectors :: collectors
  rc_retry_delays :: "nanos list"
  rc_backoff_initial :: nanos
  rc_backoff_max :: nanos
  rc_resync_interval :: nanos
  rc_metadata :: metadata_cache
  rc_nodes :: node_cache
  rc_resync_not_before :: "instant option"
  rc_resync_backoff :: nanos
  rc_next_periodic_resync :: "instant option"
  rc_nodes_not_before :: "instant option"
  rc_nodes_backoff :: nanos
  rc_last_published :: service_counter
  rc_poll_rejections :: "(string, nat) hmap"

definition with_policy :: "collectors \<Rightarrow> timestamp \<Rightarrow> policy \<Rightarrow> reconciler" where
  "with_policy co now po =
     \<lparr>rc_state = state_new (po_pending_cap po) now, rc_wake = False, rc_ready = False, rc_collectors = co,
      rc_retry_delays = po_retry_delays po, rc_backoff_initial = po_backoff_initial po,
      rc_backoff_max = po_backoff_max po, rc_resync_interval = po_resync_interval po,
      rc_metadata = [], rc_nodes = [], rc_resync_not_before = None, rc_resync_backoff = po_backoff_initial po,
      rc_next_periodic_resync = None, rc_nodes_not_before = None, rc_nodes_backoff = po_backoff_initial po,
      rc_last_published = [], rc_poll_rejections = []\<rparr>"

definition on_state :: "(shared_state \<Rightarrow> shared_state) \<Rightarrow> reconciler \<Rightarrow> reconciler" where
  "on_state f r = r\<lparr>rc_state := f (rc_state r)\<rparr>"

definition on_metrics :: "(exporter_metrics \<Rightarrow> exporter_metrics) \<Rightarrow> reconciler \<Rightarrow> reconciler" where
  "on_metrics f r = r\<lparr>rc_collectors := (rc_collectors r)\<lparr>co_metrics := f (co_metrics (rc_collectors r))\<rparr>\<rparr>"

definition on_gauges :: "(replica_gauges \<Rightarrow> replica_gauges) \<Rightarrow> reconciler \<Rightarrow> reconciler" where
  "on_gauges f r = r\<lparr>rc_collectors := (rc_collectors r)\<lparr>co_replica_gauges := f (co_replica_gauges (rc_collectors r))\<rparr>\<rparr>"

definition on_update :: "(service_update_metrics \<Rightarrow> service_update_metrics) \<Rightarrow> reconciler \<Rightarrow> reconciler" where
  "on_update f r = r\<lparr>rc_collectors := (rc_collectors r)\<lparr>co_service_update := f (co_service_update (rc_collectors r))\<rparr>\<rparr>"

definition on_nodes_by_state :: "(snapshot_family \<Rightarrow> snapshot_family) \<Rightarrow> reconciler \<Rightarrow> reconciler" where
  "on_nodes_by_state f r = r\<lparr>rc_collectors := (rc_collectors r)\<lparr>co_nodes_by_state := f (co_nodes_by_state (rc_collectors r))\<rparr>\<rparr>"

definition on_replicas_state :: "(replicas_state \<Rightarrow> replicas_state) \<Rightarrow> reconciler \<Rightarrow> reconciler" where
  "on_replicas_state f r = r\<lparr>rc_collectors := (rc_collectors r)\<lparr>co_replicas_state := f (co_replicas_state (rc_collectors r))\<rparr>\<rparr>"

section \<open>The event side\<close>

definition signal :: "reconciler \<Rightarrow> reconciler" where
  "signal r = r\<lparr>rc_wake := True\<rparr>"

text \<open>The reconciler's side: waiting on the notification takes the one that is pending.\<close>

definition notified :: "reconciler \<Rightarrow> reconciler" where
  "notified r = r\<lparr>rc_wake := False\<rparr>"

definition enqueue_event :: "event \<Rightarrow> instant \<Rightarrow> timestamp \<Rightarrow> reconciler \<Rightarrow> reconciler" where
  "enqueue_event ev now ts r =
     (if ev_actor_id ev = [] then on_metrics inc_events_dropped r
      else if ev_kind ev = ''node'' then signal (on_state mark_nodes_dirty r)
      else if ev_kind ev = ''service'' then signal (on_state (mark_service_dirty (ev_actor_id ev) now ts) r)
      else r)"

definition request_resync :: "timestamp \<Rightarrow> reconciler \<Rightarrow> reconciler" where
  "request_resync now r = signal (on_state (state_request_resync now) r)"

section \<open>Scheduling\<close>

definition is_none_or :: "('a \<Rightarrow> bool) \<Rightarrow> 'a option \<Rightarrow> bool" where
  "is_none_or P x \<longleftrightarrow> (case x of None \<Rightarrow> True | Some v \<Rightarrow> P v)"

definition nodes_due :: "reconciler \<Rightarrow> instant \<Rightarrow> bool" where
  "nodes_due r now \<longleftrightarrow> st_resync_completed (rc_state r) > 0 \<and> st_nodes_dirty (rc_state r)
     \<and> is_none_or (\<lambda>at. at \<le> now) (rc_nodes_not_before r)"

definition resync_due :: "reconciler \<Rightarrow> instant \<Rightarrow> bool" where
  "resync_due r now \<longleftrightarrow> st_resync_requested (rc_state r) > st_resync_completed (rc_state r)
     \<and> is_none_or (\<lambda>at. at \<le> now) (rc_resync_not_before r)"

definition periodic_resync_due :: "reconciler \<Rightarrow> instant \<Rightarrow> bool" where
  "periodic_resync_due r now \<longleftrightarrow> st_resync_completed (rc_state r) > 0
     \<and> st_resync_requested (rc_state r) = st_resync_completed (rc_state r)
     \<and> is_none_or (\<lambda>at. at \<le> now) (rc_next_periodic_resync r)"

text \<open>
  The earliest scheduled work. The inner \<open>None\<close> is Go's zero time, earlier than any instant; the
  outer one is nothing scheduled.
\<close>

definition consider_at :: "instant option \<Rightarrow> instant option option \<Rightarrow> instant option option" where
  "consider_at at earliest =
     (let earlier = (case (earliest, at) of
          (None, _) \<Rightarrow> True
        | (Some (Some _), None) \<Rightarrow> True
        | (Some (Some current), Some at) \<Rightarrow> at < current
        | (Some None, _) \<Rightarrow> False)
      in if earlier then Some at else earliest)"

definition next_wake_delay :: "reconciler \<Rightarrow> instant \<Rightarrow> nanos option" where
  "next_wake_delay r now =
     (let s = rc_state r;
          e = (if st_resync_requested s > st_resync_completed s then consider_at (rc_resync_not_before r) None else None);
          e = (if st_resync_completed s > 0
               then let e = (if st_resync_requested s = st_resync_completed s then consider_at (rc_next_periodic_resync r) e else e);
                        e = (if st_nodes_dirty s then consider_at (rc_nodes_not_before r) e else e)
                    in fold (\<lambda>(k, p). consider_at (Some (pk_not_before p))) (st_pending_set s) e
               else e)
      in map_option (\<lambda>at. case at of None \<Rightarrow> 0 | Some at \<Rightarrow> at - now) e)"

definition schedule_resync_retry :: "instant \<Rightarrow> reconciler \<Rightarrow> reconciler" where
  "schedule_resync_retry now r =
     r\<lparr>rc_resync_not_before := Some (now + rc_resync_backoff r),
       rc_resync_backoff := min (duration_saturating_mul (rc_resync_backoff r) BACKOFF_MULTIPLIER) (rc_backoff_max r)\<rparr>"

definition request_resync_after_panic :: "instant \<Rightarrow> timestamp \<Rightarrow> reconciler \<Rightarrow> reconciler" where
  "request_resync_after_panic now ts r = schedule_resync_retry now (on_state (state_request_resync ts) r)"

text \<open>The repair after a step: nothing after a normal end. \<open>resync_step\<close> tells the resync step apart.\<close>

definition after_step :: "bool \<Rightarrow> instant \<Rightarrow> timestamp \<Rightarrow> (panic, reconciler) outcome \<Rightarrow> reconciler" where
  "after_step resync_step now ts result =
     (case result of
        Done r \<Rightarrow> r
      | Stopped p r \<Rightarrow>
          request_resync_after_panic now ts (if resync_step then on_metrics (inc_resync Failure) r else r))"

section \<open>Applying what Docker answered\<close>

definition delete_service_series :: "service_metadata \<Rightarrow> reconciler \<Rightarrow> reconciler" where
  "delete_service_series md r =
     (let labels = labels_for_metadata md in
      on_update (su_clear md)
        (on_gauges (\<lambda>g. g\<lparr>rg_desired := snd (gv_delete_with (rg_desired g) labels),
                          rg_schedulable := snd (gv_delete_with (rg_schedulable g) labels)\<rparr>) r))"

text \<open>One \<^verbatim>\<open>must(gauges.set_..)\<close>.\<close>

definition must_gauges :: "(replica_gauges \<Rightarrow> labels_mismatch + replica_gauges) \<Rightarrow> reconciler \<Rightarrow> (panic, reconciler) outcome" where
  "must_gauges f r =
     (case must (f (co_replica_gauges (rc_collectors r))) of
        Inl p \<Rightarrow> Stopped p r
      | Inr g \<Rightarrow> Done (on_gauges (\<lambda>_. g) r))"

definition must_update :: "service \<Rightarrow> service_metadata \<Rightarrow> reconciler \<Rightarrow> (panic, reconciler) outcome" where
  "must_update s md r =
     (case update_for_service s md (co_service_update (rc_collectors r)) of
        Done m \<Rightarrow> Done (on_update (\<lambda>_. m) r)
      | Stopped e m \<Rightarrow> Stopped (LabelsPanic e) (on_update (\<lambda>_. m) r))"

definition apply_service :: "extern \<Rightarrow> service \<Rightarrow> node list \<Rightarrow> reconciler \<Rightarrow> (panic, reconciler) outcome" where
  "apply_service E s nodes r =
     (case build_metadata s (co_custom_labels (rc_collectors r)) of
        Inl p \<Rightarrow> Stopped p r
      | Inr md \<Rightarrow>
          let r = (case mc_get (rc_metadata r) (svc_id s) of
                     Some previous \<Rightarrow>
                       if labels_for_metadata previous \<noteq> labels_for_metadata md then delete_service_series previous r else r
                   | None \<Rightarrow> r);
              (desired, schedulable) = replica_counts E md nodes;
              md = md\<lparr>sm_desired_replicas := desired\<rparr>;
              r = r\<lparr>rc_metadata := mc_replace (svc_id s) md (rc_metadata r)\<rparr>
          in and_then (must_gauges (set_desired md desired) r)
             (\<lambda>r. and_then (must_gauges (set_schedulable md schedulable) r)
             (\<lambda>r. and_then (must_update s md r)
             (\<lambda>r. Done (on_state (bump_service_generation (svc_id s) (Some True)) r)))))"

definition remove_service :: "string \<Rightarrow> reconciler \<Rightarrow> reconciler" where
  "remove_service service_id r =
     (let r = (case mc_get (rc_metadata r) service_id of
                 Some md \<Rightarrow> let r = delete_service_series md r in r\<lparr>rc_metadata := mc_delete service_id (rc_metadata r)\<rparr>
               | None \<Rightarrow> r);
          r = on_replicas_state (forget_service service_id) r
      in on_state (\<lambda>s.
           if hhas (st_pending_set s) service_id
           then (case hget (st_service_generation s) service_id of
                   Some g \<Rightarrow> s\<lparr>st_service_generation := hput service_id (g\<lparr>gn_cached := False\<rparr>) (st_service_generation s)\<rparr>
                 | None \<Rightarrow> s)
           else s\<lparr>st_service_generation := hdel service_id (st_service_generation s)\<rparr>) r)"

definition apply_nodes :: "extern \<Rightarrow> node list \<Rightarrow> reconciler \<Rightarrow> (panic, reconciler) outcome" where
  "apply_nodes E nodes r =
     (let r = r\<lparr>rc_nodes := nc_set nodes (rc_nodes r)\<rparr>;
          r = on_nodes_by_state (update_from_slice nodes) r
      in and_then (for_each (\<lambda>(service_id, md) r.
             let (desired, schedulable) = replica_counts E md nodes;
                 r = r\<lparr>rc_metadata := mc_set_desired_replicas service_id desired (rc_metadata r)\<rparr>
             in and_then (must_gauges (set_desired md desired) r) (must_gauges (set_schedulable md schedulable)))
           (rc_metadata r) r)
         (\<lambda>r. Done (on_state (\<lambda>s. s\<lparr>st_node_generation := Suc (st_node_generation s)\<rparr>) r)))"

section \<open>The steps\<close>

text \<open>The answer of a Docker call.\<close>

datatype call_error = NotFound | OtherError

text \<open>\<^verbatim>\<open>reconcile_service\<close> after the inspect answered, at \<open>now\<close>.\<close>

definition reconcile_service :: "extern \<Rightarrow> due_key \<Rightarrow> call_error + service \<Rightarrow> instant \<Rightarrow> timestamp \<Rightarrow> reconciler
    \<Rightarrow> (panic, reconciler) outcome" where
  "reconcile_service E key inspected now ts r =
     (case inspected of
        Inr s \<Rightarrow> apply_service E s (rc_nodes r) r
      | Inl NotFound \<Rightarrow> Done (remove_service (dk_service_id key) r)
      | Inl OtherError \<Rightarrow> Done (on_state (retry_service (rc_retry_delays r) key now ts) r))"

text \<open>\<^verbatim>\<open>reconcile_nodes\<close> before and after the list call.\<close>

definition reconcile_nodes_begin :: "reconciler \<Rightarrow> reconciler" where
  "reconcile_nodes_begin r = on_state (\<lambda>s. s\<lparr>st_nodes_dirty := False\<rparr>) r"

definition reconcile_nodes_end :: "extern \<Rightarrow> call_error + node list \<Rightarrow> instant \<Rightarrow> reconciler \<Rightarrow> (panic, reconciler) outcome" where
  "reconcile_nodes_end E listed now r =
     (case listed of
        Inr nodes \<Rightarrow> and_then (apply_nodes E nodes r) (\<lambda>r. Done (r\<lparr>rc_nodes_backoff := rc_backoff_initial r\<rparr>))
      | Inl _ \<Rightarrow>
          Done ((on_state (\<lambda>s. s\<lparr>st_nodes_dirty := True\<rparr>) r)
            \<lparr>rc_nodes_not_before := Some (now + rc_nodes_backoff r),
             rc_nodes_backoff := min (duration_saturating_mul (rc_nodes_backoff r) BACKOFF_MULTIPLIER) (rc_backoff_max r)\<rparr>))"

definition complete_resync :: "nat \<Rightarrow> timestamp \<Rightarrow> instant \<Rightarrow> timestamp \<Rightarrow> reconciler \<Rightarrow> reconciler" where
  "complete_resync target pass_start now ts r =
     (let r = on_metrics (\<lambda>m. (inc_resync Success m)\<lparr>em_timestamps := mark_resync_ok ts (em_timestamps m)\<rparr>) r;
          r = on_state (\<lambda>s.
            let s = s\<lparr>st_resync_completed := max (st_resync_completed s) target\<rparr>
            in s\<lparr>st_resync_outstanding_since :=
                   (if st_resync_requested s = st_resync_completed s then None else Some pass_start)\<rparr>) r
      in r\<lparr>rc_resync_backoff := rc_backoff_initial r, rc_resync_not_before := None,
           rc_next_periodic_resync := Some (now + rc_resync_interval r), rc_ready := True\<rparr>)"

text \<open>
  \<^verbatim>\<open>resync\<close> after both lists answered: \<open>target\<close> and \<open>pass_start\<close> were read before the calls.
\<close>

definition resync_end :: "extern \<Rightarrow> call_error + (service list \<times> node list) \<Rightarrow> nat \<Rightarrow> timestamp \<Rightarrow> instant \<Rightarrow> timestamp
    \<Rightarrow> reconciler \<Rightarrow> (panic, reconciler) outcome" where
  "resync_end E listed target pass_start now ts r =
     (case listed of
        Inl _ \<Rightarrow> Done (schedule_resync_retry now (on_metrics (inc_resync Failure) r))
      | Inr (services, nodes) \<Rightarrow>
          and_then (apply_nodes E nodes r)
          (\<lambda>r. and_then (for_each (\<lambda>s. apply_service E s nodes) services r)
          (\<lambda>r. let r = fold (\<lambda>service_id r. if service_id \<in> set (map svc_id services) then r else remove_service service_id r)
                         (mc_ids (rc_metadata r)) r;
                   r = on_state prune_service_generations r
               in Done (complete_resync target pass_start now ts r))))"

end
