(* ===== verification/Reconciler_Facts.thy ===== *)
theory Reconciler_Facts
  imports Reconciler
begin

text \<open>
  The invariant of the reconciler, piece by piece, and that every operation keeps it: the families
  are well formed and no write to them can panic, the cache and the generations mirror each other,
  the resync counters are consistent, the backoffs stay within their cap, and no series is left
  behind by a service that is no longer cached. \<open>apply_service\<close> and \<open>apply_nodes\<close> are first brought
  into a form without error branches.
\<close>

lemmas on_defs = on_state_def on_metrics_def on_gauges_def on_update_def on_nodes_by_state_def on_replicas_state_def signal_def

section \<open>The pieces\<close>

definition families_ok :: "custom_label list \<Rightarrow> reconciler \<Rightarrow> bool" where
  "families_ok cls r \<longleftrightarrow> custom_ok cls \<and> co_custom_labels (rc_collectors r) = cls
     \<and> gauges_ok cls (co_replica_gauges (rc_collectors r)) \<and> updates_ok cls (co_service_update (rc_collectors r))
     \<and> rs_descs_ok cls (co_replicas_state (rc_collectors r)) \<and> nodes_ok (co_nodes_by_state (rc_collectors r))"

definition known_modes :: "string list" where
  "known_modes = [SERVICE_MODE_REPLICATED, SERVICE_MODE_REPLICATED_JOB, SERVICE_MODE_GLOBAL_JOB, SERVICE_MODE_GLOBAL]"

lemma build_mode: "build_metadata s cls = Inr md \<Longrightarrow> sm_service_mode md \<in> set known_modes"
  by (auto simp: build_metadata_def service_mode_def known_modes_def Let_def split: sum.splits)

definition cache_ok :: "custom_label list \<Rightarrow> reconciler \<Rightarrow> bool" where
  "cache_ok cls r \<longleftrightarrow> hmap_ok (rc_metadata r)
     \<and> (\<forall>sid md. hget (rc_metadata r) sid = Some md \<longrightarrow> metadata_ok cls md \<and> sm_service_mode md \<in> set known_modes)"

text \<open>Every cached service's desired replicas are those of its metadata and the node snapshot.\<close>

definition desired_ok :: "extern \<Rightarrow> reconciler \<Rightarrow> bool" where
  "desired_ok E r \<longleftrightarrow> (\<forall>sid md. hget (rc_metadata r) sid = Some md \<longrightarrow>
     sm_desired_replicas md = fst (replica_counts E md (rc_nodes r)))"

definition generation_of :: "shared_state \<Rightarrow> string \<Rightarrow> nat" where
  "generation_of s sid = (case hget (st_service_generation s) sid of Some g \<Rightarrow> gn_value g | None \<Rightarrow> 0)"

definition cached_in :: "shared_state \<Rightarrow> string \<Rightarrow> bool" where
  "cached_in s sid \<longleftrightarrow> (case hget (st_service_generation s) sid of Some g \<Rightarrow> gn_cached g | None \<Rightarrow> False)"

text \<open>
  Over the shared state alone, for a set \<open>M\<close> of cached services: the generation entries mark exactly
  those as cached, and their values were handed out by the counter.
\<close>

definition gens_ok :: "(string \<Rightarrow> bool) \<Rightarrow> shared_state \<Rightarrow> bool" where
  "gens_ok M s \<longleftrightarrow> hmap_ok (st_service_generation s) \<and> (\<forall>sid. cached_in s sid \<longleftrightarrow> M sid)
     \<and> (\<forall>sid. hhas (st_service_generation s) sid \<longrightarrow> 1 \<le> generation_of s sid \<and> generation_of s sid \<le> st_generation_counter s)"

definition sync_ok :: "bool \<Rightarrow> shared_state \<Rightarrow> bool" where
  "sync_ok ready s \<longleftrightarrow> st_resync_completed s \<le> st_resync_requested s \<and> 1 \<le> st_resync_requested s
     \<and> (st_resync_outstanding_since s = None \<longleftrightarrow> st_resync_requested s = st_resync_completed s)
     \<and> (ready \<longleftrightarrow> 0 < st_resync_completed s)"

definition generations_ok :: "reconciler \<Rightarrow> bool" where
  "generations_ok r \<longleftrightarrow> gens_ok (hhas (rc_metadata r)) (rc_state r)"

definition resync_ok :: "reconciler \<Rightarrow> bool" where
  "resync_ok r \<longleftrightarrow> sync_ok (rc_ready r) (rc_state r)"

definition backoff_ok :: "reconciler \<Rightarrow> bool" where
  "backoff_ok r \<longleftrightarrow> rc_backoff_initial r \<le> rc_backoff_max r
     \<and> rc_resync_backoff r \<le> rc_backoff_max r \<and> rc_nodes_backoff r \<le> rc_backoff_max r"

section \<open>Series and their owners\<close>

definition base_gauges :: "reconciler \<Rightarrow> gauge_vec list" where
  "base_gauges r = (let co = rc_collectors r in
     [rg_desired (co_replica_gauges co), rg_schedulable (co_replica_gauges co),
      su_started (co_service_update co), su_completed (co_service_update co)])"

definition exported :: "reconciler \<Rightarrow> (string, string) btree \<Rightarrow> bool" where
  "exported r labels \<longleftrightarrow> (\<exists>g \<in> set (base_gauges r). gv_get_with g labels \<noteq> None)
     \<or> (\<exists>x. gv_get_with (su_state (co_service_update (rc_collectors r))) (clone_labels_with_state labels x) \<noteq> None)"

definition owned :: "reconciler \<Rightarrow> (string, string) btree \<Rightarrow> bool" where
  "owned r labels \<longleftrightarrow> (\<exists>sid md. hget (rc_metadata r) sid = Some md \<and> labels_for_metadata md = labels)"

definition series_ok :: "custom_label list \<Rightarrow> reconciler \<Rightarrow> bool" where
  "series_ok cls r \<longleftrightarrow> (\<forall>labels. fits (base_label_names cls) labels \<longrightarrow>
     (exported r labels \<longrightarrow> owned r labels)
     \<and> (\<forall>x. gv_get_with (su_state (co_service_update (rc_collectors r))) (clone_labels_with_state labels x) \<noteq> None
          \<longrightarrow> x \<in> set KNOWN_STATES))"

definition rec_ok :: "extern \<Rightarrow> custom_label list \<Rightarrow> reconciler \<Rightarrow> bool" where
  "rec_ok E cls r \<longleftrightarrow> families_ok cls r \<and> cache_ok cls r \<and> desired_ok E r \<and> generations_ok r
     \<and> queue_ok (rc_state r) \<and> resync_ok r \<and> backoff_ok r \<and> series_ok cls r"

section \<open>Operations without error branches\<close>

definition gauges_written :: "service_metadata \<Rightarrow> int \<Rightarrow> int \<Rightarrow> reconciler \<Rightarrow> reconciler" where
  "gauges_written md d v r =
     on_gauges (\<lambda>g. g\<lparr>rg_desired := gv_put (labels_for_metadata md) d (rg_desired g),
       rg_schedulable := gv_put (labels_for_metadata md) (exported_schedulable md v) (rg_schedulable g)\<rparr>) r"

lemma gauges_written_frame [simp]:
  "rc_state (gauges_written md d v r) = rc_state r" "rc_metadata (gauges_written md d v r) = rc_metadata r"
  "rc_nodes (gauges_written md d v r) = rc_nodes r" "rc_ready (gauges_written md d v r) = rc_ready r"
  "co_custom_labels (rc_collectors (gauges_written md d v r)) = co_custom_labels (rc_collectors r)"
  "co_service_update (rc_collectors (gauges_written md d v r)) = co_service_update (rc_collectors r)"
  "backoff_ok (gauges_written md d v r) = backoff_ok r"
  by (simp_all add: gauges_written_def on_gauges_def backoff_ok_def)

lemma families_ok_gauges_written: "families_ok cls r \<Longrightarrow> families_ok cls (gauges_written md d v r)"
  by (simp add: families_ok_def gauges_written_def on_gauges_def gauges_ok_def gauge_ok_put)

lemma must_gauges_both:
  assumes "families_ok cls r" and "metadata_ok cls md"
  shows "and_then (must_gauges (set_desired md d) r) (must_gauges (set_schedulable md v)) = Done (gauges_written md d v r)"
proof -
  let ?g = "co_replica_gauges (rc_collectors r)"
  have c: "custom_ok cls" "gauges_ok cls ?g" using assms(1) by (simp_all add: families_ok_def)
  let ?g1 = "?g\<lparr>rg_desired := gv_put (labels_for_metadata md) d (rg_desired ?g)\<rparr>"
  have g1: "gauges_ok cls ?g1" using c(2) by (simp add: gauges_ok_def gauge_ok_put)
  show ?thesis
    using set_desired_ok [OF c(1) assms(2) c(2)] set_schedulable_ok [OF c(1) assms(2) g1]
    by (simp add: must_gauges_def must_def gauges_written_def on_gauges_def)
qed

lemma must_gauges_then:
  assumes "families_ok cls r" and "metadata_ok cls md"
  shows "and_then (must_gauges (set_desired md d) r) (\<lambda>r. and_then (must_gauges (set_schedulable md v) r) k) = k (gauges_written md d v r)"
proof -
  have assoc: "and_then x (\<lambda>r. and_then (f r) k) = and_then (and_then x f) k" for x :: "(panic, reconciler) outcome" and f
    by (cases x) simp_all
  show ?thesis unfolding assoc must_gauges_both [OF assms] by simp
qed

text \<open>The state after \<open>apply_service\<close>, when the metadata could be built.\<close>

definition retired_identity :: "service \<Rightarrow> service_metadata \<Rightarrow> reconciler \<Rightarrow> reconciler" where
  "retired_identity s md r =
     (case hget (rc_metadata r) (svc_id s) of
        Some previous \<Rightarrow> if labels_for_metadata previous \<noteq> labels_for_metadata md then delete_service_series previous r else r
      | None \<Rightarrow> r)"

definition written :: "extern \<Rightarrow> service \<Rightarrow> service_metadata \<Rightarrow> node list \<Rightarrow> reconciler \<Rightarrow> reconciler" where
  "written E s md nodes r =
     (let d = fst (replica_counts E md nodes); v = snd (replica_counts E md nodes);
          md' = md\<lparr>sm_desired_replicas := d\<rparr>
      in on_state (bump_service_generation (svc_id s) (Some True))
          (on_update (updated s md')
            (gauges_written md' d v (r\<lparr>rc_metadata := hput (svc_id s) md' (rc_metadata r)\<rparr>))))"

lemma delete_series_frame [simp]:
  "rc_state (delete_service_series md r) = rc_state r" "rc_metadata (delete_service_series md r) = rc_metadata r"
  "rc_nodes (delete_service_series md r) = rc_nodes r" "rc_ready (delete_service_series md r) = rc_ready r"
  "co_custom_labels (rc_collectors (delete_service_series md r)) = co_custom_labels (rc_collectors r)"
  "backoff_ok (delete_service_series md r) = backoff_ok r"
  by (simp_all add: delete_service_series_def on_defs Let_def backoff_ok_def)

lemma families_ok_delete: "families_ok cls r \<Longrightarrow> families_ok cls (delete_service_series md r)"
  by (simp add: families_ok_def delete_service_series_def on_defs gauges_ok_def gauge_ok_delete su_clear_ok Let_def)

lemma retired_identity_frame [simp]:
  "rc_state (retired_identity s md r) = rc_state r" "rc_metadata (retired_identity s md r) = rc_metadata r"
  "rc_nodes (retired_identity s md r) = rc_nodes r" "rc_ready (retired_identity s md r) = rc_ready r"
  "backoff_ok (retired_identity s md r) = backoff_ok r"
  by (simp_all add: retired_identity_def split: option.split)

lemma families_ok_retired: "families_ok cls r \<Longrightarrow> families_ok cls (retired_identity s md r)"
  by (simp add: retired_identity_def families_ok_delete split: option.split)

lemma families_ok_metadata [simp]: "families_ok cls (r\<lparr>rc_metadata := m\<rparr>) = families_ok cls r"
  by (simp add: families_ok_def)

lemma apply_service_result:
  assumes "families_ok cls r" and "build_metadata s cls = Inr md"
  shows "apply_service E s nodes r = Done (written E s md nodes (retired_identity s md r))"
proof -
  obtain d v where dv: "replica_counts E md nodes = (d, v)" by (cases "replica_counts E md nodes")
  let ?md = "md\<lparr>sm_desired_replicas := d\<rparr>"
  let ?r = "retired_identity s md r"
  let ?r1 = "?r\<lparr>rc_metadata := hput (svc_id s) ?md (rc_metadata ?r)\<rparr>"
  have m: "metadata_ok cls ?md" using metadata_ok_build [OF assms(2)] by simp
  have f: "families_ok cls ?r1" using families_ok_retired [OF assms(1)] by simp
  have u: "update_for_service s ?md (co_service_update (rc_collectors (gauges_written ?md d v ?r1))) =
      Done (updated s ?md (co_service_update (rc_collectors (gauges_written ?md d v ?r1))))"
    using update_for_service_ok [OF _ m] families_ok_gauges_written [OF f] by (simp add: families_ok_def)
  have "apply_service E s nodes r =
      and_then (must_gauges (set_desired ?md d) ?r1) (\<lambda>r. and_then (must_gauges (set_schedulable ?md v) r)
        (\<lambda>r. and_then (must_update s ?md r) (\<lambda>r. Done (on_state (bump_service_generation (svc_id s) (Some True)) r))))"
    using assms(2) assms(1)
    by (simp add: apply_service_def retired_identity_def mc_get_def mc_replace_def dv families_ok_def Let_def)
  also have "\<dots> = and_then (must_update s ?md (gauges_written ?md d v ?r1))
      (\<lambda>r. Done (on_state (bump_service_generation (svc_id s) (Some True)) r))"
    by (rule must_gauges_then [OF f m])
  also have "\<dots> = Done (written E s md nodes ?r)"
    using u by (simp add: must_update_def written_def dv on_defs Let_def)
  finally show ?thesis .
qed

text \<open>The state after \<open>apply_nodes\<close>.\<close>

definition node_write :: "extern \<Rightarrow> node list \<Rightarrow> string \<times> service_metadata \<Rightarrow> reconciler \<Rightarrow> reconciler" where
  "node_write E nodes e r =
     (let (sid, md) = e; d = fst (replica_counts E md nodes); v = snd (replica_counts E md nodes)
      in gauges_written md d v (r\<lparr>rc_metadata := mc_set_desired_replicas sid d (rc_metadata r)\<rparr>))"

definition nodes_applied :: "extern \<Rightarrow> node list \<Rightarrow> reconciler \<Rightarrow> reconciler" where
  "nodes_applied E nodes r =
     on_state (\<lambda>s. s\<lparr>st_node_generation := Suc (st_node_generation s)\<rparr>)
       (fold (node_write E nodes) (rc_metadata r) (on_nodes_by_state (update_from_slice nodes) (r\<lparr>rc_nodes := nodes\<rparr>)))"

lemma families_ok_node_write: "families_ok cls r \<Longrightarrow> families_ok cls (node_write E nodes e r)"
  by (simp add: node_write_def split_def Let_def families_ok_gauges_written)

lemma for_each_node_write:
  assumes "families_ok cls r" and "\<forall>(sid, md) \<in> set es. metadata_ok cls md"
  shows "for_each (\<lambda>(service_id, md) r.
       let (desired, schedulable) = replica_counts E md nodes;
           r = r\<lparr>rc_metadata := mc_set_desired_replicas service_id desired (rc_metadata r)\<rparr>
       in and_then (must_gauges (set_desired md desired) r) (must_gauges (set_schedulable md schedulable))) es r
     = Done (fold (node_write E nodes) es r)"
  using assms
proof (induction es arbitrary: r)
  case (Cons e es)
  obtain sid md where e: "e = (sid, md)" by (cases e)
  have m: "metadata_ok cls md" using Cons.prems(2) by (simp add: e)
  have "and_then (must_gauges (set_desired md (fst (replica_counts E md nodes)))
          (r\<lparr>rc_metadata := mc_set_desired_replicas sid (fst (replica_counts E md nodes)) (rc_metadata r)\<rparr>))
        (must_gauges (set_schedulable md (snd (replica_counts E md nodes)))) = Done (node_write E nodes e r)"
    using must_gauges_both [OF _ m] Cons.prems(1) by (simp add: node_write_def e Let_def)
  then show ?case
    using Cons.IH [OF families_ok_node_write [OF Cons.prems(1)]] Cons.prems(2)
    by (simp add: e split_def Let_def)
qed simp

lemma families_ok_nodes [simp]:
  "families_ok cls r \<Longrightarrow> families_ok cls (on_nodes_by_state (update_from_slice nodes) (r\<lparr>rc_nodes := nodes\<rparr>))"
  by (simp add: families_ok_def on_defs nodes_ok_update)

lemma apply_nodes_result:
  assumes "families_ok cls r" and "cache_ok cls r"
  shows "apply_nodes E nodes r = Done (nodes_applied E nodes r)"
proof -
  let ?r = "on_nodes_by_state (update_from_slice nodes) (r\<lparr>rc_nodes := nodes\<rparr>)"
  have "\<forall>(sid, md) \<in> set (rc_metadata r). metadata_ok cls md"
    using assms(2) hget_mem_iff by (fastforce simp: cache_ok_def)
  moreover have "families_ok cls ?r" using assms(1) by simp
  ultimately have e: "for_each (\<lambda>(service_id, md) r.
       let (desired, schedulable) = replica_counts E md nodes;
           r = r\<lparr>rc_metadata := mc_set_desired_replicas service_id desired (rc_metadata r)\<rparr>
       in and_then (must_gauges (set_desired md desired) r) (must_gauges (set_schedulable md schedulable))) (rc_metadata r) ?r
     = Done (fold (node_write E nodes) (rc_metadata r) ?r)"
    by (rule for_each_node_write [rotated])
  have m: "rc_metadata ?r = rc_metadata r" by (simp add: on_nodes_by_state_def)
  show ?thesis
    unfolding apply_nodes_def nc_set_def nodes_applied_def by (subst Let_def, subst Let_def) (simp only: m e and_then.simps)
qed

section \<open>How the writes change what is exported\<close>

lemma families_fits:
  assumes "families_ok cls r" and "metadata_ok cls md"
  shows "fits (base_label_names cls) (labels_for_metadata md)"
  using labels_for_metadata_fits assms by (simp add: families_ok_def)

lemma families_gauges:
  assumes "families_ok cls r"
  shows "\<forall>g \<in> set (base_gauges r). gauge_ok (base_label_names cls) g"
    and "gauge_ok (base_label_names cls @ [LABEL_STATE]) (su_state (co_service_update (rc_collectors r)))"
  using assms by (simp_all add: families_ok_def gauges_ok_def updates_ok_def base_gauges_def Let_def)

text \<open>The known-states half of \<open>series_ok\<close>, which deleting relies on.\<close>

definition states_known :: "custom_label list \<Rightarrow> reconciler \<Rightarrow> bool" where
  "states_known cls r \<longleftrightarrow> (\<forall>labels x. fits (base_label_names cls) labels \<longrightarrow>
     gv_get_with (su_state (co_service_update (rc_collectors r))) (clone_labels_with_state labels x) \<noteq> None \<longrightarrow> x \<in> set KNOWN_STATES)"

lemma series_ok_alt: "series_ok cls r \<longleftrightarrow> states_known cls r \<and> (\<forall>l. fits (base_label_names cls) l \<longrightarrow> exported r l \<longrightarrow> owned r l)"
  by (auto simp: series_ok_def states_known_def)

lemma exported_delete:
  assumes "families_ok cls r" "states_known cls r" "metadata_ok cls md" "fits (base_label_names cls) l"
  shows "exported (delete_service_series md r) l \<longleftrightarrow> l \<noteq> labels_for_metadata md \<and> exported r l"
    and "states_known cls (delete_service_series md r)"
proof -
  let ?L = "labels_for_metadata md" and ?u = "co_service_update (rc_collectors r)"
  note f = families_fits [OF assms(1,3)]
  have c: "custom_ok cls" using assms(1) by (simp add: families_ok_def)
  have base: "base_gauges (delete_service_series md r) = map (\<lambda>g. snd (gv_delete_with g ?L)) (base_gauges r)"
    by (simp add: base_gauges_def delete_service_series_def on_defs su_clear_def Let_def)
  have get: "gv_get_with (snd (gv_delete_with g ?L)) l = (if l = ?L then None else gv_get_with g l)" if "g \<in> set (base_gauges r)" for g
    using gv.lookup_remove [OF _ f assms(4)] families_gauges(1) [OF assms(1)] that by simp
  have state: "gv_get_with (su_state (co_service_update (rc_collectors (delete_service_series md r)))) (clone_labels_with_state k x) =
      (if k = ?L \<and> x \<in> set KNOWN_STATES then None else gv_get_with (su_state ?u) (clone_labels_with_state k x))"
    if "fits (base_label_names cls) k" for k x
    using lookup_clear_states [OF c f that families_gauges(2) [OF assms(1)]]
    by (simp add: delete_service_series_def on_defs su_clear_def Let_def)
  show "exported (delete_service_series md r) l \<longleftrightarrow> l \<noteq> ?L \<and> exported r l"
    using assms(2,4) get unfolding exported_def base state [OF assms(4)] states_known_def by auto
  show "states_known cls (delete_service_series md r)"
    using assms(2) state unfolding states_known_def by presburger
qed

lemma exported_gauges_written:
  assumes "families_ok cls r" "metadata_ok cls md" "fits (base_label_names cls) l"
  shows "exported (gauges_written md d v r) l \<longleftrightarrow> l = labels_for_metadata md \<or> exported r l"
    and "states_known cls (gauges_written md d v r) = states_known cls r"
proof -
  let ?L = "labels_for_metadata md"
  note f = families_fits [OF assms(1,2)]
  let ?g = "co_replica_gauges (rc_collectors r)"
  have ok: "gauge_ok (base_label_names cls) (rg_desired ?g)" "gauge_ok (base_label_names cls) (rg_schedulable ?g)"
    using assms(1) by (simp_all add: families_ok_def gauges_ok_def)
  have base: "base_gauges (gauges_written md d v r) = [gv_put ?L d (rg_desired ?g), gv_put ?L (exported_schedulable md v) (rg_schedulable ?g),
      su_started (co_service_update (rc_collectors r)), su_completed (co_service_update (rc_collectors r))]"
    by (simp add: base_gauges_def gauges_written_def on_gauges_def)
  show "exported (gauges_written md d v r) l \<longleftrightarrow> l = ?L \<or> exported r l"
    unfolding exported_def base by (simp add: base_gauges_def gv.lookup_put [OF ok(1) f assms(3)] gv.lookup_put [OF ok(2) f assms(3)] Let_def)
  show "states_known cls (gauges_written md d v r) = states_known cls r" by (simp add: states_known_def)
qed

lemma exported_updated:
  assumes "families_ok cls r" "states_known cls r" "metadata_ok cls md" "fits (base_label_names cls) l"
  shows "exported (on_update (updated s md) r) l \<longleftrightarrow> l = labels_for_metadata md \<or> exported r l"
    and "states_known cls (on_update (updated s md) r)"
proof -
  let ?L = "labels_for_metadata md" and ?u = "co_service_update (rc_collectors r)"
  note f = families_fits [OF assms(1,3)]
  have c: "custom_ok cls" using assms(1) by (simp add: families_ok_def)
  have ok: "gauge_ok (base_label_names cls) (su_started ?u)" "gauge_ok (base_label_names cls) (su_completed ?u)"
    using assms(1) by (simp_all add: families_ok_def updates_ok_def)
  have base: "base_gauges (on_update (updated s md) r) = [rg_desired (co_replica_gauges (rc_collectors r)), rg_schedulable (co_replica_gauges (rc_collectors r)),
      gv_put ?L (seconds_of (Option.bind (svc_update_status s) us_started_at)) (su_started ?u),
      gv_put ?L (seconds_of (Option.bind (svc_update_status s) us_completed_at)) (su_completed ?u)]"
    by (simp add: base_gauges_def on_update_def updated_def Let_def)
  have state: "gv_get_with (su_state (co_service_update (rc_collectors (on_update (updated s md) r)))) (clone_labels_with_state k x) =
      (if k = ?L \<and> x \<in> set KNOWN_STATES then Some (if x = update_state_from_swarm (map_option us_state (svc_update_status s)) then 1 else 0)
       else gv_get_with (su_state ?u) (clone_labels_with_state k x))"
    if "fits (base_label_names cls) k" for k x
    using lookup_put_states [OF c f that families_gauges(2) [OF assms(1)]]
    by (simp add: on_update_def updated_def Let_def)
  show "exported (on_update (updated s md) r) l \<longleftrightarrow> l = ?L \<or> exported r l"
    unfolding exported_def base state [OF assms(4)]
    by (auto simp: base_gauges_def gv.lookup_put [OF ok(1) f assms(4)] gv.lookup_put [OF ok(2) f assms(4)] Let_def)
  show "states_known cls (on_update (updated s md) r)"
    using assms(2) state unfolding states_known_def by presburger
qed

lemma exported_cong:
  "co_replica_gauges (rc_collectors t) = co_replica_gauges (rc_collectors r) \<Longrightarrow>
   co_service_update (rc_collectors t) = co_service_update (rc_collectors r) \<Longrightarrow>
   exported t l = exported r l \<and> states_known cls t = states_known cls r"
  by (simp add: exported_def base_gauges_def states_known_def Let_def)

section \<open>The shared state keeps its laws\<close>

lemma gens_ok_cong:
  "st_service_generation t = st_service_generation s \<Longrightarrow> st_generation_counter t = st_generation_counter s \<Longrightarrow> gens_ok M t = gens_ok M s"
  by (simp add: gens_ok_def cached_in_def generation_of_def)

lemma generation_of_bump:
  "generation_of (bump_service_generation k c s) sid = (if sid = k then Suc (st_generation_counter s) else generation_of s sid)"
  by (auto simp: generation_of_def bump_service_generation_def Let_def update_conv' split: option.split)

lemma cached_in_bump:
  "cached_in (bump_service_generation k c s) sid =
     (if sid = k then (case c of Some b \<Rightarrow> b | None \<Rightarrow> cached_in s k) else cached_in s sid)"
  by (auto simp: cached_in_def bump_service_generation_def Let_def update_conv' split: option.split)

lemma hhas_bump: "hhas (st_service_generation (bump_service_generation k c s)) sid \<longleftrightarrow> sid = k \<or> hhas (st_service_generation s) sid"
  by (simp add: bump_service_generation_def Let_def hhas_def update_conv')

lemma gens_ok_bump:
  "gens_ok M s \<Longrightarrow> gens_ok (\<lambda>sid. if sid = k then (case c of Some b \<Rightarrow> b | None \<Rightarrow> M k) else M sid) (bump_service_generation k c s)"
  unfolding gens_ok_def generation_of_bump cached_in_bump hhas_bump
  by (auto simp: bump_service_generation_def Let_def split: option.split)

lemma gens_ok_bump_None: "gens_ok M s \<Longrightarrow> gens_ok M (bump_service_generation k None s)"
proof -
  assume "gens_ok M s"
  moreover have "(\<lambda>sid. if sid = k then (case None of Some b \<Rightarrow> b | None \<Rightarrow> M k) else M sid) = M" by auto
  ultimately show ?thesis using gens_ok_bump [of M s k None] by (simp only:)
qed

lemma hget_filter: "hmap_ok m \<Longrightarrow> hget (filter (\<lambda>(k, v). P k v) m) k = (case hget m k of Some v \<Rightarrow> if P k v then Some v else None | None \<Rightarrow> None)"
proof (induction m)
  case (Cons kv m)
  then have "hmap_ok m" "fst kv \<notin> set (hkeys m)" by (auto simp: hmap_ok_def)
  moreover from this have "hget m (fst kv) = None" by (simp add: map_of_eq_None_iff)
  ultimately show ?case using Cons.IH by (cases kv) (auto split: option.splits)
qed simp

lemma hmap_ok_filter [simp]: "hmap_ok m \<Longrightarrow> hmap_ok (filter P m)"
  by (auto simp: hmap_ok_def intro: distinct_map_filter)

lemma gens_ok_prune: "gens_ok M s \<Longrightarrow> gens_ok M (prune_service_generations s)"
proof -
  assume ok: "gens_ok M s"
  let ?keep = "\<lambda>sid g. gn_cached g \<or> hhas (st_pending_set s) sid"
  have g: "hget (st_service_generation (prune_service_generations s)) sid =
      (case hget (st_service_generation s) sid of Some v \<Rightarrow> if ?keep sid v then Some v else None | None \<Rightarrow> None)" for sid
    using ok hget_filter [of "st_service_generation s" ?keep] by (simp add: prune_service_generations_def gens_ok_def)
  have "hmap_ok (st_service_generation (prune_service_generations s))"
    using ok by (simp add: prune_service_generations_def gens_ok_def)
  moreover have "cached_in (prune_service_generations s) sid = cached_in s sid" for sid
    by (simp add: cached_in_def g split: option.split)
  moreover have "hhas (st_service_generation (prune_service_generations s)) sid \<Longrightarrow>
      hhas (st_service_generation s) sid \<and> generation_of (prune_service_generations s) sid = generation_of s sid" for sid
    by (auto simp: hhas_def generation_of_def g split: option.splits if_splits)
  moreover have "st_generation_counter (prune_service_generations s) = st_generation_counter s" by (simp add: prune_service_generations_def)
  ultimately show ?thesis using ok by (simp add: gens_ok_def)
qed

lemma gens_ok_overflow: "gens_ok M s \<Longrightarrow> gens_ok M (overflow now s)"
proof -
  assume ok: "gens_ok M s"
  let ?s = "s\<lparr>st_pending_set := [], st_pending_order := []\<rparr>"
  have "gens_ok M (prune_service_generations ?s)" using ok gens_ok_cong [of ?s s M] by (intro gens_ok_prune) simp
  then show ?thesis unfolding overflow_def
    using gens_ok_cong [of "state_request_resync now (prune_service_generations ?s)" "prune_service_generations ?s" M] by simp
qed

lemma gens_ok_mark: "gens_ok M s \<Longrightarrow> gens_ok M (mark_service_dirty k now ts s)"
proof -
  assume "gens_ok M s"
  then have b: "gens_ok M (bump_service_generation k None s)" by (rule gens_ok_bump_None)
  then have "gens_ok M (bump_service_generation k None s\<lparr>st_pending_set := p, st_pending_order := q\<rparr>)"
    "gens_ok M (bump_service_generation k None s\<lparr>st_pending_set := p\<rparr>)" for p q
    using gens_ok_cong [of "bump_service_generation k None s\<lparr>st_pending_set := p, st_pending_order := q\<rparr>" "bump_service_generation k None s" M]
      gens_ok_cong [of "bump_service_generation k None s\<lparr>st_pending_set := p\<rparr>" "bump_service_generation k None s" M] by simp_all
  then show ?thesis using gens_ok_overflow [OF b] by (simp add: mark_service_dirty_def Let_def)
qed

lemma gens_ok_retry: "gens_ok M s \<Longrightarrow> gens_ok M (retry_service ds key now ts s)"
  using gens_ok_overflow [of M s ts] gens_ok_cong [of "state_request_resync ts s" s M]
    gens_ok_cong [of "s\<lparr>st_pending_set := hput (dk_service_id key) \<lparr>pk_attempts = dk_attempts key + 1, pk_not_before = now + ds ! dk_attempts key\<rparr> (st_pending_set s),
             st_pending_order := st_pending_order s @ [dk_service_id key]\<rparr>" s M]
  by (simp add: retry_service_def)

lemma sync_ok_cong:
  "resync_state t = resync_state s \<Longrightarrow> sync_ok b t = sync_ok b s"
  by (simp add: sync_ok_def resync_state_def)

lemma sync_ok_request: "sync_ok b s \<Longrightarrow> sync_ok b (state_request_resync now s)"
  by (auto simp: sync_ok_def state_request_resync_def Let_def)

lemma sync_ok_overflow: "sync_ok b s \<Longrightarrow> sync_ok b (overflow now s)"
  unfolding overflow_def
  by (intro sync_ok_request) (simp add: sync_ok_def)

lemma sync_ok_mark: "sync_ok b s \<Longrightarrow> sync_ok b (mark_service_dirty k now ts s)"
  using sync_ok_overflow [of b "bump_service_generation k None s" ts]
  by (simp add: mark_service_dirty_def sync_ok_def Let_def)

lemma sync_ok_retry: "sync_ok b s \<Longrightarrow> sync_ok b (retry_service ds key now ts s)"
  using sync_ok_overflow [of b s ts] sync_ok_request [of b s ts] by (simp add: retry_service_def sync_ok_def)

end
