(* ===== verification/Reconciler_Invariant.thy ===== *)
theory Reconciler_Invariant
  imports Reconciler_Facts
begin

text \<open>
  Every operation of the reconciler keeps its invariant \<open>rec_ok\<close>. Applying, removing and refreshing are
  shown on their error-free forms; the steps follow, whatever Docker answers and also when a step
  stops halfway.
\<close>

section \<open>Frames\<close>

lemma replica_counts_desired [simp]: "replica_counts E (md\<lparr>sm_desired_replicas := d\<rparr>) nodes = replica_counts E md nodes"
  by (simp add: replica_counts_def placement_from_metadata_def Let_def)

lemma families_ok_cong:
  "rc_collectors t = rc_collectors r \<Longrightarrow> families_ok cls t = families_ok cls r"
  by (simp add: families_ok_def)

lemma families_ok_on_state [simp]: "families_ok cls (on_state f r) = families_ok cls r"
  by (simp add: families_ok_def on_state_def)

lemma families_ok_on_update: "families_ok cls r \<Longrightarrow> families_ok cls (on_update (updated s md) r)"
  by (simp add: families_ok_def on_update_def updated_ok)

text \<open>What a change of the shared state has to keep, and the pieces it leaves alone.\<close>

lemma rec_ok_on_state:
  assumes "rec_ok E cls r" and "gens_ok (hhas (rc_metadata r)) (f (rc_state r))" and "queue_ok (f (rc_state r))"
    and "sync_ok (rc_ready r) (f (rc_state r))"
  shows "rec_ok E cls (on_state f r)"
  using assms
  by (simp add: rec_ok_def families_ok_def cache_ok_def desired_ok_def generations_ok_def resync_ok_def backoff_ok_def
      series_ok_def exported_def base_gauges_def owned_def on_state_def Let_def)

lemma rec_ok_cong:
  assumes "co_custom_labels (rc_collectors t) = co_custom_labels (rc_collectors r)"
    and "co_replica_gauges (rc_collectors t) = co_replica_gauges (rc_collectors r)"
    and "co_service_update (rc_collectors t) = co_service_update (rc_collectors r)"
    and "rs_descs_ok cls (co_replicas_state (rc_collectors t)) = rs_descs_ok cls (co_replicas_state (rc_collectors r))"
    and "nodes_ok (co_nodes_by_state (rc_collectors t)) = nodes_ok (co_nodes_by_state (rc_collectors r))"
    and "rc_metadata t = rc_metadata r" "rc_nodes t = rc_nodes r" "rc_state t = rc_state r" "rc_ready t = rc_ready r"
    and "backoff_ok r \<Longrightarrow> backoff_ok t"
  shows "rec_ok E cls r \<Longrightarrow> rec_ok E cls t"
  using assms
  by (simp add: rec_ok_def families_ok_def cache_ok_def desired_ok_def generations_ok_def resync_ok_def
      series_ok_def exported_def base_gauges_def owned_def Let_def)

lemma rec_ok_metrics [simp]: "rec_ok E cls r \<Longrightarrow> rec_ok E cls (on_metrics f r)"
  by (rule rec_ok_cong [where r = r]) (simp_all add: on_metrics_def backoff_ok_def)

lemma rec_ok_signal [simp]: "rec_ok E cls r \<Longrightarrow> rec_ok E cls (signal r)"
  by (rule rec_ok_cong [where r = r]) (simp_all add: signal_def backoff_ok_def)

lemma rec_ok_parts:
  assumes "rec_ok E cls r"
  shows "families_ok cls r" "cache_ok cls r" "desired_ok E r" "gens_ok (hhas (rc_metadata r)) (rc_state r)"
    "queue_ok (rc_state r)" "sync_ok (rc_ready r) (rc_state r)" "backoff_ok r" "states_known cls r"
    "fits (base_label_names cls) l \<Longrightarrow> exported r l \<Longrightarrow> owned r l"
  using assms by (simp_all add: rec_ok_def generations_ok_def resync_ok_def series_ok_alt)

section \<open>Applying a service\<close>

lemma hhas_hput: "hhas (hput k v m) = (\<lambda>x. if x = k then True else hhas m x)"
  by (auto simp: hhas_def update_conv')

lemma hhas_hdel: "hhas (hdel k m) = (\<lambda>x. if x = k then False else hhas m x)"
  by (auto simp: hhas_def delete_conv')

lemma retired_exported:
  assumes "rec_ok E cls r" "fits (base_label_names cls) l"
  shows "states_known cls (retired_identity s md r)"
    and "exported (retired_identity s md r) l \<Longrightarrow> exported r l \<and>
      (\<forall>old. hget (rc_metadata r) (svc_id s) = Some old \<longrightarrow> labels_for_metadata old = l \<longrightarrow> labels_for_metadata md = l)"
proof -
  note r = rec_ok_parts [OF assms(1)]
  have del: "exported (delete_service_series old r) l \<longleftrightarrow> l \<noteq> labels_for_metadata old \<and> exported r l"
    "states_known cls (delete_service_series old r)" if "hget (rc_metadata r) (svc_id s) = Some old" for old
    using exported_delete [OF r(1,8) _ assms(2)] r(2) that by (auto simp: cache_ok_def)
  show "states_known cls (retired_identity s md r)"
    using r(8) del(2) by (simp add: retired_identity_def split: option.split)
  show "exported (retired_identity s md r) l \<Longrightarrow> exported r l \<and>
      (\<forall>old. hget (rc_metadata r) (svc_id s) = Some old \<longrightarrow> labels_for_metadata old = l \<longrightarrow> labels_for_metadata md = l)"
    using del(1) by (auto simp: retired_identity_def split: option.splits if_splits)
qed

lemma rec_ok_written:
  assumes "rec_ok E cls r" and "build_metadata s cls = Inr md"
  shows "rec_ok E cls (written E s md (rc_nodes r) (retired_identity s md r))"
proof -
  obtain d v where dv: "replica_counts E md (rc_nodes r) = (d, v)" by (cases "replica_counts E md (rc_nodes r)")
  let ?md = "md\<lparr>sm_desired_replicas := d\<rparr>" and ?i = "svc_id s"
  let ?r0 = "retired_identity s md r"
  let ?r1 = "?r0\<lparr>rc_metadata := hput ?i ?md (rc_metadata r)\<rparr>"
  let ?r2 = "gauges_written ?md d v ?r1"
  let ?r3 = "on_update (updated s ?md) ?r2"
  let ?r4 = "on_state (bump_service_generation ?i (Some True)) ?r3"
  note r = rec_ok_parts [OF assms(1)]
  have w: "written E s md (rc_nodes r) ?r0 = ?r4" by (simp add: written_def dv Let_def)
  have m: "metadata_ok cls ?md" using metadata_ok_build [OF assms(2)] by simp
  have f1: "families_ok cls ?r1" using families_ok_retired [OF r(1)] by simp
  note f2 = families_ok_gauges_written [OF f1, of ?md d v]
  have meta: "rc_metadata ?r4 = hput ?i ?md (rc_metadata r)" "rc_state ?r4 = bump_service_generation ?i (Some True) (rc_state r)"
    "rc_nodes ?r4 = rc_nodes r" "rc_ready ?r4 = rc_ready r" "backoff_ok ?r4 = backoff_ok r"
    by (simp_all add: on_state_def on_update_def backoff_ok_def) (simp add: gauges_written_def on_gauges_def retired_identity_def delete_service_series_def on_update_def Let_def split: option.split)
  have sk1: "states_known cls ?r1" if "fits (base_label_names cls) l" for l
    using retired_exported(1) [OF assms(1) that, of s md] exported_cong [of ?r1 ?r0] by simp
  have ex: "exported ?r4 l \<longleftrightarrow> l = labels_for_metadata md \<or> exported ?r0 l" and sk: "states_known cls ?r4"
    if l: "fits (base_label_names cls) l" for l
  proof -
    have s2: "states_known cls ?r2" using sk1 [OF l] exported_gauges_written(2) [OF f1 m l] by simp
    show "exported ?r4 l \<longleftrightarrow> l = labels_for_metadata md \<or> exported ?r0 l"
      using exported_updated(1) [OF f2 s2 m l] exported_gauges_written(1) [OF f1 m l]
        exported_cong [of ?r4 ?r3 l cls] exported_cong [of ?r1 ?r0 l cls] by (auto simp: on_state_def)
    show "states_known cls ?r4"
      using exported_updated(2) [OF f2 s2 m l] exported_cong [of ?r4 ?r3 l cls] by (simp add: on_state_def)
  qed
  have own: "owned ?r4 l" if l: "fits (base_label_names cls) l" and "exported ?r4 l" for l
  proof (cases "l = labels_for_metadata md")
    case True
    then show ?thesis unfolding owned_def meta by (intro exI [of _ ?i] exI [of _ ?md]) (simp add: update_conv')
  next
    case False
    then have e: "exported ?r0 l" using ex [OF l] that(2) by simp
    then obtain sid o' where o: "hget (rc_metadata r) sid = Some o'" "labels_for_metadata o' = l"
      using retired_exported(2) [OF assms(1) l e] r(9) [OF l] by (auto simp: owned_def)
    have "sid \<noteq> ?i" using retired_exported(2) [OF assms(1) l e] o False by auto
    then show ?thesis using o unfolding owned_def meta by (intro exI [of _ sid] exI [of _ o']) (simp add: update_conv')
  qed
  have "generations_ok ?r4"
    using gens_ok_bump [OF r(4), of ?i "Some True"] unfolding generations_ok_def meta hhas_hput by (simp only: option.case)
  moreover have "cache_ok cls ?r4" using r(2) m build_mode [OF assms(2)] unfolding cache_ok_def meta by (simp add: update_conv')
  moreover have "desired_ok E ?r4" using r(3) dv unfolding desired_ok_def meta by (simp add: update_conv')
  moreover have "resync_ok ?r4" using r(6) unfolding resync_ok_def meta by (simp add: sync_ok_def)
  moreover have "queue_ok (rc_state ?r4)" using r(5) unfolding meta by (simp add: queue_ok_def)
  moreover have "series_ok cls ?r4" unfolding series_ok_alt
  proof -
    have "fits (base_label_names cls) (labels_for_metadata ?md)" by (rule families_fits [OF f1 m])
    then show "states_known cls ?r4 \<and> (\<forall>l. fits (base_label_names cls) l \<longrightarrow> exported ?r4 l \<longrightarrow> owned ?r4 l)"
      using sk own by blast
  qed
  moreover have "families_ok cls ?r4" using families_ok_on_update [OF f2, of s ?md] by simp
  moreover have "backoff_ok ?r4" using r(7) meta(5) by simp
  ultimately show ?thesis unfolding w rec_ok_def by blast
qed

lemma rec_ok_apply_service:
  assumes "rec_ok E cls r"
  shows "rec_ok E cls (outcome_state (apply_service E s (rc_nodes r) r))"
proof (cases "build_metadata s cls")
  case (Inl p)
  moreover have "co_custom_labels (rc_collectors r) = cls" using rec_ok_parts(1) [OF assms] by (simp add: families_ok_def)
  ultimately show ?thesis using assms by (simp add: apply_service_def)
next
  case (Inr md)
  show ?thesis
    unfolding apply_service_result [OF rec_ok_parts(1) [OF assms] Inr] using rec_ok_written [OF assms Inr] by simp
qed

section \<open>Removing a service\<close>

definition uncached :: "string \<Rightarrow> shared_state \<Rightarrow> shared_state" where
  "uncached sid s =
     (if hhas (st_pending_set s) sid
      then (case hget (st_service_generation s) sid of
              Some g \<Rightarrow> s\<lparr>st_service_generation := hput sid (g\<lparr>gn_cached := False\<rparr>) (st_service_generation s)\<rparr>
            | None \<Rightarrow> s)
      else s\<lparr>st_service_generation := hdel sid (st_service_generation s)\<rparr>)"

definition dropped :: "string \<Rightarrow> reconciler \<Rightarrow> reconciler" where
  "dropped sid r =
     (case hget (rc_metadata r) sid of
        Some md \<Rightarrow> (delete_service_series md r)\<lparr>rc_metadata := hdel sid (rc_metadata r)\<rparr>
      | None \<Rightarrow> r)"

lemma remove_service_result:
  "remove_service sid r = on_state (uncached sid) (on_replicas_state (forget_service sid) (dropped sid r))"
proof -
  have "uncached sid = (\<lambda>s. if hhas (st_pending_set s) sid
           then (case hget (st_service_generation s) sid of
                   Some g \<Rightarrow> s\<lparr>st_service_generation := hput sid (g\<lparr>gn_cached := False\<rparr>) (st_service_generation s)\<rparr>
                 | None \<Rightarrow> s)
           else s\<lparr>st_service_generation := hdel sid (st_service_generation s)\<rparr>)"
    by (intro ext) (simp add: uncached_def)
  moreover have "dropped sid r = (case mc_get (rc_metadata r) sid of
                 Some md \<Rightarrow> let r = delete_service_series md r in r\<lparr>rc_metadata := mc_delete sid (rc_metadata r)\<rparr>
               | None \<Rightarrow> r)"
    by (simp add: dropped_def mc_get_def mc_delete_def split: option.split)
  ultimately show ?thesis by (simp add: remove_service_def Let_def)
qed

lemma uncached_frame [simp]:
  "st_pending_set (uncached sid s) = st_pending_set s" "st_pending_order (uncached sid s) = st_pending_order s"
  "st_pending_cap (uncached sid s) = st_pending_cap s" "st_epoch (uncached sid s) = st_epoch s"
  "st_resync_requested (uncached sid s) = st_resync_requested s" "st_resync_completed (uncached sid s) = st_resync_completed s"
  "st_resync_outstanding_since (uncached sid s) = st_resync_outstanding_since s"
  "st_generation_counter (uncached sid s) = st_generation_counter s"
  "st_node_generation (uncached sid s) = st_node_generation s" "st_nodes_dirty (uncached sid s) = st_nodes_dirty s"
  by (simp_all add: uncached_def split: option.split)

lemma hget_uncached:
  "hmap_ok (st_service_generation s) \<Longrightarrow> hget (st_service_generation (uncached sid s)) k =
     (if k = sid then (if hhas (st_pending_set s) sid then map_option (\<lambda>g. g\<lparr>gn_cached := False\<rparr>) (hget (st_service_generation s) sid) else None)
      else hget (st_service_generation s) k)"
  by (simp add: uncached_def update_conv' delete_conv' split: option.split)

lemma gens_ok_uncached: "gens_ok M s \<Longrightarrow> gens_ok (\<lambda>k. if k = sid then False else M k) (uncached sid s)"
proof -
  assume ok: "gens_ok M s"
  have h: "hmap_ok (st_service_generation s)" using ok by (simp add: gens_ok_def)
  have "hmap_ok (st_service_generation (uncached sid s))" using h by (simp add: uncached_def split: option.split)
  moreover have "cached_in (uncached sid s) k = (k \<noteq> sid \<and> cached_in s k)" for k
    by (simp add: cached_in_def hget_uncached [OF h] split: option.split)
  moreover have "hhas (st_service_generation (uncached sid s)) k \<Longrightarrow> hhas (st_service_generation s) k
      \<and> generation_of (uncached sid s) k = generation_of s k" for k
    by (auto simp: hhas_def generation_of_def hget_uncached [OF h] split: if_splits option.split)
  ultimately show ?thesis using ok by (simp add: gens_ok_def)
qed

lemma rec_ok_remove:
  assumes "rec_ok E cls r"
  shows "rec_ok E cls (remove_service sid r)"
proof -
  note r = rec_ok_parts [OF assms]
  let ?t = "remove_service sid r"
  have meta: "rc_metadata ?t = hdel sid (rc_metadata r)" "rc_state ?t = uncached sid (rc_state r)" "rc_nodes ?t = rc_nodes r"
    "rc_ready ?t = rc_ready r" "backoff_ok ?t = backoff_ok r"
    by (simp_all add: remove_service_result on_defs dropped_def backoff_ok_def delete_service_series_def Let_def
        delete_id map_of_eq_None_iff split: option.split)
  have "families_ok cls (dropped sid r)" using r(1) by (simp add: dropped_def families_ok_delete split: option.split)
  then have fam: "families_ok cls ?t"
    by (simp add: remove_service_result families_ok_def on_defs rs_descs_ok_def forget_service_def)
  have ex: "states_known cls ?t \<and> (exported ?t l \<longrightarrow> owned ?t l)" if l: "fits (base_label_names cls) l" for l
  proof -
    have t: "exported ?t l = exported (dropped sid r) l" "states_known cls ?t = states_known cls (dropped sid r)"
      using exported_cong [of ?t "dropped sid r" l cls] by (simp_all add: remove_service_result on_defs)
    show ?thesis
    proof (cases "hget (rc_metadata r) sid")
      case None
      then have same: "dropped sid r = r" "rc_metadata ?t = rc_metadata r"
        using delete_id [of sid "rc_metadata r"] by (simp_all add: dropped_def meta map_of_eq_None_iff [symmetric])
      show ?thesis using t same r(8) r(9) [OF l] by (simp add: owned_def)
    next
      case (Some md)
      then have m: "metadata_ok cls md" using r(2) by (simp add: cache_ok_def)
      note del = exported_delete [OF r(1,8) m l]
      have d: "exported (dropped sid r) l = exported (delete_service_series md r) l"
        "states_known cls (dropped sid r) = states_known cls (delete_service_series md r)"
        using exported_cong [of "dropped sid r" "delete_service_series md r" l cls] Some by (simp_all add: dropped_def)
      have "owned ?t l" if "exported ?t l"
      proof -
        have n: "l \<noteq> labels_for_metadata md" "owned r l" using that t(1) d(1) del(1) r(9) [OF l] by auto
        from n(2) obtain k o' where "hget (rc_metadata r) k = Some o'" "labels_for_metadata o' = l" by (auto simp: owned_def)
        with n(1) Some show ?thesis unfolding owned_def meta
          by (intro exI [of _ k] exI [of _ o']) (auto simp: delete_conv')
      qed
      then show ?thesis using t(2) d(2) del(2) by simp
    qed
  qed
  have "generations_ok ?t"
    using gens_ok_uncached [OF r(4), of sid] unfolding generations_ok_def meta hhas_hdel by simp
  moreover have "cache_ok cls ?t" "desired_ok E ?t" using r(2,3)
    unfolding cache_ok_def desired_ok_def meta by (simp_all add: delete_conv')
  moreover have "resync_ok ?t" using r(6) unfolding resync_ok_def meta by (simp add: sync_ok_def)
  moreover have "queue_ok (rc_state ?t)" using r(5) unfolding meta by (simp add: queue_ok_def)
  moreover have "series_ok cls ?t" using ex fam r(1) families_fits unfolding series_ok_alt states_known_def by blast
  moreover have "backoff_ok ?t" using r(7) meta(5) by simp
  ultimately show ?thesis using fam unfolding rec_ok_def by blast
qed

section \<open>Refreshing the nodes\<close>

lemma node_write_frame [simp]:
  "rc_state (node_write E nodes e r) = rc_state r" "rc_nodes (node_write E nodes e r) = rc_nodes r"
  "rc_ready (node_write E nodes e r) = rc_ready r" "backoff_ok (node_write E nodes e r) = backoff_ok r"
  by (simp_all add: node_write_def split_def Let_def backoff_ok_def gauges_written_def on_gauges_def)

lemma node_writes_frame [simp]:
  "rc_state (fold (node_write E nodes) es r) = rc_state r" "rc_nodes (fold (node_write E nodes) es r) = rc_nodes r"
  "rc_ready (fold (node_write E nodes) es r) = rc_ready r" "backoff_ok (fold (node_write E nodes) es r) = backoff_ok r"
  by (induction es arbitrary: r) simp_all

text \<open>The metadata of one cached service with its desired replicas recomputed.\<close>

definition recounted :: "extern \<Rightarrow> node list \<Rightarrow> service_metadata \<Rightarrow> service_metadata" where
  "recounted E nodes md = md\<lparr>sm_desired_replicas := fst (replica_counts E md nodes)\<rparr>"

lemma recounted_simps [simp]:
  "labels_for_metadata (recounted E nodes md) = labels_for_metadata md" "metadata_ok cls (recounted E nodes md) = metadata_ok cls md"
  "replica_counts E (recounted E nodes md) n = replica_counts E md n"
  "sm_desired_replicas (recounted E nodes md) = fst (replica_counts E md nodes)"
  "sm_service_mode (recounted E nodes md) = sm_service_mode md"
  by (simp_all add: recounted_def)

lemma hget_set_desired:
  "hget m sid = Some md \<Longrightarrow> hget (mc_set_desired_replicas sid d m) = (hget m)(sid \<mapsto> md\<lparr>sm_desired_replicas := d\<rparr>)"
  by (auto simp: mc_set_desired_replicas_def update_conv' fun_eq_iff)

lemma hmap_ok_set_desired: "hmap_ok m \<Longrightarrow> hmap_ok (mc_set_desired_replicas sid d m)"
  by (simp add: mc_set_desired_replicas_def split: option.split)

lemma node_writes_metadata:
  assumes "distinct (map fst es)" and "\<forall>(sid, md) \<in> set es. hget (rc_metadata r) sid = Some md" and "hmap_ok (rc_metadata r)"
  shows "hmap_ok (rc_metadata (fold (node_write E nodes) es r))
    \<and> hget (rc_metadata (fold (node_write E nodes) es r)) k =
      (case map_of es k of Some md \<Rightarrow> Some (recounted E nodes md) | None \<Rightarrow> hget (rc_metadata r) k)"
  using assms
proof (induction es arbitrary: r)
  case (Cons e es)
  obtain sid md where e: "e = (sid, md)" by (cases e)
  let ?r = "node_write E nodes e r"
  have m: "rc_metadata ?r = mc_set_desired_replicas sid (fst (replica_counts E md nodes)) (rc_metadata r)"
    by (simp add: node_write_def e Let_def)
  have g: "hget (rc_metadata ?r) = (hget (rc_metadata r))(sid \<mapsto> recounted E nodes md)"
    unfolding m recounted_def using Cons.prems(2) by (intro hget_set_desired) (simp add: e)
  have notin: "sid \<notin> fst ` set es" using Cons.prems(1) by (simp add: e)
  have "\<forall>(s, d) \<in> set es. hget (rc_metadata ?r) s = Some d"
    using Cons.prems(2) notin g by (auto simp: e rev_image_eqI)
  moreover have "hmap_ok (rc_metadata ?r)" using Cons.prems(3) unfolding m by (rule hmap_ok_set_desired)
  ultimately have "hmap_ok (rc_metadata (fold (node_write E nodes) es ?r))
    \<and> hget (rc_metadata (fold (node_write E nodes) es ?r)) k =
      (case map_of es k of Some md \<Rightarrow> Some (recounted E nodes md) | None \<Rightarrow> hget (rc_metadata ?r) k)"
    using Cons.prems(1) by (intro Cons.IH) simp_all
  moreover have "map_of es sid = None" using notin by (simp add: map_of_eq_None_iff)
  ultimately show ?case using g by (auto simp: e split: option.split)
qed simp

lemma node_writes_families: "families_ok cls r \<Longrightarrow> families_ok cls (fold (node_write E nodes) es r)"
  by (induction es arbitrary: r) (simp_all add: families_ok_node_write)

lemma node_writes_exported:
  assumes "families_ok cls r" "\<forall>(sid, md) \<in> set es. metadata_ok cls md" "fits (base_label_names cls) l"
  shows "(exported (fold (node_write E nodes) es r) l \<longleftrightarrow> (\<exists>(sid, md) \<in> set es. labels_for_metadata md = l) \<or> exported r l)
    \<and> states_known cls (fold (node_write E nodes) es r) = states_known cls r"
  using assms(1,2)
proof (induction es arbitrary: r)
  case (Cons e es)
  obtain sid md where e: "e = (sid, md)" by (cases e)
  let ?r = "node_write E nodes e r"
  let ?m = "r\<lparr>rc_metadata := mc_set_desired_replicas sid (fst (replica_counts E md nodes)) (rc_metadata r)\<rparr>"
  have r: "?r = gauges_written md (fst (replica_counts E md nodes)) (snd (replica_counts E md nodes)) ?m"
    by (simp add: node_write_def e Let_def)
  have f: "families_ok cls ?m" "metadata_ok cls md" using Cons.prems by (simp_all add: e)
  have "(exported ?r l \<longleftrightarrow> l = labels_for_metadata md \<or> exported r l) \<and> states_known cls ?r = states_known cls r"
    using exported_gauges_written [OF f assms(3)] exported_cong [of ?m r l cls] unfolding r by simp
  then show ?case using Cons.IH [OF families_ok_node_write [OF Cons.prems(1)]] Cons.prems(2) by (auto simp: e)
qed simp

lemma rec_ok_nodes_applied:
  assumes "rec_ok E cls r"
  shows "rec_ok E cls (nodes_applied E nodes r)"
    and "rc_nodes (nodes_applied E nodes r) = nodes"
    and "hget (rc_metadata (nodes_applied E nodes r)) sid = map_option (recounted E nodes) (hget (rc_metadata r) sid)"
    and "rc_ready (nodes_applied E nodes r) = rc_ready r"
    and "rc_state (nodes_applied E nodes r) = (rc_state r)\<lparr>st_node_generation := Suc (st_node_generation (rc_state r))\<rparr>"
proof -
  note r = rec_ok_parts [OF assms]
  let ?r0 = "on_nodes_by_state (update_from_slice nodes) (r\<lparr>rc_nodes := nodes\<rparr>)"
  let ?r1 = "fold (node_write E nodes) (rc_metadata r) ?r0" and ?t = "nodes_applied E nodes r"
  have t: "?t = on_state (\<lambda>s. s\<lparr>st_node_generation := Suc (st_node_generation s)\<rparr>) ?r1" by (simp add: nodes_applied_def)
  have f0: "families_ok cls ?r0" using r(1) by simp
  have h: "hmap_ok (rc_metadata r)" using r(2) by (simp add: cache_ok_def)
  have all: "\<forall>(sid, md) \<in> set (rc_metadata r). metadata_ok cls md" "\<forall>(sid, md) \<in> set (rc_metadata r). hget (rc_metadata r) sid = Some md"
    using r(2) hget_mem_iff [OF h] by (auto simp: cache_ok_def)
  have m0: "rc_metadata ?r0 = rc_metadata r" by (simp add: on_nodes_by_state_def)
  have meta: "hmap_ok (rc_metadata ?t)" "hget (rc_metadata ?t) k = map_option (recounted E nodes) (hget (rc_metadata r) k)" for k
    using node_writes_metadata [of "rc_metadata r" ?r0 E nodes k] all(2) h m0
    by (simp_all add: t on_state_def hmap_ok_def split: option.split)
  show nodes: "rc_nodes ?t = nodes" by (simp add: t on_state_def on_nodes_by_state_def)
  show hg: "hget (rc_metadata ?t) sid = map_option (recounted E nodes) (hget (rc_metadata r) sid)" by (rule meta(2))
  show ready: "rc_ready ?t = rc_ready r" by (simp add: t on_state_def on_nodes_by_state_def)
  show state: "rc_state ?t = (rc_state r)\<lparr>st_node_generation := Suc (st_node_generation (rc_state r))\<rparr>"
    by (simp add: t on_state_def on_nodes_by_state_def)
  have has: "hhas (rc_metadata ?t) = hhas (rc_metadata r)" by (intro ext) (simp add: hhas_def meta)
  have series: "exported ?t l \<longrightarrow> owned ?t l" "states_known cls ?t" if l: "fits (base_label_names cls) l" for l
  proof -
    note w = node_writes_exported [OF f0 all(1) l, of E nodes]
    have c: "exported ?t l = exported ?r1 l" "states_known cls ?t = states_known cls ?r1" "exported ?r0 l = exported r l" "states_known cls ?r0 = states_known cls r"
      using exported_cong [of ?t ?r1 l cls] exported_cong [of ?r0 r l cls] by (simp_all add: t on_state_def on_nodes_by_state_def)
    show "states_known cls ?t" using c w r(8) by simp
    have "owned ?t l" if "owned r l"
    proof -
      from that obtain k md where "hget (rc_metadata r) k = Some md" "labels_for_metadata md = l" by (auto simp: owned_def)
      then show ?thesis unfolding owned_def by (intro exI [of _ k] exI [of _ "recounted E nodes md"]) (simp add: meta)
    qed
    moreover have "owned r l" if "(sid, md) \<in> set (rc_metadata r)" "labels_for_metadata md = l" for sid md
      using that hget_mem_iff [OF h] by (auto simp: owned_def)
    ultimately show "exported ?t l \<longrightarrow> owned ?t l" using c w r(9) [OF l] by auto
  qed
  have "families_ok cls ?t"
    unfolding t families_ok_on_state by (rule node_writes_families [OF f0])
  moreover have "cache_ok cls ?t" using r(2) meta by (auto simp: cache_ok_def)
  moreover have "desired_ok E ?t" using meta nodes by (auto simp: desired_ok_def)
  moreover have "generations_ok ?t" using r(4) gens_ok_cong [of "rc_state ?t" "rc_state r"] state has by (simp add: generations_ok_def)
  moreover have "queue_ok (rc_state ?t)" using r(5) state by (simp add: queue_ok_def)
  moreover have "resync_ok ?t" using r(6) state ready by (simp add: resync_ok_def sync_ok_def)
  moreover have "backoff_ok ?t" 
  proof -
    have "backoff_ok ?t = backoff_ok ?r1" by (simp add: t on_state_def backoff_ok_def)
    also have "\<dots> = backoff_ok r" by (simp only: node_writes_frame) (simp add: on_nodes_by_state_def backoff_ok_def)
    finally show ?thesis using r(7) by simp
  qed
  moreover have "series_ok cls ?t" using series unfolding series_ok_alt states_known_def by blast
  ultimately show "rec_ok E cls ?t" unfolding rec_ok_def by blast
qed

section \<open>The steps\<close>

text \<open>What a step leaves of the shared state and the node snapshot: no step touches the resync requests.\<close>

definition same_requests :: "reconciler \<Rightarrow> reconciler \<Rightarrow> bool" where
  "same_requests r t \<longleftrightarrow> resync_state (rc_state t) = resync_state (rc_state r) \<and> rc_ready t = rc_ready r \<and> rc_nodes t = rc_nodes r"

lemma same_requests_trans: "same_requests r s \<Longrightarrow> same_requests s t \<Longrightarrow> same_requests r t"
  by (simp add: same_requests_def)

lemma same_requests_apply:
  assumes "rec_ok E cls r"
  shows "same_requests r (outcome_state (apply_service E s nodes r))"
proof (cases "build_metadata s cls")
  case (Inl p)
  moreover have "co_custom_labels (rc_collectors r) = cls" using rec_ok_parts(1) [OF assms] by (simp add: families_ok_def)
  ultimately show ?thesis by (simp add: apply_service_def same_requests_def)
next
  case (Inr md)
  show ?thesis unfolding apply_service_result [OF rec_ok_parts(1) [OF assms] Inr]
    by (simp add: same_requests_def written_def on_state_def on_update_def resync_state_def Let_def)
qed

lemma same_requests_remove: "same_requests r (remove_service sid r)"
  by (simp add: same_requests_def remove_service_result on_defs dropped_def resync_state_def split: option.split)

lemma apply_services_keeps:
  assumes "rec_ok E cls r"
  shows "rec_ok E cls (outcome_state (for_each (\<lambda>s. apply_service E s (rc_nodes r)) ss r))
    \<and> same_requests r (outcome_state (for_each (\<lambda>s. apply_service E s (rc_nodes r)) ss r))"
proof (rule for_each_invariant [where I = "\<lambda>t. rec_ok E cls t \<and> same_requests r t"])
  show "rec_ok E cls r \<and> same_requests r r" using assms by (simp add: same_requests_def)
  fix s t
  assume t: "rec_ok E cls t \<and> same_requests r t"
  then have n: "rc_nodes t = rc_nodes r" by (simp add: same_requests_def)
  show "rec_ok E cls (outcome_state (apply_service E s (rc_nodes r) t)) \<and> same_requests r (outcome_state (apply_service E s (rc_nodes r) t))"
    using t rec_ok_apply_service [of E cls t s] same_requests_apply [of E cls t s "rc_nodes t"] same_requests_trans n by auto
qed

text \<open>The removal of what Docker no longer lists.\<close>

definition removed_unlisted :: "string list \<Rightarrow> string list \<Rightarrow> reconciler \<Rightarrow> reconciler" where
  "removed_unlisted listed ids r = fold (\<lambda>service_id r. if service_id \<in> set listed then r else remove_service service_id r) ids r"

lemma removed_unlisted_keeps:
  "rec_ok E cls r \<Longrightarrow> rec_ok E cls (removed_unlisted listed ids r) \<and> same_requests r (removed_unlisted listed ids r)"
proof (induction ids arbitrary: r)
  case (Cons i ids)
  let ?r = "if i \<in> set listed then r else remove_service i r"
  have "rec_ok E cls ?r" "same_requests r ?r" using Cons.prems rec_ok_remove [OF Cons.prems] same_requests_remove by (simp_all add: same_requests_def)
  moreover from this have "rec_ok E cls (removed_unlisted listed ids ?r) \<and> same_requests ?r (removed_unlisted listed ids ?r)" by (intro Cons.IH)
  moreover have "removed_unlisted listed (i # ids) r = removed_unlisted listed ids ?r" by (simp add: removed_unlisted_def)
  ultimately show ?case using same_requests_trans by metis
qed (simp add: removed_unlisted_def same_requests_def)

lemma rec_ok_prune: "rec_ok E cls r \<Longrightarrow> rec_ok E cls (on_state prune_service_generations r)"
proof (rule rec_ok_on_state)
  assume ok: "rec_ok E cls r"
  note r = rec_ok_parts [OF ok]
  show "gens_ok (hhas (rc_metadata r)) (prune_service_generations (rc_state r))" by (rule gens_ok_prune [OF r(4)])
  show "queue_ok (prune_service_generations (rc_state r))" using r(5) by (simp add: prune_service_generations_def queue_ok_def)
  show "sync_ok (rc_ready r) (prune_service_generations (rc_state r))" using r(6) by (simp add: prune_service_generations_def sync_ok_def)
qed

lemma rec_ok_complete:
  assumes "rec_ok E cls r" and "1 \<le> target" and "target \<le> st_resync_requested (rc_state r)"
  shows "rec_ok E cls (complete_resync target pass_start now ts r)"
proof -
  note r = rec_ok_parts [OF assms(1)]
  let ?f = "\<lambda>s. let s = s\<lparr>st_resync_completed := max (st_resync_completed s) target\<rparr>
            in s\<lparr>st_resync_outstanding_since := (if st_resync_requested s = st_resync_completed s then None else Some pass_start)\<rparr>"
  let ?t = "complete_resync target pass_start now ts r"
  have t: "rc_state ?t = ?f (rc_state r)" "rc_metadata ?t = rc_metadata r" "rc_nodes ?t = rc_nodes r" "rc_ready ?t"
    "co_custom_labels (rc_collectors ?t) = co_custom_labels (rc_collectors r)" "co_replica_gauges (rc_collectors ?t) = co_replica_gauges (rc_collectors r)"
    "co_service_update (rc_collectors ?t) = co_service_update (rc_collectors r)" "co_replicas_state (rc_collectors ?t) = co_replicas_state (rc_collectors r)"
    "co_nodes_by_state (rc_collectors ?t) = co_nodes_by_state (rc_collectors r)" "backoff_ok ?t"
    using r(7) by (simp_all add: complete_resync_def on_metrics_def on_state_def backoff_ok_def Let_def)
  have "gens_ok (hhas (rc_metadata r)) (?f (rc_state r))" using r(4) by (simp add: gens_ok_def cached_in_def generation_of_def Let_def)
  moreover have "queue_ok (?f (rc_state r))" using r(5) by (simp add: queue_ok_def Let_def)
  moreover have "sync_ok True (?f (rc_state r))" using r(6) assms(2,3) by (auto simp: sync_ok_def Let_def)
  ultimately show ?thesis using assms(1) t
    by (simp add: rec_ok_def families_ok_def cache_ok_def desired_ok_def generations_ok_def resync_ok_def
      series_ok_def exported_def base_gauges_def owned_def Let_def)
qed

lemma resync_end_ok:
  "resync_end E (Inr (services, nodes)) target pass_start now ts r =
     and_then (apply_nodes E nodes r)
       (\<lambda>r. and_then (for_each (\<lambda>s. apply_service E s nodes) services r)
       (\<lambda>r. Done (complete_resync target pass_start now ts
          (on_state prune_service_generations (removed_unlisted (map svc_id services) (hkeys (rc_metadata r)) r)))))"
  by (simp add: resync_end_def removed_unlisted_def mc_ids_def Let_def)

lemma backoff_ok_retry: "backoff_ok r \<Longrightarrow> backoff_ok (schedule_resync_retry now r)"
  by (simp add: backoff_ok_def schedule_resync_retry_def)

lemma rec_ok_schedule: "rec_ok E cls r \<Longrightarrow> rec_ok E cls (schedule_resync_retry now r)"
  using backoff_ok_retry by (rule rec_ok_cong [where r = r, rotated 9]) (simp_all add: schedule_resync_retry_def)

lemma rec_ok_resync_end:
  assumes "rec_ok E cls r" and "1 \<le> target" and "target \<le> st_resync_requested (rc_state r)"
  shows "rec_ok E cls (outcome_state (resync_end E listed target pass_start now ts r))"
proof (cases listed)
  case (Inl e)
  then show ?thesis using assms(1) by (simp add: resync_end_def rec_ok_schedule)
next
  case (Inr lists)
  obtain services nodes where l: "listed = Inr (services, nodes)" using Inr by (cases lists) simp
  note r = rec_ok_parts [OF assms(1)]
  let ?n = "nodes_applied E nodes r"
  have n: "rec_ok E cls ?n" "rc_nodes ?n = nodes" "st_resync_requested (rc_state ?n) = st_resync_requested (rc_state r)"
    using rec_ok_nodes_applied [OF assms(1)] by simp_all
  let ?a = "for_each (\<lambda>s. apply_service E s nodes) services ?n"
  have a: "rec_ok E cls (outcome_state ?a)" "st_resync_requested (rc_state (outcome_state ?a)) = st_resync_requested (rc_state r)"
    using apply_services_keeps [OF n(1), of services] n by (simp_all add: same_requests_def resync_state_def)
  show ?thesis
  proof (cases ?a)
    case (Stopped p t)
    then show ?thesis using a(1) by (simp add: l resync_end_ok apply_nodes_result [OF r(1,2)])
  next
    case (Done t)
    let ?d = "removed_unlisted (map svc_id services) (hkeys (rc_metadata t)) t"
    have t: "rec_ok E cls t" "st_resync_requested (rc_state t) = st_resync_requested (rc_state r)" using a Done by simp_all
    have d: "rec_ok E cls ?d" "st_resync_requested (rc_state ?d) = st_resync_requested (rc_state r)"
      using removed_unlisted_keeps [OF t(1)] t(2) by (simp_all add: same_requests_def resync_state_def)
    have "rec_ok E cls (complete_resync target pass_start now ts (on_state prune_service_generations ?d))"
      using d assms(2,3) by (intro rec_ok_complete rec_ok_prune) (simp_all add: on_state_def prune_service_generations_def)
    then show ?thesis by (simp add: l resync_end_ok apply_nodes_result [OF r(1,2)] Done)
  qed
qed

lemma rec_ok_request: "rec_ok E cls r \<Longrightarrow> rec_ok E cls (on_state (state_request_resync ts) r)"
proof (rule rec_ok_on_state)
  assume ok: "rec_ok E cls r"
  note r = rec_ok_parts [OF ok]
  show "gens_ok (hhas (rc_metadata r)) (state_request_resync ts (rc_state r))"
    using r(4) gens_ok_cong [of "state_request_resync ts (rc_state r)" "rc_state r"] by simp
  show "queue_ok (state_request_resync ts (rc_state r))" using r(5) by (simp add: queue_ok_def)
  show "sync_ok (rc_ready r) (state_request_resync ts (rc_state r))" by (rule sync_ok_request [OF r(6)])
qed

lemma rec_ok_after_step:
  "rec_ok E cls (outcome_state result) \<Longrightarrow> rec_ok E cls (after_step resync_step now ts result)"
  by (cases result) (simp_all add: after_step_def request_resync_after_panic_def rec_ok_schedule rec_ok_request)

lemma rec_ok_event: "rec_ok E cls r \<Longrightarrow> rec_ok E cls (enqueue_event ev now ts r)"
proof -
  assume ok: "rec_ok E cls r"
  note r = rec_ok_parts [OF ok]
  have "rec_ok E cls (on_state mark_nodes_dirty r)"
    using r gens_ok_cong [of "mark_nodes_dirty (rc_state r)" "rc_state r"]
    by (intro rec_ok_on_state [OF ok]) (simp_all add: mark_nodes_dirty_def queue_ok_def sync_ok_def)
  moreover have "rec_ok E cls (on_state (mark_service_dirty k now ts) r)" for k
    using r by (intro rec_ok_on_state [OF ok] gens_ok_mark queue_ok_mark sync_ok_mark)
  ultimately show ?thesis using ok by (simp add: enqueue_event_def)
qed

lemma rec_ok_take: "rec_ok E cls r \<Longrightarrow> rec_ok E cls (on_state (\<lambda>s. snd (take_due_keys now s)) r)"
proof (rule rec_ok_on_state)
  assume ok: "rec_ok E cls r"
  note r = rec_ok_parts [OF ok]
  show "gens_ok (hhas (rc_metadata r)) (snd (take_due_keys now (rc_state r)))"
    using r(4) gens_ok_cong [of "snd (take_due_keys now (rc_state r))" "rc_state r"] by (simp add: take_due_keys_result [OF r(5)])
  show "queue_ok (snd (take_due_keys now (rc_state r)))" by (rule queue_ok_take [OF r(5)])
  show "sync_ok (rc_ready r) (snd (take_due_keys now (rc_state r)))" using r(6) by (simp add: take_due_keys_result [OF r(5)] sync_ok_def)
qed

lemma rec_ok_service_step:
  assumes "rec_ok E cls r"
  shows "rec_ok E cls (outcome_state (reconcile_service E key inspected now ts r))"
proof -
  note r = rec_ok_parts [OF assms]
  have "rec_ok E cls (on_state (retry_service (rc_retry_delays r) key now ts) r)"
    using r by (intro rec_ok_on_state [OF assms] gens_ok_retry queue_ok_retry sync_ok_retry)
  then show ?thesis
    using rec_ok_apply_service [OF assms] rec_ok_remove [OF assms]
    by (simp add: reconcile_service_def split: sum.split call_error.split)
qed

lemma rec_ok_nodes_begin: "rec_ok E cls r \<Longrightarrow> rec_ok E cls (reconcile_nodes_begin r)"
proof -
  assume ok: "rec_ok E cls r"
  note r = rec_ok_parts [OF ok]
  show ?thesis unfolding reconcile_nodes_begin_def
    using r gens_ok_cong [of "(rc_state r)\<lparr>st_nodes_dirty := False\<rparr>" "rc_state r"]
    by (intro rec_ok_on_state [OF ok]) (simp_all add: queue_ok_def sync_ok_def)
qed

lemma rec_ok_nodes_end:
  assumes "rec_ok E cls r"
  shows "rec_ok E cls (outcome_state (reconcile_nodes_end E listed now r))"
proof (cases listed)
  case (Inl e)
  note r = rec_ok_parts [OF assms]
  let ?s = "on_state (\<lambda>s. s\<lparr>st_nodes_dirty := True\<rparr>) r"
  have s: "rec_ok E cls ?s"
    using r gens_ok_cong [of "(rc_state r)\<lparr>st_nodes_dirty := True\<rparr>" "rc_state r"]
    by (intro rec_ok_on_state [OF assms]) (simp_all add: queue_ok_def sync_ok_def)
  show ?thesis unfolding Inl reconcile_nodes_end_def sum.case outcome_state.simps
    by (rule rec_ok_cong [OF _ _ _ _ _ _ _ _ _ _ s]) (simp_all add: on_state_def backoff_ok_def)
next
  case (Inr nodes)
  note r = rec_ok_parts [OF assms]
  show ?thesis unfolding Inr reconcile_nodes_end_def sum.case apply_nodes_result [OF r(1,2)] and_then.simps outcome_state.simps
    by (rule rec_ok_cong [OF _ _ _ _ _ _ _ _ _ _ rec_ok_nodes_applied(1) [OF assms, of nodes]]) (simp_all add: backoff_ok_def)
qed

end
