(* ===== verification/Poll.thy ===== *)
theory Poll
  imports Reconciler_Invariant
begin

text \<open>
  \<^verbatim>\<open>src/src/collector/reconciler/poll.rs\<close>: the poll protocol. The poller asks for a snapshot, counts tasks
  against it and submits the counts; the reconciler judges them service by service and publishes.
  The two channels hold waiting requests; a reply is the answer returned. The clock read for each
  service marked dirty is an argument.
\<close>

section \<open>Errors and requests\<close>

definition MAX_CARRIED_POLLS :: nat where "MAX_CARRIED_POLLS = 2"

datatype poll_error =
    Canceled string
  | Stopping
  | PollFailed call_error
  | Publish build_error
  | PartiallyRejected "string list"

definition is_canceled :: "poll_error \<Rightarrow> bool" where
  "is_canceled e \<longleftrightarrow> (case e of Canceled _ \<Rightarrow> True | Stopping \<Rightarrow> True | _ \<Rightarrow> False)"

datatype poll_request = SnapshotRequest | ApplyRequest poll_snapshot service_counter

text \<open>The reconciler's ends of the channels: the snapshot requests and the submissions waiting.\<close>

record poll_receivers =
  pr_snapshots :: nat
  pr_applies :: "(poll_snapshot \<times> service_counter) list"

definition try_recv :: "poll_receivers \<Rightarrow> (poll_request \<times> poll_receivers) option" where
  "try_recv c =
     (if pr_snapshots c > 0 then Some (SnapshotRequest, c\<lparr>pr_snapshots := pr_snapshots c - 1\<rparr>)
      else case pr_applies c of
             (sn, counters) # rest \<Rightarrow> Some (ApplyRequest sn counters, c\<lparr>pr_applies := rest\<rparr>)
           | [] \<Rightarrow> None)"

section \<open>The verdict\<close>

record poll_verdict =
  pv_generations :: "(string, nat) hmap"
  pv_dirty :: "(string, bool) hmap"
  pv_node_generation :: nat
  pv_nodes_dirty :: bool
  pv_epoch :: nat

definition accepts :: "poll_verdict \<Rightarrow> poll_snapshot \<Rightarrow> string \<Rightarrow> poll_service \<Rightarrow> bool" where
  "accepts v snapshot service_id service =
     (let generation = unwrap_or (hget (pv_generations v) service_id) 0 in
      if pv_epoch v \<noteq> sn_epoch snapshot \<or> generation \<noteq> ps_generation service
         \<or> unwrap_or (hget (pv_dirty v) service_id) False
      then False
      else let mode = sm_service_mode (ps_metadata service);
               node_dependent = (mode = SERVICE_MODE_GLOBAL \<or> mode = SERVICE_MODE_GLOBAL_JOB)
           in \<not> node_dependent \<or> (pv_node_generation v = sn_node_generation snapshot \<and> \<not> pv_nodes_dirty v))"

definition build_poll_snapshot :: "reconciler \<Rightarrow> poll_snapshot" where
  "build_poll_snapshot r =
     (let s = rc_state r in
      \<lparr>sn_services = map (\<lambda>(service_id, md).
           let generation = (case hget (st_service_generation s) service_id of Some g \<Rightarrow> gn_value g | None \<Rightarrow> 0)
           in (service_id, poll_service_new generation md)) (rc_metadata r),
       sn_nodes = rc_nodes r, sn_node_generation = st_node_generation s, sn_epoch = st_epoch s\<rparr>)"

definition current_poll_verdict :: "poll_snapshot \<Rightarrow> reconciler \<Rightarrow> poll_verdict" where
  "current_poll_verdict snapshot r =
     (let s = rc_state r;
          verdict = \<lparr>pv_generations = [], pv_dirty = [], pv_node_generation = st_node_generation s,
                     pv_nodes_dirty = st_nodes_dirty s, pv_epoch = st_epoch s\<rparr>
      in fold (\<lambda>service_id v.
           let generation = (case hget (st_service_generation s) service_id of Some g \<Rightarrow> gn_value g | None \<Rightarrow> 0);
               v = v\<lparr>pv_generations := hput service_id generation (pv_generations v)\<rparr>
           in if hhas (st_pending_set s) service_id then v\<lparr>pv_dirty := hput service_id True (pv_dirty v)\<rparr> else v)
         (hkeys (sn_services snapshot)) verdict)"

section \<open>Applying the counts\<close>

text \<open>What the loop over the services accumulates beside the reconciler.\<close>

record poll_round =
  pd_published :: service_counter
  pd_rejections :: "(string, nat) hmap"
  pd_omitted :: "string list"

definition judge_service :: "poll_verdict \<Rightarrow> poll_snapshot \<Rightarrow> service_counter \<Rightarrow> (string \<Rightarrow> instant \<times> timestamp) \<Rightarrow> string
    \<Rightarrow> poll_round \<times> reconciler \<Rightarrow> poll_round \<times> reconciler" where
  "judge_service verdict snapshot counters clock service_id st =
     (let (round, r) = st in
      case hget (sn_services snapshot) service_id of
        None \<Rightarrow> (round, r)
      | Some service \<Rightarrow>
          (case mc_get (rc_metadata r) service_id of
             None \<Rightarrow> (round, on_state (mark_service_dirty service_id (fst (clock service_id)) (snd (clock service_id))) r)
           | Some md \<Rightarrow>
               (case (hget counters service_id, accepts verdict snapshot service_id service) of
                  (Some counter, True) \<Rightarrow> (round\<lparr>pd_published := hput service_id counter (pd_published round)\<rparr>, r)
                | _ \<Rightarrow>
                    let r = on_metrics inc_poll_rejections r;
                        rejected = unwrap_or (hget (rc_poll_rejections r) service_id) 0 + 1;
                        round = round\<lparr>pd_rejections := hput service_id rejected (pd_rejections round)\<rparr>;
                        previous = (case hget (rc_last_published r) service_id of
                                      Some previous \<Rightarrow> if tc_labels previous = labels_for_metadata md then Some previous else None
                                    | None \<Rightarrow> None)
                    in if rejected > MAX_CARRIED_POLLS
                       then (round\<lparr>pd_omitted := pd_omitted round @ [service_id]\<rparr>, r)
                       else (case previous of
                               Some previous \<Rightarrow> (round\<lparr>pd_published := hput service_id previous (pd_published round)\<rparr>, r)
                             | None \<Rightarrow> (round, r)))))"

definition apply_poll_counts :: "poll_snapshot \<Rightarrow> service_counter \<Rightarrow> (string \<Rightarrow> instant \<times> timestamp) \<Rightarrow> reconciler
    \<Rightarrow> (poll_error, reconciler) outcome" where
  "apply_poll_counts snapshot counters clock r =
     (let verdict = current_poll_verdict snapshot r;
          (round, r) = fold (judge_service verdict snapshot counters clock) (service_ids snapshot)
                         (\<lparr>pd_published = [], pd_rejections = [], pd_omitted = []\<rparr>, r)
      in case rs_update (pd_published round) (co_replicas_state (rc_collectors r)) of
           Stopped e rs \<Rightarrow> Stopped (Publish e) (on_replicas_state (\<lambda>_. rs) r)
         | Done rs \<Rightarrow>
             let r = on_replicas_state (\<lambda>_. rs) r;
                 r = r\<lparr>rc_last_published := pd_published round, rc_poll_rejections := pd_rejections round\<rparr>
             in if pd_omitted round = [] then Done r
                else Stopped (PartiallyRejected (sort (pd_omitted round))) r)"

datatype poll_answer = SnapshotAnswer "poll_error + poll_snapshot" | ApplyAnswer "poll_error option"

definition serve_poll_request :: "bool \<Rightarrow> poll_request \<Rightarrow> (string \<Rightarrow> instant \<times> timestamp) \<Rightarrow> reconciler \<Rightarrow> poll_answer \<times> reconciler" where
  "serve_poll_request cancelled request clock r =
     (case request of
        SnapshotRequest \<Rightarrow>
          (SnapshotAnswer (if cancelled then Inl Stopping else Inr (build_poll_snapshot r)), r)
      | ApplyRequest snapshot counters \<Rightarrow>
          if cancelled then (ApplyAnswer (Some Stopping), r)
          else (case apply_poll_counts snapshot counters clock r of
                  Done r \<Rightarrow> (ApplyAnswer None, r)
                | Stopped e r \<Rightarrow> (ApplyAnswer (Some e), r)))"

lemma try_recv_shrinks:
  "try_recv c = Some (q, c') \<Longrightarrow> pr_snapshots c' + length (pr_applies c') < pr_snapshots c + length (pr_applies c)"
  by (auto simp: try_recv_def split: if_splits list.splits)

text \<open>The answers in order, and the channels left empty.\<close>

function serve_pending_poll_requests :: "bool \<Rightarrow> (string \<Rightarrow> instant \<times> timestamp) \<Rightarrow> poll_receivers \<Rightarrow> reconciler
    \<Rightarrow> poll_answer list \<times> poll_receivers \<times> reconciler" where
  "serve_pending_poll_requests cancelled clock c r =
     (case try_recv c of
        None \<Rightarrow> ([], c, r)
      | Some (request, c') \<Rightarrow>
          let (answer, r) = serve_poll_request cancelled request clock r;
              (answers, c'', r) = serve_pending_poll_requests cancelled clock c' r
          in (answer # answers, c'', r))"
  by pat_completeness auto
termination
  by (relation "measure (\<lambda>(_, _, c, _). pr_snapshots c + length (pr_applies c))") (auto dest: try_recv_shrinks)

section \<open>The poller\<close>

text \<open>
  One poll: the answer to its snapshot request, the task list (\<open>None\<close> when cancelled during it), and
  the verdict on the counts it submits.
\<close>

definition poll_and_publish_replicas_state :: "extern \<Rightarrow> poll_error + poll_snapshot \<Rightarrow> (call_error + task list) option
    \<Rightarrow> (poll_snapshot \<Rightarrow> service_counter \<Rightarrow> poll_error option) \<Rightarrow> timestamp \<Rightarrow> timestamps \<Rightarrow> poll_error option \<times> timestamps" where
  "poll_and_publish_replicas_state E requested listed submit now ts =
     (case requested of
        Inl e \<Rightarrow> (Some e, ts)
      | Inr snapshot \<Rightarrow>
          (case listed of
             None \<Rightarrow> (Some (Canceled ''task list''), ts)
           | Some listed \<Rightarrow>
               (case poll_replicas_state E listed snapshot of
                  Inl e \<Rightarrow> (Some (PollFailed e), ts)
                | Inr counters \<Rightarrow>
                    (case submit snapshot counters of
                       Some e \<Rightarrow> (Some e, ts)
                     | None \<Rightarrow> (None, mark_poll_ok now ts)))))"

end
