(* ===== verification/Poll_Facts.thy ===== *)
theory Poll_Facts
  imports Poll
begin

text \<open>
  How the reconciler moves on between a polling snapshot and the verdict on it. The relation \<open>adv\<close> says
  that generations only move to fresh values and that what a generation covers does not change while
  it stays; every operation satisfies it, so it holds over any series of them. From it follows what an
  accepted service's counts were made against.
\<close>

section \<open>Moving on\<close>

text \<open>The shared state: epochs and counters only grow, and a generation that changes is dropped or fresh.\<close>

definition gadv :: "shared_state \<Rightarrow> shared_state \<Rightarrow> bool" where
  "gadv s t \<longleftrightarrow> st_epoch s \<le> st_epoch t \<and> st_node_generation s \<le> st_node_generation t
     \<and> st_generation_counter s \<le> st_generation_counter t
     \<and> (\<forall>sid. generation_of t sid \<noteq> generation_of s sid \<longrightarrow> generation_of t sid = 0 \<or> generation_of t sid > st_generation_counter s)"

definition same_spec :: "service_metadata \<Rightarrow> service_metadata \<Rightarrow> bool" where
  "same_spec a b \<longleftrightarrow> a\<lparr>sm_desired_replicas := 0\<rparr> = b\<lparr>sm_desired_replicas := 0\<rparr>"

definition adv :: "reconciler \<Rightarrow> reconciler \<Rightarrow> bool" where
  "adv r t \<longleftrightarrow> gadv (rc_state r) (rc_state t)
     \<and> (st_node_generation (rc_state t) = st_node_generation (rc_state r) \<longrightarrow> rc_nodes t = rc_nodes r)
     \<and> (\<forall>sid md. generation_of (rc_state t) sid = generation_of (rc_state r) sid \<longrightarrow> generation_of (rc_state r) sid \<noteq> 0
          \<longrightarrow> hget (rc_metadata t) sid = Some md \<longrightarrow> (\<exists>old. hget (rc_metadata r) sid = Some old \<and> same_spec old md))"

lemma same_spec_refl [simp]: "same_spec a a"
  by (simp add: same_spec_def)

lemma same_spec_recounted [simp]: "same_spec a (recounted E nodes a)"
  by (simp add: same_spec_def recounted_def)

lemma same_spec_trans: "same_spec a b \<Longrightarrow> same_spec b c \<Longrightarrow> same_spec a c"
  by (simp add: same_spec_def)

lemma gadv_refl [simp]: "gadv s s"
  by (simp add: gadv_def)

lemma gadv_trans: "gadv s t \<Longrightarrow> gadv t u \<Longrightarrow> gadv s u"
  unfolding gadv_def by (metis le_trans less_le_trans le_less_trans)

definition bounded_gens :: "shared_state \<Rightarrow> bool" where
  "bounded_gens s \<longleftrightarrow> (\<forall>sid. generation_of s sid \<le> st_generation_counter s)"

lemma gens_ok_bounded: "gens_ok M s \<Longrightarrow> bounded_gens s"
proof -
  assume ok: "gens_ok M s"
  have "generation_of s sid = 0" if "\<not> hhas (st_service_generation s) sid" for sid
    using that by (simp add: hhas_def generation_of_def)
  then show ?thesis using ok unfolding bounded_gens_def gens_ok_def by (metis le0)
qed

lemma adv_refl [simp]: "adv r r"
  by (auto simp: adv_def)

lemma adv_trans:
  assumes "bounded_gens (rc_state r)" and "adv r s" and "adv s t"
  shows "adv r t"
proof -
  have g: "gadv (rc_state r) (rc_state s)" "gadv (rc_state s) (rc_state t)" using assms by (simp_all add: adv_def)
  have nodes: "rc_nodes t = rc_nodes r" if "st_node_generation (rc_state t) = st_node_generation (rc_state r)"
  proof -
    have "st_node_generation (rc_state s) = st_node_generation (rc_state r)" using g that by (simp add: gadv_def)
    then show ?thesis using assms that by (simp add: adv_def)
  qed
  have meta: "\<exists>old. hget (rc_metadata r) sid = Some old \<and> same_spec old md"
    if same: "generation_of (rc_state t) sid = generation_of (rc_state r) sid" "generation_of (rc_state r) sid \<noteq> 0"
      and md: "hget (rc_metadata t) sid = Some md" for sid md
  proof -
    have le: "generation_of (rc_state r) sid \<le> st_generation_counter (rc_state r)" using assms(1) by (simp add: bounded_gens_def)
    have mid: "generation_of (rc_state s) sid = generation_of (rc_state r) sid"
    proof (rule ccontr)
      assume "generation_of (rc_state s) sid \<noteq> generation_of (rc_state r) sid"
      then have "generation_of (rc_state t) sid > st_generation_counter (rc_state s)" using g(2) same unfolding gadv_def by metis
      moreover have "st_generation_counter (rc_state r) \<le> st_generation_counter (rc_state s)" using g(1) by (simp add: gadv_def)
      ultimately show False using le same(1) by simp
    qed
    then obtain m where m: "hget (rc_metadata s) sid = Some m" "same_spec m md" using assms(3) same md unfolding adv_def by metis
    then obtain old where "hget (rc_metadata r) sid = Some old" "same_spec old m" using assms(2) mid same(2) unfolding adv_def by metis
    then show ?thesis using m(2) same_spec_trans by blast
  qed
  show ?thesis unfolding adv_def using gadv_trans [OF g] nodes meta by blast
qed

section \<open>The shared operations move on\<close>

lemma gadv_same: "st_epoch t = st_epoch s \<Longrightarrow> st_node_generation t = st_node_generation s \<Longrightarrow>
    st_generation_counter t = st_generation_counter s \<Longrightarrow> st_service_generation t = st_service_generation s \<Longrightarrow> gadv s t"
  by (simp add: gadv_def generation_of_def)

lemma gadv_bump: "gadv s (bump_service_generation k c s)"
  by (simp add: gadv_def generation_of_bump)

lemma gadv_request: "gadv s (state_request_resync now s)"
  by (simp add: gadv_def generation_of_def state_request_resync_def Let_def)

lemma generation_of_prune:
  "hmap_ok (st_service_generation s) \<Longrightarrow> generation_of (prune_service_generations s) sid = generation_of s sid
     \<or> generation_of (prune_service_generations s) sid = 0"
  using hget_filter [of "st_service_generation s" "\<lambda>sid g. gn_cached g \<or> hhas (st_pending_set s) sid" sid]
  by (auto simp: generation_of_def prune_service_generations_def split: option.split)

lemma gadv_prune: "hmap_ok (st_service_generation s) \<Longrightarrow> gadv s (prune_service_generations s)"
  using generation_of_prune [of s] by (auto simp: gadv_def)

lemma gadv_overflow: "hmap_ok (st_service_generation s) \<Longrightarrow> gadv s (overflow now s)"
proof -
  assume h: "hmap_ok (st_service_generation s)"
  let ?s = "s\<lparr>st_pending_set := [], st_pending_order := []\<rparr>"
  have "gadv s ?s" by (rule gadv_same) simp_all
  also have "gadv ?s (prune_service_generations ?s)" using h by (intro gadv_prune) simp
  finally (gadv_trans) have "gadv s (prune_service_generations ?s)" .
  then show ?thesis unfolding overflow_def using gadv_request gadv_trans by blast
qed

lemma hmap_ok_bump: "hmap_ok (st_service_generation s) \<Longrightarrow> hmap_ok (st_service_generation (bump_service_generation k c s))"
  by (simp add: bump_service_generation_def Let_def)

lemma gadv_mark: "hmap_ok (st_service_generation s) \<Longrightarrow> gadv s (mark_service_dirty k now ts s)"
proof -
  assume h: "hmap_ok (st_service_generation s)"
  let ?b = "bump_service_generation k None s"
  have "gadv ?b (mark_service_dirty k now ts s)"
    using gadv_overflow [OF hmap_ok_bump [OF h], of k None ts]
    by (auto simp: mark_service_dirty_def Let_def intro!: gadv_same)
  then show ?thesis using gadv_bump gadv_trans by blast
qed

lemma gadv_retry: "hmap_ok (st_service_generation s) \<Longrightarrow> gadv s (retry_service ds key now ts s)"
  using gadv_overflow [of s ts] gadv_request [of s ts] by (auto simp: retry_service_def intro: gadv_same)

lemma gadv_uncached: "hmap_ok (st_service_generation s) \<Longrightarrow> gadv s (uncached sid s)"
  by (auto simp: gadv_def generation_of_def hget_uncached split: option.splits)

lemma gens_ok_hmap: "gens_ok M s \<Longrightarrow> hmap_ok (st_service_generation s)"
  by (simp add: gens_ok_def)

text \<open>An operation on the shared state alone, which leaves the node generation, moves the reconciler on.\<close>

lemma adv_on_state: "gadv (rc_state r) (f (rc_state r)) \<Longrightarrow> adv r (on_state f r)"
  by (auto simp: adv_def on_state_def)

lemma adv_cong:
  "rc_state t = rc_state s \<Longrightarrow> rc_metadata t = rc_metadata s \<Longrightarrow> rc_nodes t = rc_nodes s \<Longrightarrow> adv r s \<Longrightarrow> adv r t"
  by (simp add: adv_def)

section \<open>The reconciler's operations move on\<close>

lemma adv_apply_service:
  assumes "rec_ok E cls r"
  shows "adv r (outcome_state (apply_service E s (rc_nodes r) r))"
proof (cases "build_metadata s cls")
  case (Inl p)
  moreover have "co_custom_labels (rc_collectors r) = cls" using rec_ok_parts(1) [OF assms] by (simp add: families_ok_def)
  ultimately show ?thesis by (simp add: apply_service_def)
next
  case (Inr md)
  let ?t = "written E s md (rc_nodes r) (retired_identity s md r)"
  have t: "rc_state ?t = bump_service_generation (svc_id s) (Some True) (rc_state r)" "rc_nodes ?t = rc_nodes r"
    "\<exists>m. rc_metadata ?t = hput (svc_id s) m (rc_metadata r)"
    by (auto simp: written_def on_state_def on_update_def Let_def)
  have le: "generation_of (rc_state r) sid \<le> st_generation_counter (rc_state r)" for sid
    using gens_ok_bounded [OF rec_ok_parts(4) [OF assms]] by (simp add: bounded_gens_def)
  have "adv r ?t" unfolding adv_def t(1,2)
  proof (intro conjI allI impI)
    show "gadv (rc_state r) (bump_service_generation (svc_id s) (Some True) (rc_state r))" by (rule gadv_bump)
    fix sid m
    assume "generation_of (bump_service_generation (svc_id s) (Some True) (rc_state r)) sid = generation_of (rc_state r) sid"
      and m: "hget (rc_metadata ?t) sid = Some m"
    then have "sid \<noteq> svc_id s" using le [of sid] by (auto simp: generation_of_bump)
    then show "\<exists>old. hget (rc_metadata r) sid = Some old \<and> same_spec old m" using m t(3) by (auto simp: update_conv')
  qed simp
  then show ?thesis by (simp add: apply_service_result [OF rec_ok_parts(1) [OF assms] Inr])
qed

lemma adv_remove: "rec_ok E cls r \<Longrightarrow> adv r (remove_service sid r)"
proof -
  assume ok: "rec_ok E cls r"
  have "rc_state (remove_service sid r) = uncached sid (rc_state r)" "rc_nodes (remove_service sid r) = rc_nodes r"
    "rc_metadata (remove_service sid r) = hdel sid (rc_metadata r)"
    by (simp_all add: remove_service_result on_defs dropped_def delete_id map_of_eq_None_iff split: option.split)
  then show ?thesis using gadv_uncached [OF gens_ok_hmap [OF rec_ok_parts(4) [OF ok]], of sid]
    by (auto simp: adv_def delete_conv')
qed

lemma adv_nodes_applied: "rec_ok E cls r \<Longrightarrow> adv r (nodes_applied E nodes r)"
  using rec_ok_nodes_applied(3,5) [of E cls r nodes] by (auto simp: adv_def gadv_def generation_of_def)

lemma adv_step_trans: "rec_ok E cls r \<Longrightarrow> adv r s \<Longrightarrow> adv s t \<Longrightarrow> adv r t"
  by (rule adv_trans [OF gens_ok_bounded [OF rec_ok_parts(4)]])

lemma adv_apply_services:
  assumes "rec_ok E cls r"
  shows "adv r (outcome_state (for_each (\<lambda>s. apply_service E s (rc_nodes r)) ss r))"
proof -
  let ?I = "\<lambda>t. rec_ok E cls t \<and> rc_nodes t = rc_nodes r \<and> adv r t"
  have "?I (outcome_state (for_each (\<lambda>s. apply_service E s (rc_nodes r)) ss r))"
  proof (rule for_each_invariant [where I = ?I])
    fix s t
    assume t: "?I t"
    then have n: "rc_nodes r = rc_nodes t" and ok: "rec_ok E cls t" by simp_all
    have "rc_nodes (outcome_state (apply_service E s (rc_nodes t) t)) = rc_nodes t"
      using same_requests_apply [OF ok] by (simp add: same_requests_def)
    moreover have "adv r (outcome_state (apply_service E s (rc_nodes t) t))"
      using t by (intro adv_step_trans [OF assms _ adv_apply_service [OF ok]]) simp
    ultimately show "?I (outcome_state (apply_service E s (rc_nodes r) t))"
      unfolding n using rec_ok_apply_service [OF ok, of s] by blast
  qed (use assms in simp)
  then show ?thesis by simp
qed

lemma adv_removed_unlisted: "rec_ok E cls r \<Longrightarrow> adv r (removed_unlisted listed ids r)"
proof (induction ids arbitrary: r)
  case (Cons i ids)
  let ?r = "if i \<in> set listed then r else remove_service i r"
  have ok: "rec_ok E cls ?r" and a: "adv r ?r" using Cons.prems rec_ok_remove [OF Cons.prems] adv_remove [OF Cons.prems] by simp_all
  show ?case using adv_step_trans [OF Cons.prems a Cons.IH [OF ok]] by (simp add: removed_unlisted_def)
qed (simp add: removed_unlisted_def)

lemma adv_complete: "adv r (complete_resync target pass_start now ts r)"
  by (auto simp: adv_def complete_resync_def on_state_def on_metrics_def gadv_def generation_of_def Let_def)

lemma adv_resync_end:
  assumes "rec_ok E cls r"
  shows "adv r (outcome_state (resync_end E listed target pass_start now ts r))"
proof (cases listed)
  case (Inl e)
  then show ?thesis by (simp add: resync_end_def schedule_resync_retry_def on_metrics_def adv_def)
next
  case (Inr lists)
  obtain services nodes where l: "listed = Inr (services, nodes)" using Inr by (cases lists) simp
  note r = rec_ok_parts [OF assms]
  let ?n = "nodes_applied E nodes r"
  have n: "rec_ok E cls ?n" "rc_nodes ?n = nodes" using rec_ok_nodes_applied [OF assms] by simp_all
  let ?a = "for_each (\<lambda>s. apply_service E s nodes) services ?n"
  have a: "rec_ok E cls (outcome_state ?a)" "adv r (outcome_state ?a)"
    using apply_services_keeps [OF n(1), of services] adv_apply_services [OF n(1), of services] n(2)
      adv_step_trans [OF assms adv_nodes_applied [OF assms, of nodes]] by simp_all
  show ?thesis
  proof (cases ?a)
    case (Stopped p t)
    then show ?thesis using a by (simp add: l resync_end_ok apply_nodes_result [OF r(1,2)])
  next
    case (Done t)
    let ?d = "removed_unlisted (map svc_id services) (hkeys (rc_metadata t)) t"
    have t: "rec_ok E cls t" "adv r t" using a Done by simp_all
    have d: "rec_ok E cls ?d" using removed_unlisted_keeps [OF t(1)] by simp
    have "adv r ?d" by (rule adv_step_trans [OF assms t(2) adv_removed_unlisted [OF t(1)]])
    moreover have "adv ?d (on_state prune_service_generations ?d)"
      by (intro adv_on_state gadv_prune gens_ok_hmap [OF rec_ok_parts(4) [OF d]])
    ultimately have "adv r (on_state prune_service_generations ?d)" by (rule adv_step_trans [OF assms])
    then show ?thesis using adv_step_trans [OF assms _ adv_complete]
      by (simp add: l resync_end_ok apply_nodes_result [OF r(1,2)] Done)
  qed
qed

lemma adv_after_step: "rec_ok E cls r \<Longrightarrow> adv r (outcome_state result) \<Longrightarrow> adv r (after_step resync_step now ts result)"
proof (cases result)
  case (Stopped p t)
  assume r: "rec_ok E cls r" "adv r (outcome_state result)"
  let ?t = "if resync_step then on_metrics (inc_resync Failure) t else t"
  have "adv ?t (request_resync_after_panic now ts ?t)"
    using adv_on_state [of ?t "state_request_resync ts"] gadv_request
    by (intro adv_cong [of "request_resync_after_panic now ts ?t" "on_state (state_request_resync ts) ?t"])
      (simp_all add: request_resync_after_panic_def schedule_resync_retry_def)
  moreover have "adv r ?t" using r(2) Stopped by (simp add: adv_def on_metrics_def)
  ultimately show ?thesis using adv_step_trans [OF r(1)] by (simp add: after_step_def Stopped)
qed (simp add: after_step_def)

lemma adv_event: "rec_ok E cls r \<Longrightarrow> adv r (enqueue_event ev now ts r)"
proof -
  assume ok: "rec_ok E cls r"
  have h: "hmap_ok (st_service_generation (rc_state r))" by (rule gens_ok_hmap [OF rec_ok_parts(4) [OF ok]])
  have "adv r (on_state (mark_service_dirty k now ts) r)" for k by (rule adv_on_state) (rule gadv_mark [OF h])
  moreover have "adv r (on_state mark_nodes_dirty r)"
    by (rule adv_on_state) (simp add: gadv_def generation_of_def mark_nodes_dirty_def)
  ultimately show ?thesis by (auto simp: enqueue_event_def adv_def signal_def on_metrics_def)
qed

lemma adv_service_step: "rec_ok E cls r \<Longrightarrow> adv r (outcome_state (reconcile_service E key inspected now ts r))"
  using adv_apply_service [of E cls r] adv_remove [of E cls r] gens_ok_hmap [OF rec_ok_parts(4) [of E cls r]]
    adv_on_state [of r "retry_service (rc_retry_delays r) key now ts"] gadv_retry [of "rc_state r"]
  by (simp add: reconcile_service_def split: sum.split call_error.split)

lemma adv_nodes_end:
  assumes "rec_ok E cls r"
  shows "adv r (outcome_state (reconcile_nodes_end E listed now r))"
proof (cases listed)
  case (Inl e)
  have "adv r (on_state (\<lambda>s. s\<lparr>st_nodes_dirty := True\<rparr>) r)" by (rule adv_on_state) (rule gadv_same, simp_all)
  then show ?thesis unfolding Inl reconcile_nodes_end_def by (simp add: adv_def)
next
  case (Inr nodes)
  note r = rec_ok_parts [OF assms]
  show ?thesis using adv_nodes_applied [OF assms, of nodes]
    unfolding Inr reconcile_nodes_end_def sum.case apply_nodes_result [OF r(1,2)] by (simp add: adv_def)
qed

section \<open>The verdict\<close>

lemma verdict_fold:
  fixes s :: shared_state
  defines "f \<equiv> (\<lambda>service_id v.
           let generation = (case hget (st_service_generation s) service_id of Some g \<Rightarrow> gn_value g | None \<Rightarrow> 0);
               v = v\<lparr>pv_generations := hput service_id generation (pv_generations v)\<rparr>
           in if hhas (st_pending_set s) service_id then v\<lparr>pv_dirty := hput service_id True (pv_dirty v)\<rparr> else v)"
  shows "hget (pv_generations (fold f ids v)) sid = (if sid \<in> set ids then Some (generation_of s sid) else hget (pv_generations v) sid)
    \<and> hget (pv_dirty (fold f ids v)) sid = (if sid \<in> set ids \<and> hhas (st_pending_set s) sid then Some True else hget (pv_dirty v) sid)
    \<and> pv_epoch (fold f ids v) = pv_epoch v \<and> pv_node_generation (fold f ids v) = pv_node_generation v
    \<and> pv_nodes_dirty (fold f ids v) = pv_nodes_dirty v"
proof (induction ids arbitrary: v)
  case (Cons i ids)
  show ?case using Cons.IH [of "f i v"] by (auto simp: f_def generation_of_def update_conv' Let_def)
qed simp

lemma current_verdict:
  "sid \<in> set (hkeys (sn_services sn)) \<Longrightarrow> hget (pv_generations (current_poll_verdict sn r)) sid = Some (generation_of (rc_state r) sid)"
  "unwrap_or (hget (pv_dirty (current_poll_verdict sn r)) sid) False \<longleftrightarrow> sid \<in> set (hkeys (sn_services sn)) \<and> hhas (st_pending_set (rc_state r)) sid"
  "pv_epoch (current_poll_verdict sn r) = st_epoch (rc_state r)"
  "pv_node_generation (current_poll_verdict sn r) = st_node_generation (rc_state r)"
  "pv_nodes_dirty (current_poll_verdict sn r) = st_nodes_dirty (rc_state r)"
proof -
  let ?v = "\<lparr>pv_generations = [], pv_dirty = [], pv_node_generation = st_node_generation (rc_state r),
                     pv_nodes_dirty = st_nodes_dirty (rc_state r), pv_epoch = st_epoch (rc_state r)\<rparr>"
  note f = verdict_fold [where s = "rc_state r" and ids = "hkeys (sn_services sn)" and v = ?v]
  have v: "current_poll_verdict sn r = fold (\<lambda>service_id v.
           let generation = (case hget (st_service_generation (rc_state r)) service_id of Some g \<Rightarrow> gn_value g | None \<Rightarrow> 0);
               v = v\<lparr>pv_generations := hput service_id generation (pv_generations v)\<rparr>
           in if hhas (st_pending_set (rc_state r)) service_id then v\<lparr>pv_dirty := hput service_id True (pv_dirty v)\<rparr> else v)
         (hkeys (sn_services sn)) ?v" unfolding current_poll_verdict_def by (subst Let_def, subst Let_def) simp
  show "sid \<in> set (hkeys (sn_services sn)) \<Longrightarrow> hget (pv_generations (current_poll_verdict sn r)) sid = Some (generation_of (rc_state r) sid)"
    unfolding v using f [of sid] by presburger
  have "hget (pv_dirty (current_poll_verdict sn r)) sid =
      (if sid \<in> set (hkeys (sn_services sn)) \<and> hhas (st_pending_set (rc_state r)) sid then Some True else None)"
    unfolding v using f [of sid] by simp
  then show "unwrap_or (hget (pv_dirty (current_poll_verdict sn r)) sid) False \<longleftrightarrow> sid \<in> set (hkeys (sn_services sn)) \<and> hhas (st_pending_set (rc_state r)) sid"
    by (simp add: unwrap_or_def)
  show "pv_epoch (current_poll_verdict sn r) = st_epoch (rc_state r)" "pv_node_generation (current_poll_verdict sn r) = st_node_generation (rc_state r)"
    "pv_nodes_dirty (current_poll_verdict sn r) = st_nodes_dirty (rc_state r)" unfolding v using f by simp_all
qed

lemma accepts_current:
  assumes "hget (sn_services sn) sid = Some service"
  shows "accepts (current_poll_verdict sn r) sn sid service \<longleftrightarrow>
     st_epoch (rc_state r) = sn_epoch sn \<and> generation_of (rc_state r) sid = ps_generation service
     \<and> \<not> hhas (st_pending_set (rc_state r)) sid
     \<and> (sm_service_mode (ps_metadata service) \<in> {SERVICE_MODE_GLOBAL, SERVICE_MODE_GLOBAL_JOB} \<longrightarrow>
          st_node_generation (rc_state r) = sn_node_generation sn \<and> \<not> st_nodes_dirty (rc_state r))"
proof -
  have sid: "sid \<in> set (hkeys (sn_services sn))" using assms by (rule hget_Some_mem)
  have g: "unwrap_or (hget (pv_generations (current_poll_verdict sn r)) sid) 0 = generation_of (rc_state r) sid"
    using current_verdict(1) [OF sid] by (simp add: unwrap_or_def)
  show ?thesis unfolding accepts_def Let_def g current_verdict(2-5) using sid by auto
qed

text \<open>What stays true of a snapshot while the reconciler moves on.\<close>

definition snap_service_ok :: "extern \<Rightarrow> custom_label list \<Rightarrow> poll_snapshot \<Rightarrow> poll_service \<Rightarrow> bool" where
  "snap_service_ok E cls sn service \<longleftrightarrow> ps_labels service = labels_for_metadata (ps_metadata service)
     \<and> metadata_ok cls (ps_metadata service) \<and> sm_service_mode (ps_metadata service) \<in> set known_modes
     \<and> sm_desired_replicas (ps_metadata service) = fst (replica_counts E (ps_metadata service) (sn_nodes sn))
     \<and> 1 \<le> ps_generation service"

definition snap_ok :: "extern \<Rightarrow> custom_label list \<Rightarrow> poll_snapshot \<Rightarrow> reconciler \<Rightarrow> bool" where
  "snap_ok E cls sn r \<longleftrightarrow> hmap_ok (sn_services sn) \<and> sn_epoch sn \<le> st_epoch (rc_state r)
     \<and> sn_node_generation sn \<le> st_node_generation (rc_state r)
     \<and> (st_node_generation (rc_state r) = sn_node_generation sn \<longrightarrow> rc_nodes r = sn_nodes sn)
     \<and> (\<forall>sid service. hget (sn_services sn) sid = Some service \<longrightarrow> snap_service_ok E cls sn service
          \<and> ps_generation service \<le> st_generation_counter (rc_state r)
          \<and> (generation_of (rc_state r) sid = ps_generation service \<longrightarrow>
               (\<forall>md. hget (rc_metadata r) sid = Some md \<longrightarrow> same_spec (ps_metadata service) md)))"

lemma hget_snapshot:
  "hget (sn_services (build_poll_snapshot r)) sid =
     map_option (poll_service_new (generation_of (rc_state r) sid)) (hget (rc_metadata r) sid)"
proof -
  have "(\<lambda>(service_id, md). let generation = (case hget (st_service_generation (rc_state r)) service_id of Some g \<Rightarrow> gn_value g | None \<Rightarrow> 0)
           in (service_id, poll_service_new generation md)) = (\<lambda>(k, md). (k, poll_service_new (generation_of (rc_state r) k) md))"
    by (auto simp: generation_of_def Let_def)
  then show ?thesis unfolding build_poll_snapshot_def Let_def
    by (simp add: map_of_map_snd [of "\<lambda>k. poll_service_new (generation_of (rc_state r) k)"])
qed

lemma snap_ok_build: "rec_ok E cls r \<Longrightarrow> snap_ok E cls (build_poll_snapshot r) r"
proof -
  assume ok: "rec_ok E cls r"
  note r = rec_ok_parts [OF ok]
  have h: "hmap_ok (sn_services (build_poll_snapshot r))"
  proof -
    have "hkeys (sn_services (build_poll_snapshot r)) = hkeys (rc_metadata r)"
      by (simp add: build_poll_snapshot_def Let_def split_def comp_def)
    then show ?thesis using r(2) by (simp add: cache_ok_def hmap_ok_def)
  qed
  have sv: "snap_service_ok E cls (build_poll_snapshot r) service \<and> ps_generation service \<le> st_generation_counter (rc_state r)
      \<and> (\<forall>md. hget (rc_metadata r) sid = Some md \<longrightarrow> same_spec (ps_metadata service) md)"
    if "hget (sn_services (build_poll_snapshot r)) sid = Some service" for sid service
  proof -
    from that obtain md where md: "hget (rc_metadata r) sid = Some md" "service = poll_service_new (generation_of (rc_state r) sid) md"
      by (auto simp: hget_snapshot)
    have "cached_in (rc_state r) sid" using r(4) md(1) by (simp add: gens_ok_def hhas_def)
    then have "hhas (st_service_generation (rc_state r)) sid" by (auto simp: cached_in_def hhas_def split: option.splits)
    then have "1 \<le> generation_of (rc_state r) sid" "generation_of (rc_state r) sid \<le> st_generation_counter (rc_state r)"
      using r(4) by (simp_all add: gens_ok_def)
    then show ?thesis using r(2,3) md
      by (auto simp: snap_service_ok_def poll_service_new_def cache_ok_def desired_ok_def build_poll_snapshot_def Let_def)
  qed
  show ?thesis unfolding snap_ok_def using h sv by (simp add: build_poll_snapshot_def Let_def)
qed

lemma snap_ok_adv:
  assumes "snap_ok E cls sn r" and "adv r t" and "bounded_gens (rc_state r)"
  shows "snap_ok E cls sn t"
proof -
  have g: "gadv (rc_state r) (rc_state t)" using assms(2) by (simp add: adv_def)
  have nodes: "st_node_generation (rc_state t) = sn_node_generation sn \<longrightarrow> rc_nodes t = sn_nodes sn"
    using assms g unfolding snap_ok_def adv_def gadv_def by (metis le_antisym)
  have sv: "ps_generation service \<le> st_generation_counter (rc_state t)
      \<and> (generation_of (rc_state t) sid = ps_generation service \<longrightarrow>
           (\<forall>md. hget (rc_metadata t) sid = Some md \<longrightarrow> same_spec (ps_metadata service) md))"
    if s: "hget (sn_services sn) sid = Some service" for sid service
  proof -
    have c: "1 \<le> ps_generation service" "ps_generation service \<le> st_generation_counter (rc_state r)"
      and spec: "generation_of (rc_state r) sid = ps_generation service \<Longrightarrow> hget (rc_metadata r) sid = Some md \<Longrightarrow> same_spec (ps_metadata service) md" for md
      using assms(1) s by (auto simp: snap_ok_def snap_service_ok_def)
    have "same_spec (ps_metadata service) md" if e: "generation_of (rc_state t) sid = ps_generation service" and m: "hget (rc_metadata t) sid = Some md" for md
    proof -
      have same: "generation_of (rc_state t) sid = generation_of (rc_state r) sid" using g c e unfolding gadv_def by (metis leD not_one_le_zero)
      then obtain old where "hget (rc_metadata r) sid = Some old" "same_spec old md"
        using assms(2) e m c(1) unfolding adv_def by (metis not_one_le_zero)
      then show ?thesis using spec same e same_spec_trans by metis
    qed
    moreover have "st_generation_counter (rc_state r) \<le> st_generation_counter (rc_state t)" using g by (simp add: gadv_def)
    ultimately show ?thesis using c(2) by simp
  qed
  show ?thesis unfolding snap_ok_def using nodes sv assms(1) g by (auto simp: snap_ok_def gadv_def)
qed

text \<open>What acceptance means: the cached metadata is the snapshot's, and so are the nodes where they matter.\<close>

lemma accepted_current:
  assumes "rec_ok E cls r" and "snap_ok E cls sn r" and "hget (sn_services sn) sid = Some service"
    and "accepts (current_poll_verdict sn r) sn sid service" and "hget (rc_metadata r) sid = Some md"
  shows "md = ps_metadata service"
    and "sm_service_mode md \<in> {SERVICE_MODE_GLOBAL, SERVICE_MODE_GLOBAL_JOB} \<Longrightarrow> rc_nodes r = sn_nodes sn"
proof -
  note a = assms(4) [unfolded accepts_current [OF assms(3)]]
  have sv: "snap_service_ok E cls sn service" and spec: "same_spec (ps_metadata service) md"
    using assms(2,3,5) a by (auto simp: snap_ok_def)
  from spec have "md\<lparr>sm_desired_replicas := d\<rparr> = (ps_metadata service)\<lparr>sm_desired_replicas := d\<rparr>" for d
    unfolding same_spec_def by (metis service_metadata.surjective service_metadata.update_convs(5))
  then have eq: "md = (ps_metadata service)\<lparr>sm_desired_replicas := sm_desired_replicas md\<rparr>"
    by (metis service_metadata.surjective service_metadata.update_convs(5))
  have modes: "sm_service_mode md = sm_service_mode (ps_metadata service)" using eq by (metis service_metadata.ext_inject service_metadata.surjective service_metadata.update_convs(5))
  show nodes: "rc_nodes r = sn_nodes sn" if "sm_service_mode md \<in> {SERVICE_MODE_GLOBAL, SERVICE_MODE_GLOBAL_JOB}"
    using that a assms(2) unfolding modes by (simp add: snap_ok_def)
  have "sm_desired_replicas md = fst (replica_counts E md (rc_nodes r))"
    using rec_ok_parts(3) [OF assms(1)] assms(5) by (simp add: desired_ok_def)
  also have "\<dots> = fst (replica_counts E (ps_metadata service) (rc_nodes r))" by (subst eq) simp
  also have "\<dots> = fst (replica_counts E (ps_metadata service) (sn_nodes sn))"
    using nodes sv unfolding modes by (auto simp: snap_service_ok_def known_modes_def replica_counts_def Let_def)
  also have "\<dots> = sm_desired_replicas (ps_metadata service)" using sv by (simp add: snap_service_ok_def)
  finally have d: "sm_desired_replicas md = sm_desired_replicas (ps_metadata service)" .
  have "md = (ps_metadata service)\<lparr>sm_desired_replicas := sm_desired_replicas (ps_metadata service)\<rparr>" using eq d by simp
  then show "md = ps_metadata service" by simp
qed

end
