(* ===== verification/Poll_Publish.thy ===== *)
theory Poll_Publish
  imports Poll_Facts
begin

text \<open>
  What a submission publishes, service by service. The loop of \<^verbatim>\<open>apply_poll_counts\<close> is brought into a form
  that says for each service what its turn publishes and what rejection count it leaves; from it follow
  the bound on carried counts, the exact partial failures, and that the build behind it cannot fail.
\<close>

section \<open>One service\<close>

text \<open>
  The turn of one service: nothing to judge, accepted, or rejected once more.
\<close>

definition accepted_counter :: "poll_verdict \<Rightarrow> poll_snapshot \<Rightarrow> service_counter \<Rightarrow> string \<Rightarrow> task_counter option" where
  "accepted_counter v sn counters sid =
     (case hget (sn_services sn) sid of
        Some service \<Rightarrow> if accepts v sn sid service then hget counters sid else None
      | None \<Rightarrow> None)"

definition judged :: "poll_snapshot \<Rightarrow> reconciler \<Rightarrow> string \<Rightarrow> bool" where
  "judged sn r sid \<longleftrightarrow> hhas (sn_services sn) sid \<and> hhas (rc_metadata r) sid"

definition carried :: "reconciler \<Rightarrow> string \<Rightarrow> task_counter option" where
  "carried r sid =
     (case (hget (rc_last_published r) sid, hget (rc_metadata r) sid) of
        (Some previous, Some md) \<Rightarrow> if tc_labels previous = labels_for_metadata md then Some previous else None
      | _ \<Rightarrow> None)"

definition new_rejection :: "poll_verdict \<Rightarrow> poll_snapshot \<Rightarrow> service_counter \<Rightarrow> reconciler \<Rightarrow> string \<Rightarrow> nat option" where
  "new_rejection v sn counters r sid =
     (if judged sn r sid \<and> accepted_counter v sn counters sid = None
      then Some (Suc (unwrap_or (hget (rc_poll_rejections r) sid) 0)) else None)"

definition new_published :: "poll_verdict \<Rightarrow> poll_snapshot \<Rightarrow> service_counter \<Rightarrow> reconciler \<Rightarrow> string \<Rightarrow> task_counter option" where
  "new_published v sn counters r sid =
     (if \<not> judged sn r sid then None
      else case accepted_counter v sn counters sid of
             Some c \<Rightarrow> Some c
           | None \<Rightarrow> if unwrap_or (hget (rc_poll_rejections r) sid) 0 < MAX_CARRIED_POLLS then carried r sid else None)"

definition too_often :: "poll_verdict \<Rightarrow> poll_snapshot \<Rightarrow> service_counter \<Rightarrow> reconciler \<Rightarrow> string \<Rightarrow> bool" where
  "too_often v sn counters r sid \<longleftrightarrow> (case new_rejection v sn counters r sid of Some n \<Rightarrow> n > MAX_CARRIED_POLLS | None \<Rightarrow> False)"

definition opt_put :: "'k \<Rightarrow> 'v option \<Rightarrow> ('k, 'v) hmap \<Rightarrow> ('k, 'v) hmap" where
  "opt_put k x m = (case x of Some v \<Rightarrow> hput k v m | None \<Rightarrow> m)"

lemma hget_opt_put: "hget (opt_put k x m) k' = (if k' = k \<and> x \<noteq> None then x else hget m k')"
  by (auto simp: opt_put_def update_conv' split: option.split)

lemma hmap_ok_opt_put [simp]: "hmap_ok m \<Longrightarrow> hmap_ok (opt_put k x m)"
  by (simp add: opt_put_def split: option.split)

definition turn_state :: "poll_verdict \<Rightarrow> poll_snapshot \<Rightarrow> service_counter \<Rightarrow> (string \<Rightarrow> instant \<times> timestamp) \<Rightarrow> string \<Rightarrow> reconciler \<Rightarrow> reconciler" where
  "turn_state v sn counters clock sid r =
     (if hhas (sn_services sn) sid \<and> \<not> hhas (rc_metadata r) sid
      then on_state (mark_service_dirty sid (fst (clock sid)) (snd (clock sid))) r
      else if new_rejection v sn counters r sid \<noteq> None then on_metrics inc_poll_rejections r else r)"

lemma on_metrics_frame [simp]:
  "rc_metadata (on_metrics f r) = rc_metadata r" "rc_last_published (on_metrics f r) = rc_last_published r"
  "rc_poll_rejections (on_metrics f r) = rc_poll_rejections r" "rc_state (on_metrics f r) = rc_state r" "rc_nodes (on_metrics f r) = rc_nodes r"
  by (simp_all add: on_metrics_def)

lemma judge_service_result:
  "judge_service v sn counters clock sid (round, r) =
     (round\<lparr>pd_published := opt_put sid (new_published v sn counters r sid) (pd_published round),
            pd_rejections := opt_put sid (new_rejection v sn counters r sid) (pd_rejections round),
            pd_omitted := pd_omitted round @ (if too_often v sn counters r sid then [sid] else [])\<rparr>,
      turn_state v sn counters clock sid r)"
  by (auto simp: judge_service_def mc_get_def opt_put_def new_published_def new_rejection_def too_often_def turn_state_def judged_def
      accepted_counter_def carried_def hhas_def Let_def split: option.split bool.split)

section \<open>The loop\<close>

text \<open>What the turns read of the reconciler does not change during the loop.\<close>

definition same_view :: "reconciler \<Rightarrow> reconciler \<Rightarrow> bool" where
  "same_view r t \<longleftrightarrow> rc_metadata t = rc_metadata r \<and> rc_last_published t = rc_last_published r \<and> rc_poll_rejections t = rc_poll_rejections r
     \<and> rc_nodes t = rc_nodes r \<and> rc_ready t = rc_ready r"

lemma same_view_turn: "same_view r (turn_state v sn counters clock sid r)"
  by (simp add: same_view_def turn_state_def on_state_def on_metrics_def)

lemma view_cong:
  assumes "same_view r t"
  shows "new_published v sn counters t sid = new_published v sn counters r sid" "new_rejection v sn counters t sid = new_rejection v sn counters r sid"
    "too_often v sn counters t sid = too_often v sn counters r sid"
proof -
  have c: "carried t sid = carried r sid" "judged sn t sid = judged sn r sid"
    "hget (rc_poll_rejections t) sid = hget (rc_poll_rejections r) sid"
    using assms by (simp_all add: same_view_def carried_def judged_def)
  show "new_published v sn counters t sid = new_published v sn counters r sid" by (simp only: new_published_def c)
  show n: "new_rejection v sn counters t sid = new_rejection v sn counters r sid" by (simp only: new_rejection_def c)
  show "too_often v sn counters t sid = too_often v sn counters r sid" by (simp only: too_often_def n)
qed

lemma same_view_trans: "same_view r s \<Longrightarrow> same_view s t \<Longrightarrow> same_view r t"
  by (simp add: same_view_def)

lemma judge_loop:
  assumes "distinct ids"
  shows "\<exists>round' t. fold (judge_service v sn counters clock) ids (round, r) = (round', t)
    \<and> same_view r t \<and> t = fold (turn_state v sn counters clock) ids r
    \<and> (\<forall>sid. hget (pd_published round') sid = (if sid \<in> set ids \<and> new_published v sn counters r sid \<noteq> None then new_published v sn counters r sid else hget (pd_published round) sid))
    \<and> (\<forall>sid. hget (pd_rejections round') sid = (if sid \<in> set ids \<and> new_rejection v sn counters r sid \<noteq> None then new_rejection v sn counters r sid else hget (pd_rejections round) sid))
    \<and> pd_omitted round' = pd_omitted round @ filter (too_often v sn counters r) ids
    \<and> (hmap_ok (pd_published round) \<longrightarrow> hmap_ok (pd_published round')) \<and> (hmap_ok (pd_rejections round) \<longrightarrow> hmap_ok (pd_rejections round'))"
  using assms
proof (induction ids arbitrary: round r)
  case (Cons i ids)
  let ?r = "turn_state v sn counters clock i r"
  let ?round = "round\<lparr>pd_published := opt_put i (new_published v sn counters r i) (pd_published round),
            pd_rejections := opt_put i (new_rejection v sn counters r i) (pd_rejections round),
            pd_omitted := pd_omitted round @ (if too_often v sn counters r i then [i] else [])\<rparr>"
  note view = view_cong [OF same_view_turn, of v sn counters v sn counters clock i r]
  from Cons.IH [of ?round ?r] Cons.prems obtain round' t where
    step: "fold (judge_service v sn counters clock) ids (?round, ?r) = (round', t)" "same_view ?r t" "t = fold (turn_state v sn counters clock) ids ?r"
    and pub: "\<And>sid. hget (pd_published round') sid = (if sid \<in> set ids \<and> new_published v sn counters r sid \<noteq> None then new_published v sn counters r sid else hget (pd_published ?round) sid)"
    and rej: "\<And>sid. hget (pd_rejections round') sid = (if sid \<in> set ids \<and> new_rejection v sn counters r sid \<noteq> None then new_rejection v sn counters r sid else hget (pd_rejections ?round) sid)"
    and om: "pd_omitted round' = pd_omitted ?round @ filter (too_often v sn counters r) ids"
    and ok: "hmap_ok (pd_published ?round) \<longrightarrow> hmap_ok (pd_published round')" "hmap_ok (pd_rejections ?round) \<longrightarrow> hmap_ok (pd_rejections round')"
    unfolding view by auto
  have "fold (judge_service v sn counters clock) (i # ids) (round, r) = (round', t)" using step(1) by (simp add: judge_service_result)
  moreover have "same_view r t" using same_view_trans [OF same_view_turn step(2)] .
  moreover have "t = fold (turn_state v sn counters clock) (i # ids) r" using step(3) by simp
  moreover have "hget (pd_published round') sid = (if sid \<in> set (i # ids) \<and> new_published v sn counters r sid \<noteq> None then new_published v sn counters r sid else hget (pd_published round) sid)" for sid
    using pub [of sid] by (auto simp: hget_opt_put)
  moreover have "hget (pd_rejections round') sid = (if sid \<in> set (i # ids) \<and> new_rejection v sn counters r sid \<noteq> None then new_rejection v sn counters r sid else hget (pd_rejections round) sid)" for sid
    using rej [of sid] by (auto simp: hget_opt_put)
  moreover have "pd_omitted round' = pd_omitted round @ filter (too_often v sn counters r) (i # ids)" using om by simp
  ultimately show ?case using ok by simp
qed (simp add: same_view_def)

section \<open>The labels of a poll's counters\<close>

definition labels_from :: "poll_snapshot \<Rightarrow> service_counter \<Rightarrow> bool" where
  "labels_from sn counters \<longleftrightarrow> (\<forall>sid c. hget counters sid = Some c \<longrightarrow>
     (\<exists>service. hget (sn_services sn) sid = Some service \<and> tc_labels c = ps_labels service))"

lemma labels_from_count: "labels_from sn (fst st) \<Longrightarrow> labels_from sn (fst (count_step sn kt st))"
proof (cases "hget (sn_services sn) (lk_service_id (fst kt))")
  case (Some service)
  assume ok: "labels_from sn (fst st)"
  let ?c = "counter_for (fst st) (lk_service_id (fst kt)) service"
  have "tc_labels ?c = ps_labels service"
    using ok Some by (cases "hget (fst st) (lk_service_id (fst kt))")
      (fastforce simp: labels_from_def counter_for_def unwrap_or_def for_service_def task_counter_new_def)+
  then have "tc_labels (fst (count_wanted t (tc_inc st' ?c) cn)) = ps_labels service" for t st' cn
    by (simp add: count_wanted_def tc_inc_def Let_def)
  then show ?thesis using ok Some
    by (auto simp: count_step_def split_def Let_def labels_from_def update_conv')
qed (simp add: count_step_def split_def Let_def)

lemma labels_from_fold: "labels_from sn (fst st) \<Longrightarrow> labels_from sn (fst (fold (count_step sn) l st))"
  by (induction l arbitrary: st) (simp_all add: labels_from_count)

lemma poll_labels:
  assumes "poll_replicas_state E listed sn = Inr counters"
  shows "labels_from sn counters"
proof (cases "service_ids sn = []")
  case True
  then show ?thesis using assms by (simp add: poll_replicas_state_def labels_from_def)
next
  case False
  then obtain tasks where "listed = Inr tasks" using assms by (auto simp: poll_replicas_state_def split: sum.splits)
  obtain cs completed where st: "fold (count_step sn) (latest_tasks sn tasks) ([], []) = (cs, completed)" by (metis surj_pair)
  have c: "counters = add_services_without_tasks (service_ids sn) sn (mark_eligible_nodes_covered E completed sn cs)"
    using assms False by (simp add: poll_replicas_state_def \<open>listed = Inr tasks\<close> st)
  have "labels_from sn cs" using labels_from_fold [of sn "([], [])" "latest_tasks sn tasks"] by (simp add: st labels_from_def)
  then show ?thesis unfolding c labels_from_def hget_add_services hget_mark
    by (auto simp: for_service_def task_counter_new_def split: option.splits if_splits)
qed

section \<open>The submission\<close>

definition polls_ok :: "custom_label list \<Rightarrow> reconciler \<Rightarrow> bool" where
  "polls_ok cls r \<longleftrightarrow> hmap_ok (rc_last_published r) \<and> hmap_ok (rc_poll_rejections r)
     \<and> (\<forall>sid c. hget (rc_last_published r) sid = Some c \<longrightarrow> fits (base_label_names cls) (tc_labels c)
          \<and> unwrap_or (hget (rc_poll_rejections r) sid) 0 \<le> MAX_CARRIED_POLLS)"

lemma turn_keeps:
  assumes "rec_ok E cls r"
  shows "rec_ok E cls (turn_state v sn counters clock sid r)" and "adv r (turn_state v sn counters clock sid r)"
proof -
  note r = rec_ok_parts [OF assms]
  have "rec_ok E cls (on_state (mark_service_dirty sid now ts) r)" for now ts
    using r by (intro rec_ok_on_state [OF assms] gens_ok_mark queue_ok_mark sync_ok_mark)
  then show "rec_ok E cls (turn_state v sn counters clock sid r)" using assms by (simp add: turn_state_def)
  have "adv r (on_state (mark_service_dirty sid now ts) r)" for now ts
    by (rule adv_on_state) (rule gadv_mark [OF gens_ok_hmap [OF r(4)]])
  then show "adv r (turn_state v sn counters clock sid r)" by (simp add: turn_state_def) (simp add: adv_def)
qed

lemma turns_keep:
  "rec_ok E cls r \<Longrightarrow> rec_ok E cls (fold (turn_state v sn counters clock) ids r) \<and> adv r (fold (turn_state v sn counters clock) ids r)"
proof (induction ids arbitrary: r)
  case (Cons i ids)
  note t = turn_keeps [OF Cons.prems, of v sn counters clock i]
  show ?case using Cons.IH [OF t(1)] adv_step_trans [OF Cons.prems t(2)] by simp
qed simp

lemma turns_replicas_state:
  "co_replicas_state (rc_collectors (fold (turn_state v sn counters clock) ids r)) = co_replicas_state (rc_collectors r)"
proof (induction ids arbitrary: r)
  case (Cons i ids)
  have "co_replicas_state (rc_collectors (turn_state v sn counters clock i r)) = co_replicas_state (rc_collectors r)"
    by (simp add: turn_state_def on_state_def on_metrics_def)
  then show ?case using Cons.IH by simp
qed simp

text \<open>The state a submission leaves, and its answer.\<close>

lemma apply_poll_counts_result:
  assumes "rec_ok E cls r" and "polls_ok cls r" and "snap_ok E cls sn r" and "labels_from sn counters"
  defines "v \<equiv> current_poll_verdict sn r"
  defines "omitted \<equiv> filter (too_often v sn counters r) (service_ids sn)"
  shows "\<exists>t. apply_poll_counts sn counters clock r = (if omitted = [] then Done t else Stopped (PartiallyRejected omitted) t)
    \<and> rec_ok E cls t \<and> polls_ok cls t \<and> adv r t \<and> rc_metadata t = rc_metadata r
    \<and> (\<forall>sid. hget (rc_last_published t) sid = new_published v sn counters r sid)
    \<and> (\<forall>sid. hget (rc_poll_rejections t) sid = new_rejection v sn counters r sid)
    \<and> rs_update (rc_last_published t) (co_replicas_state (rc_collectors r)) = Done (co_replicas_state (rc_collectors t))"
proof -
  let ?ids = "service_ids sn"
  let ?round = "\<lparr>pd_published = [], pd_rejections = [], pd_omitted = []\<rparr>"
  have h: "hmap_ok (sn_services sn)" using assms(3) by (simp add: snap_ok_def)
  have ids: "distinct ?ids" "set ?ids = {sid. hhas (sn_services sn) sid}" "sorted ?ids"
    using h by (auto simp: service_ids_def hmap_ok_def hhas_iff)
  have outside: "new_published v sn counters r sid = None" "new_rejection v sn counters r sid = None" if "sid \<notin> set ?ids" for sid
    using that ids(2) by (simp_all add: new_published_def new_rejection_def judged_def)
  from judge_loop [OF ids(1), of v sn counters clock ?round r] obtain round t where
    loop: "fold (judge_service v sn counters clock) ?ids (?round, r) = (round, t)" and view: "same_view r t"
    and t: "t = fold (turn_state v sn counters clock) ?ids r" and om: "pd_omitted round = omitted"
    and pub0: "\<forall>sid. hget (pd_published round) sid = (if sid \<in> set ?ids \<and> new_published v sn counters r sid \<noteq> None then new_published v sn counters r sid else None)"
    and rej0: "\<forall>sid. hget (pd_rejections round) sid = (if sid \<in> set ?ids \<and> new_rejection v sn counters r sid \<noteq> None then new_rejection v sn counters r sid else None)"
    and ok: "hmap_ok (pd_published round)" "hmap_ok (pd_rejections round)"
    unfolding omitted_def by (elim exE conjE) simp
  have pub: "hget (pd_published round) sid = new_published v sn counters r sid" for sid using pub0 outside(1) [of sid] by (cases "sid \<in> set ?ids") auto
  have rej: "hget (pd_rejections round) sid = new_rejection v sn counters r sid" for sid using rej0 outside(2) [of sid] by (cases "sid \<in> set ?ids") auto
  have keep: "rec_ok E cls t" "adv r t" using turns_keep [OF assms(1), of v sn counters clock ?ids] t by simp_all
  note r = rec_ok_parts [OF assms(1)] and tp = rec_ok_parts [OF keep(1)]
  have fits: "fits (base_label_names cls) (tc_labels c)" if "new_published v sn counters r sid = Some c" for sid c
  proof (cases "accepted_counter v sn counters sid = Some c")
    case True
    then have "hget counters sid = Some c" by (auto simp: accepted_counter_def split: option.splits if_splits)
    then obtain service where "hget (sn_services sn) sid = Some service" "tc_labels c = ps_labels service"
      using assms(4) unfolding labels_from_def by blast
    then show ?thesis using assms(3) families_fits [OF r(1)] by (auto simp: snap_ok_def snap_service_ok_def)
  next
    case False
    then have "carried r sid = Some c" using that by (auto simp: new_published_def split: if_splits option.splits)
    then have "hget (rc_last_published r) sid = Some c" by (auto simp: carried_def split: option.splits if_splits)
    then show ?thesis using assms(2) by (simp add: polls_ok_def)
  qed
  have "\<forall>(sid, c) \<in> set (pd_published round). fits (base_label_names cls) (tc_labels c)"
    using fits pub hget_mem_iff [OF ok(1)] by fastforce
  moreover have "custom_ok cls" "rs_descs_ok cls (co_replicas_state (rc_collectors t))" using tp(1) by (simp_all add: families_ok_def)
  ultimately obtain rs' where up: "rs_update (pd_published round) (co_replicas_state (rc_collectors t)) = Done rs'"
    using rs_update_done [of cls "co_replicas_state (rc_collectors t)" "pd_published round"] by blast
  have "rs_descs_ok cls rs'" using rs_descs_ok_update [OF _ up] tp(1) by (simp add: families_ok_def)
  note upd = up this
  have rs: "co_replicas_state (rc_collectors t) = co_replicas_state (rc_collectors r)"
    unfolding t by (rule turns_replicas_state)
  let ?t = "(on_replicas_state (\<lambda>_. rs') t)\<lparr>rc_last_published := pd_published round, rc_poll_rejections := pd_rejections round\<rparr>"
  have "apply_poll_counts sn counters clock r = (if omitted = [] then Done ?t else Stopped (PartiallyRejected omitted) ?t)"
  proof -
    have "sort omitted = omitted" unfolding omitted_def using ids(3) by (simp add: sorted_filter [where f = "\<lambda>x. x", simplified] sorted_sort_id)
    then show ?thesis by (simp add: apply_poll_counts_def loop [unfolded v_def] upd om v_def Let_def)
  qed
  moreover have "rec_ok E cls ?t" using upd(2) tp(1)
    by (intro rec_ok_cong [OF _ _ _ _ _ _ _ _ _ _ keep(1)]) (simp_all add: on_replicas_state_def families_ok_def backoff_ok_def)
  moreover have "adv r ?t" using adv_cong [OF _ _ _ keep(2), of ?t] by (simp add: on_replicas_state_def)
  moreover have "polls_ok cls ?t"
  proof -
    have "unwrap_or (new_rejection v sn counters r sid) 0 \<le> MAX_CARRIED_POLLS" if "new_published v sn counters r sid = Some c" for sid c
      using that by (auto simp: new_published_def new_rejection_def unwrap_or_def split: if_splits option.splits)
    then show ?thesis using fits ok by (simp add: polls_ok_def pub rej)
  qed
  ultimately show ?thesis
    using pub rej view upd(1) rs by (intro exI [of _ ?t]) (simp add: same_view_def on_replicas_state_def)
qed

end
