(* ===== verification/Reconciler_Run.thy ===== *)
theory Reconciler_Run
  imports Poll_Publish
begin

text \<open>
  The reconciler's task at work: \<^verbatim>\<open>run\<close> and \<^verbatim>\<open>cycle\<close> of \<^verbatim>\<open>src/src/collector/reconciler/mod.rs\<close> as a state
  machine, interleaved with the event side and the poller. A phase is a point where the lock is free:
  between two checks of a cycle, or awaiting a Docker call. Events and resync requests come at any
  phase, polls are served between cycles, as in the source. What a step does once Docker answered is
  one step; the answers, the tasks listed and every clock reading are arbitrary. A call cancelled at
  shutdown writes nothing, and the keys left are dropped. A machine is the
  phase, the reconciler, and the snapshot the poller works on.
\<close>

section \<open>Phases\<close>

datatype phase =
    Between
  | PeriodicDue instant
  | AtNodes instant
  | NodesCall instant
  | AtResync instant
  | ResyncBegin instant
  | ResyncCall instant nat timestamp
  | AtKeys instant
  | Keys "due_key list"
  | InspectCall due_key "due_key list"

record machine =
  mc_phase :: phase
  mc_rec :: reconciler
  mc_poller :: "poll_snapshot option"

definition machine_init :: "custom_label list \<Rightarrow> timestamp \<Rightarrow> policy \<Rightarrow> machine" where
  "machine_init cls now po = \<lparr>mc_phase = Between, mc_rec = with_policy (collectors_new cls) now po, mc_poller = None\<rparr>"

section \<open>A cycle, check by check\<close>

definition cycle_begin :: "instant \<Rightarrow> reconciler \<Rightarrow> phase" where
  "cycle_begin now r = (if periodic_resync_due r now then PeriodicDue now else AtNodes now)"

definition cycle_nodes :: "instant \<Rightarrow> reconciler \<Rightarrow> phase \<times> reconciler" where
  "cycle_nodes now r = (if nodes_due r now then (NodesCall now, reconcile_nodes_begin r) else (AtResync now, r))"

definition cycle_resync :: "instant \<Rightarrow> reconciler \<Rightarrow> phase" where
  "cycle_resync now r = (if resync_due r now then ResyncBegin now else AtKeys now)"

text \<open>\<^verbatim>\<open>resync\<close> before its calls: the time and the target.\<close>

definition resync_begin :: "instant \<Rightarrow> timestamp \<Rightarrow> reconciler \<Rightarrow> phase" where
  "resync_begin now pass_start r = ResyncCall now (st_resync_requested (rc_state r)) pass_start"

definition cycle_keys :: "instant \<Rightarrow> reconciler \<Rightarrow> phase \<times> reconciler" where
  "cycle_keys now r =
     (let (keys, s) = take_due_keys now (rc_state r) in (Keys keys, r\<lparr>rc_state := s\<rparr>))"

inductive mstep :: "extern \<Rightarrow> machine \<Rightarrow> machine \<Rightarrow> bool" for E :: extern where
  event: "mstep E m (m\<lparr>mc_rec := enqueue_event ev now ts (mc_rec m)\<rparr>)"
| request: "mstep E m (m\<lparr>mc_rec := request_resync ts (mc_rec m)\<rparr>)"
| counters: "mstep E m (m\<lparr>mc_rec := on_metrics f (mc_rec m)\<rparr>)"
| woken: "mc_phase m = Between \<Longrightarrow> mstep E m (m\<lparr>mc_rec := notified (mc_rec m)\<rparr>)"
| snapshot: "mc_phase m = Between \<Longrightarrow> mc_poller m = None \<Longrightarrow>
    mstep E m (m\<lparr>mc_poller := Some (build_poll_snapshot (mc_rec m))\<rparr>)"
| abandon: "mstep E m (m\<lparr>mc_poller := None\<rparr>)"
| submit: "mc_phase m = Between \<Longrightarrow> mc_poller m = Some sn \<Longrightarrow> poll_replicas_state E (listed :: call_error + task list) sn = Inr counters \<Longrightarrow>
    apply_poll_counts sn counters clock (mc_rec m) = result \<Longrightarrow>
    mstep E m (m\<lparr>mc_rec := outcome_state result, mc_poller := None\<rparr>)"
| cycle: "mc_phase m = Between \<Longrightarrow> mstep E m (m\<lparr>mc_phase := cycle_begin now (mc_rec m)\<rparr>)"
| periodic: "mc_phase m = PeriodicDue now \<Longrightarrow>
    mstep E m (m\<lparr>mc_phase := AtNodes now, mc_rec := request_resync ts (mc_rec m)\<rparr>)"
| nodes: "mc_phase m = AtNodes now \<Longrightarrow> cycle_nodes now (mc_rec m) = (p, r) \<Longrightarrow>
    mstep E m (m\<lparr>mc_phase := p, mc_rec := r\<rparr>)"
| nodes_listed: "mc_phase m = NodesCall now \<Longrightarrow> reconcile_nodes_end E listed_nodes at (mc_rec m) = result \<Longrightarrow>
    mstep E m (m\<lparr>mc_phase := AtResync now, mc_rec := after_step False at ts result\<rparr>)"
| resync: "mc_phase m = AtResync now \<Longrightarrow> mstep E m (m\<lparr>mc_phase := cycle_resync now (mc_rec m)\<rparr>)"
| resync_started: "mc_phase m = ResyncBegin now \<Longrightarrow>
    mstep E m (m\<lparr>mc_phase := resync_begin now pass_start (mc_rec m)\<rparr>)"
| resync_listed: "mc_phase m = ResyncCall now target pass_start \<Longrightarrow>
    resync_end E both target pass_start at ts (mc_rec m) = result \<Longrightarrow>
    mstep E m (m\<lparr>mc_phase := AtKeys now, mc_rec := after_step True at' ts' result\<rparr>)"
| keys: "mc_phase m = AtKeys now \<Longrightarrow> cycle_keys now (mc_rec m) = (p, r) \<Longrightarrow>
    mstep E m (m\<lparr>mc_phase := p, mc_rec := r\<rparr>)"
| key: "mc_phase m = Keys (k # ks) \<Longrightarrow> mstep E m (m\<lparr>mc_phase := InspectCall k ks\<rparr>)"
| inspected: "mc_phase m = InspectCall k ks \<Longrightarrow> reconcile_service E k answer at ts (mc_rec m) = result \<Longrightarrow>
    mstep E m (m\<lparr>mc_phase := Keys ks, mc_rec := after_step False at' ts' result\<rparr>)"
| cycle_end: "mc_phase m = Keys [] \<Longrightarrow> mstep E m (m\<lparr>mc_phase := Between\<rparr>)"
| nodes_cancelled: "mc_phase m = NodesCall now \<Longrightarrow> mstep E m (m\<lparr>mc_phase := AtResync now\<rparr>)"
| resync_cancelled: "mc_phase m = ResyncCall now target pass_start \<Longrightarrow> mstep E m (m\<lparr>mc_phase := AtKeys now\<rparr>)"
| inspect_cancelled: "mc_phase m = InspectCall k ks \<Longrightarrow> mstep E m (m\<lparr>mc_phase := Keys ks\<rparr>)"
| keys_cancelled: "mc_phase m = Keys ks \<Longrightarrow> mstep E m (m\<lparr>mc_phase := Between\<rparr>)"

section \<open>One undisturbed cycle\<close>

text \<open>
  The whole of \<^verbatim>\<open>cycle\<close> after the waiting polls are served, with nothing else running meanwhile: what
  Docker answers to each call and what the clock shows at each reading.
\<close>

record answers =
  an_now :: instant
  an_periodic :: timestamp
  an_pass_start :: timestamp
  an_nodes :: "call_error + node list"
  an_lists :: "call_error + (service list \<times> node list)"
  an_inspect :: "string \<Rightarrow> call_error + service"
  an_step_clock :: "string \<Rightarrow> instant \<times> timestamp"
  an_repair_clock :: "string \<Rightarrow> instant \<times> timestamp"

definition repaired :: "answers \<Rightarrow> string \<Rightarrow> bool \<Rightarrow> (panic, reconciler) outcome \<Rightarrow> reconciler" where
  "repaired ans name resync_step result =
     after_step resync_step (fst (an_repair_clock ans name)) (snd (an_repair_clock ans name)) result"

fun serve_keys :: "extern \<Rightarrow> answers \<Rightarrow> due_key list \<Rightarrow> reconciler \<Rightarrow> reconciler" where
  "serve_keys E ans [] r = r"
| "serve_keys E ans (k # ks) r =
     serve_keys E ans ks (repaired ans (dk_service_id k) False
       (reconcile_service E k (an_inspect ans (dk_service_id k))
          (fst (an_step_clock ans (dk_service_id k))) (snd (an_step_clock ans (dk_service_id k))) r))"

definition cycle :: "extern \<Rightarrow> answers \<Rightarrow> reconciler \<Rightarrow> reconciler" where
  "cycle E ans r =
     (let now = an_now ans;
          r = (if periodic_resync_due r now then request_resync (an_periodic ans) r else r);
          r = (if nodes_due r now
               then after_step False (fst (an_step_clock ans ''nodes'')) (snd (an_step_clock ans ''nodes''))
                      (reconcile_nodes_end E (an_nodes ans) (fst (an_step_clock ans ''nodes'')) (reconcile_nodes_begin r))
               else r);
          r = (if resync_due r now
               then repaired ans ''resync'' True
                      (resync_end E (an_lists ans) (st_resync_requested (rc_state r)) (an_pass_start ans)
                         (fst (an_step_clock ans ''resync'')) (snd (an_step_clock ans ''resync'')) r)
               else r);
          (keys, s) = take_due_keys now (rc_state r)
      in serve_keys E ans keys (r\<lparr>rc_state := s\<rparr>))"

section \<open>The invariant\<close>

definition target_ok :: "phase \<Rightarrow> reconciler \<Rightarrow> bool" where
  "target_ok p r \<longleftrightarrow> (case p of ResyncCall now target pass_start \<Rightarrow> 1 \<le> target \<and> target \<le> st_resync_requested (rc_state r) | _ \<Rightarrow> True)"

definition machine_ok :: "extern \<Rightarrow> custom_label list \<Rightarrow> machine \<Rightarrow> bool" where
  "machine_ok E cls m \<longleftrightarrow> rec_ok E cls (mc_rec m) \<and> polls_ok cls (mc_rec m) \<and> target_ok (mc_phase m) (mc_rec m)
     \<and> (\<forall>sn. mc_poller m = Some sn \<longrightarrow> snap_ok E cls sn (mc_rec m))"

text \<open>Only a submission touches what was published.\<close>

definition same_polls :: "reconciler \<Rightarrow> reconciler \<Rightarrow> bool" where
  "same_polls r t \<longleftrightarrow> rc_last_published t = rc_last_published r \<and> rc_poll_rejections t = rc_poll_rejections r"

lemma polls_ok_cong: "same_polls r t \<Longrightarrow> polls_ok cls r \<Longrightarrow> polls_ok cls t"
  by (simp add: same_polls_def polls_ok_def)

lemma same_polls_trans: "same_polls r s \<Longrightarrow> same_polls s t \<Longrightarrow> same_polls r t"
  by (simp add: same_polls_def)

lemma same_polls_small [simp]:
  "same_polls r r" "same_polls r (on_state f r)" "same_polls r (on_metrics g r)" "same_polls r (signal r)"
  "same_polls r (schedule_resync_retry now r)" "same_polls r (delete_service_series md r)" "same_polls r (retired_identity s md r)"
  "same_polls r (written E s md nodes r)" "same_polls r (remove_service sid r)" "same_polls r (complete_resync target ps now ts r)"
  "same_polls r (reconcile_nodes_begin r)" "same_polls r (enqueue_event ev now ts r)" "same_polls r (request_resync ts r)"
  by (simp_all add: same_polls_def on_defs schedule_resync_retry_def delete_service_series_def retired_identity_def written_def gauges_written_def
      remove_service_result dropped_def complete_resync_def reconcile_nodes_begin_def enqueue_event_def request_resync_def Let_def split: option.split)

lemma same_polls_nodes_applied: "same_polls r (nodes_applied E nodes r)"
proof -
  have "same_polls r (fold (node_write E nodes) es r)" for es r
  proof (induction es arbitrary: r)
    case (Cons e es)
    have "same_polls r (node_write E nodes e r)" by (simp add: same_polls_def node_write_def split_def Let_def gauges_written_def on_gauges_def)
    then show ?case using Cons.IH [of "node_write E nodes e r"] same_polls_trans by simp
  qed simp
  then show ?thesis by (simp add: nodes_applied_def same_polls_def on_state_def on_nodes_by_state_def)
qed

lemma same_polls_apply: "rec_ok E cls r \<Longrightarrow> same_polls r (outcome_state (apply_service E s nodes r))"
proof (cases "build_metadata s cls")
  case (Inl p)
  assume "rec_ok E cls r"
  then have "co_custom_labels (rc_collectors r) = cls" using rec_ok_parts(1) by (auto simp: families_ok_def)
  then show ?thesis using Inl by (simp add: apply_service_def)
next
  case (Inr md)
  assume "rec_ok E cls r"
  then show ?thesis
    using apply_service_result [OF rec_ok_parts(1) Inr, of E r E nodes] same_polls_trans [of r "retired_identity s md r"] by simp
qed

lemma same_polls_resync:
  assumes "rec_ok E cls r"
  shows "same_polls r (outcome_state (resync_end E listed target pass_start now ts r))"
proof (cases listed)
  case (Inl e)
  then show ?thesis using same_polls_trans [OF same_polls_small(3) same_polls_small(5)] by (simp add: resync_end_def)
next
  case (Inr lists)
  obtain services nodes where l: "listed = Inr (services, nodes)" using Inr by (cases lists) simp
  note r = rec_ok_parts [OF assms]
  let ?n = "nodes_applied E nodes r"
  let ?I = "\<lambda>t. rec_ok E cls t \<and> rc_nodes t = nodes \<and> same_polls r t"
  let ?a = "for_each (\<lambda>s. apply_service E s nodes) services ?n"
  have a: "?I (outcome_state ?a)"
  proof (rule for_each_invariant [where I = ?I])
    fix s t
    assume "?I t"
    then show "?I (outcome_state (apply_service E s nodes t))"
      using rec_ok_apply_service [of E cls t s] same_requests_apply [of E cls t s nodes] same_polls_apply [of E cls t s nodes]
      by (auto simp: same_requests_def dest: same_polls_trans)
  qed (use rec_ok_nodes_applied(1,2) [OF assms] same_polls_nodes_applied in simp)
  have d: "same_polls t (removed_unlisted listed ids t)" for listed ids t
  proof (induction ids arbitrary: t)
    case (Cons i ids)
    let ?t = "if i \<in> set listed then t else remove_service i t"
    have "same_polls t ?t" by simp
    then show ?case using Cons.IH [of ?t] same_polls_trans [of t ?t] by (simp add: removed_unlisted_def)
  qed (simp add: removed_unlisted_def)
  have tail: "same_polls t (complete_resync target pass_start now ts (on_state prune_service_generations (removed_unlisted listed ids t)))" for t listed ids
    by (rule same_polls_trans [OF same_polls_trans [OF d same_polls_small(2)] same_polls_small(10)])
  show ?thesis
    using a same_polls_trans [OF _ tail] by (cases ?a) (simp_all add: l resync_end_ok apply_nodes_result [OF r(1,2)])
qed

section \<open>Every step keeps it\<close>

lemma requested_mono:
  "st_resync_requested s \<le> st_resync_requested (mark_service_dirty k now ts s)"
  "st_resync_requested s \<le> st_resync_requested (state_request_resync ts s)"
  "st_resync_requested s \<le> st_resync_requested (retry_service ds key now ts s)"
  by (simp_all add: mark_service_dirty_def retry_service_def overflow_def Let_def)

lemma target_ok_mono:
  "target_ok p r \<Longrightarrow> st_resync_requested (rc_state r) \<le> st_resync_requested (rc_state t) \<Longrightarrow> target_ok p t"
  by (auto simp: target_ok_def split: phase.splits)

lemma target_ok_event:
  "target_ok p r \<Longrightarrow> target_ok p (enqueue_event ev now ts r)" "target_ok p r \<Longrightarrow> target_ok p (request_resync ts r)"
  "target_ok p r \<Longrightarrow> target_ok p (on_metrics f r)"
  by (rule target_ok_mono, assumption,
      simp add: enqueue_event_def request_resync_def on_state_def signal_def on_metrics_def mark_nodes_dirty_def requested_mono)+

lemma rec_ok_request_resync: "rec_ok E cls r \<Longrightarrow> rec_ok E cls (request_resync ts r)"
  by (simp add: request_resync_def rec_ok_request)

lemma adv_request_resync: "adv r (request_resync ts r)"
  using adv_on_state [of r "state_request_resync ts"] gadv_request by (simp add: request_resync_def signal_def adv_def)

lemma rec_ok_notified: "rec_ok E cls r \<Longrightarrow> rec_ok E cls (notified r)"
  by (rule rec_ok_cong [where r = r]) (simp_all add: notified_def backoff_ok_def)

lemma adv_notified: "adv r (notified r)"
  by (simp add: notified_def adv_def)

text \<open>A step keeps the invariant and moves the reconciler on.\<close>

definition moves :: "extern \<Rightarrow> custom_label list \<Rightarrow> machine \<Rightarrow> machine \<Rightarrow> bool" where
  "moves E cls m m' \<longleftrightarrow> machine_ok E cls m' \<and> adv (mc_rec m) (mc_rec m')"

text \<open>A step of the reconciler's own: what it does to the invariant, when it does not submit.\<close>

lemma machine_ok_move:
  assumes "machine_ok E cls m" and "rec_ok E cls t" and "adv (mc_rec m) t" and "same_polls (mc_rec m) t" and "target_ok p t"
  shows "moves E cls m (m\<lparr>mc_phase := p, mc_rec := t\<rparr>)"
  using assms snap_ok_adv [OF _ assms(3) gens_ok_bounded [OF rec_ok_parts(4)]] polls_ok_cong [OF assms(4)]
  by (auto simp: moves_def machine_ok_def)

lemma machine_ok_rec:
  assumes "machine_ok E cls m" and "rec_ok E cls t" and "adv (mc_rec m) t" and "same_polls (mc_rec m) t" and "target_ok (mc_phase m) t"
  shows "moves E cls m (m\<lparr>mc_rec := t\<rparr>)"
  using machine_ok_move [OF assms(1-4), of "mc_phase m"] assms(5) by simp

lemma machine_ok_phase:
  assumes "machine_ok E cls m" and "target_ok p (mc_rec m)"
  shows "moves E cls m (m\<lparr>mc_phase := p\<rparr>)"
  using assms by (simp add: moves_def machine_ok_def)

lemma same_polls_after: "same_polls r (outcome_state result) \<Longrightarrow> same_polls r (after_step b now ts result)"
  by (cases result) (auto simp: same_polls_def after_step_def request_resync_after_panic_def schedule_resync_retry_def on_state_def on_metrics_def)

lemma target_ok_other [simp]:
  "target_ok Between r" "target_ok (PeriodicDue now) r" "target_ok (AtNodes now) r" "target_ok (NodesCall now) r" "target_ok (AtResync now) r"
  "target_ok (ResyncBegin now) r" "target_ok (AtKeys now) r" "target_ok (Keys ks) r" "target_ok (InspectCall k ks) r"
  by (simp_all add: target_ok_def)

lemma take_keys_step:
  assumes "rec_ok E cls r" and "cycle_keys now r = (p, t)"
  shows "rec_ok E cls t" "adv r t" "same_polls r t" "p = Keys (fst (take_due_keys now (rc_state r)))"
proof -
  have t: "t = on_state (\<lambda>s. snd (take_due_keys now s)) r" "p = Keys (fst (take_due_keys now (rc_state r)))"
    using assms(2) by (auto simp: cycle_keys_def on_state_def split: prod.splits)
  show "rec_ok E cls t" unfolding t by (rule rec_ok_take [OF assms(1)])
  have "gadv (rc_state r) (snd (take_due_keys now (rc_state r)))"
    by (rule gadv_same) (simp_all add: take_due_keys_result [OF rec_ok_parts(5) [OF assms(1)]])
  then show "adv r t" unfolding t by (rule adv_on_state)
  show "same_polls r t" "p = Keys (fst (take_due_keys now (rc_state r)))" using t by simp_all
qed

lemma nodes_begin_step: "rec_ok E cls r \<Longrightarrow> adv r (reconcile_nodes_begin r)"
  unfolding reconcile_nodes_begin_def by (rule adv_on_state) (rule gadv_same, simp_all)

lemma machine_moves:
  assumes "machine_ok E cls m" and "mstep E m m'"
  shows "moves E cls m m'"
proof -
  have ok: "rec_ok E cls (mc_rec m)" and tg: "target_ok (mc_phase m) (mc_rec m)" and pl: "polls_ok cls (mc_rec m)"
    using assms(1) by (simp_all add: machine_ok_def)
  note r = rec_ok_parts [OF ok]
  show ?thesis using assms(2)
  proof cases
    case (event ev now ts)
    then show ?thesis using machine_ok_rec [OF assms(1) rec_ok_event [OF ok] adv_event [OF ok]] target_ok_event(1) [OF tg] by simp
  next
    case (request ts)
    then show ?thesis using machine_ok_rec [OF assms(1) rec_ok_request_resync [OF ok] adv_request_resync] target_ok_event(2) [OF tg] by simp
  next
    case (counters f)
    then show ?thesis using machine_ok_rec [OF assms(1) rec_ok_metrics [OF ok]] target_ok_event(3) [OF tg] by (simp add: adv_def)
  next
    case woken
    then show ?thesis using machine_ok_rec [OF assms(1) rec_ok_notified [OF ok] adv_notified] by (simp add: same_polls_def notified_def)
  next
    case snapshot
    then show ?thesis using assms(1) snap_ok_build [OF ok] by (simp add: moves_def machine_ok_def)
  next
    case abandon
    then show ?thesis using assms(1) by (simp add: moves_def machine_ok_def)
  next
    case (submit sn listed counters clock result)
    have "snap_ok E cls sn (mc_rec m)" using assms(1) submit(3) by (simp add: machine_ok_def)
    from apply_poll_counts_result [OF ok pl this poll_labels [OF submit(4)], of clock]
    have "rec_ok E cls (outcome_state result)" "polls_ok cls (outcome_state result)" "adv (mc_rec m) (outcome_state result)"
      using submit(5) by (auto split: if_splits)
    then show ?thesis using submit by (simp add: moves_def machine_ok_def)
  next
    case (cycle now)
    then show ?thesis using machine_ok_phase [OF assms(1)] by (simp add: cycle_begin_def)
  next
    case (periodic now ts)
    then show ?thesis using machine_ok_move [OF assms(1) rec_ok_request_resync [OF ok] adv_request_resync] by simp
  next
    case (nodes now p t)
    then show ?thesis
      using machine_ok_move [OF assms(1) rec_ok_nodes_begin [OF ok] nodes_begin_step [OF ok]] machine_ok_phase [OF assms(1)]
      by (auto simp: cycle_nodes_def split: if_splits)
  next
    case (nodes_listed now listed at result ts)
    have "rec_ok E cls (outcome_state result)" "adv (mc_rec m) (outcome_state result)"
      using rec_ok_nodes_end [OF ok] adv_nodes_end [OF ok] nodes_listed(3) by blast+
    moreover have "same_polls (mc_rec m) (outcome_state result)"
      using same_polls_nodes_applied [of "mc_rec m" E] nodes_listed(3)
      by (auto simp: reconcile_nodes_end_def apply_nodes_result [OF r(1,2)] same_polls_def on_state_def split: sum.splits)
    ultimately show ?thesis unfolding nodes_listed(1)
      by (intro machine_ok_move [OF assms(1)] rec_ok_after_step adv_after_step [OF ok] same_polls_after) simp_all
  next
    case (resync now)
    then show ?thesis using machine_ok_phase [OF assms(1)] by (simp add: cycle_resync_def)
  next
    case (resync_started now pass_start)
    then show ?thesis using machine_ok_phase [OF assms(1)] r(6) by (simp add: resync_begin_def target_ok_def sync_ok_def)
  next
    case (resync_listed now target pass_start both at ts result at' ts')
    have "1 \<le> target" "target \<le> st_resync_requested (rc_state (mc_rec m))" using tg resync_listed(2) by (simp_all add: target_ok_def)
    then have "rec_ok E cls (outcome_state result)" "adv (mc_rec m) (outcome_state result)" "same_polls (mc_rec m) (outcome_state result)"
      using rec_ok_resync_end [OF ok] adv_resync_end [OF ok] same_polls_resync [OF ok] resync_listed(3) by blast+
    then show ?thesis unfolding resync_listed(1)
      by (intro machine_ok_move [OF assms(1)] rec_ok_after_step adv_after_step [OF ok] same_polls_after) simp_all
  next
    case (keys now p t)
    then show ?thesis
      using machine_ok_move [OF assms(1) take_keys_step(1-3) [OF ok keys(3)], of p] take_keys_step(4) [OF ok keys(3)] by simp
  next
    case (key k ks)
    then show ?thesis using machine_ok_phase [OF assms(1)] by simp
  next
    case (inspected k ks answer at ts result at' ts')
    have "rec_ok E cls (outcome_state result)" "adv (mc_rec m) (outcome_state result)"
      using rec_ok_service_step [OF ok] adv_service_step [OF ok] inspected(3) by blast+
    moreover have "same_polls (mc_rec m) (outcome_state result)"
      using same_polls_apply [OF ok] inspected(3)
      by (auto simp: reconcile_service_def split: sum.splits call_error.splits)
    ultimately show ?thesis unfolding inspected(1)
      by (intro machine_ok_move [OF assms(1)] rec_ok_after_step adv_after_step [OF ok] same_polls_after) simp_all
  next
    case cycle_end
    then show ?thesis using machine_ok_phase [OF assms(1)] by simp
  qed (use machine_ok_phase [OF assms(1)] in simp_all)
qed

lemma machine_ok_step: "machine_ok E cls m \<Longrightarrow> mstep E m m' \<Longrightarrow> machine_ok E cls m'"
  using machine_moves by (simp add: moves_def)

lemma steps_adv:
  assumes "(mstep E)\<^sup>*\<^sup>* m m'" and "machine_ok E cls m"
  shows "machine_ok E cls m' \<and> adv (mc_rec m) (mc_rec m')"
  using assms(1)
proof (induction rule: rtranclp_induct)
  case base
  show ?case using assms(2) by simp
next
  case (step a b)
  then have "moves E cls a b" by (blast intro: machine_moves)
  moreover have "rec_ok E cls (mc_rec m)" using assms(2) by (simp add: machine_ok_def)
  ultimately show ?case using step.IH adv_step_trans by (auto simp: moves_def)
qed

definition initial :: "custom_label list \<Rightarrow> machine \<Rightarrow> bool" where
  "initial cls m \<longleftrightarrow> custom_ok cls \<and> (\<exists>now po. po_backoff_initial po \<le> po_backoff_max po \<and> m = machine_init cls now po)"

lemma machine_ok_init: "initial cls m \<Longrightarrow> machine_ok E cls m"
proof -
  assume "initial cls m"
  then obtain now po where c: "custom_ok cls" and b: "po_backoff_initial po \<le> po_backoff_max po" and m: "m = machine_init cls now po"
    by (auto simp: initial_def)
  let ?r = "with_policy (collectors_new cls) now po"
  have "families_ok cls ?r"
    using c gauges_ok_new [OF c] updates_ok_new [OF c]
    by (simp add: families_ok_def with_policy_def collectors_new_def)
  moreover have "series_ok cls ?r"
  proof -
    have "gv_get_with (gv_new d) l = None" for d l by (simp add: gv_get_with_def gv_new_def split: sum.split)
    then show ?thesis
      by (simp add: series_ok_def exported_def base_gauges_def with_policy_def collectors_new_def replica_gauges_new_def service_update_new_def Let_def)
  qed
  moreover have "generations_ok ?r" by (simp add: generations_ok_def gens_ok_def with_policy_def state_new_def cached_in_def hhas_def)
  moreover have "queue_ok (rc_state ?r)" using queue_ok_new by (simp add: with_policy_def)
  ultimately have "rec_ok E cls ?r"
    using b by (simp add: rec_ok_def cache_ok_def desired_ok_def resync_ok_def sync_ok_def backoff_ok_def with_policy_def state_new_def)
  moreover have "polls_ok cls ?r" by (simp add: polls_ok_def with_policy_def)
  ultimately show ?thesis by (simp add: machine_ok_def m machine_init_def)
qed

interpretation run: step_invariant "initial cls" "mstep E" "machine_ok E cls" for cls E
  by unfold_locales (auto intro: machine_ok_init machine_ok_step)

end
