(* ===== verification/Resync.thy ===== *)
theory Resync
  imports Reconciler_Run
begin

text \<open>
  What a full resync leaves: the cache holds exactly what Docker listed, and the series follow the
  cache wherever no two services share a label identity. Where a listed service shares the identity of
  one that is gone, which is what removing and recreating a service does, its series are lost.
\<close>

section \<open>The cache after a resync\<close>

definition built :: "custom_label list \<Rightarrow> service \<Rightarrow> service_metadata" where
  "built cls s = (case build_metadata s cls of Inr md \<Rightarrow> md | Inl _ \<Rightarrow> undefined)"

definition buildable :: "custom_label list \<Rightarrow> service \<Rightarrow> bool" where
  "buildable cls s \<longleftrightarrow> (case build_metadata s cls of Inr md \<Rightarrow> True | Inl _ \<Rightarrow> False)"

lemma build_built: "buildable cls s \<Longrightarrow> build_metadata s cls = Inr (built cls s)"
  by (simp add: buildable_def built_def split: sum.splits)

lemma written_frame [simp]:
  "rc_metadata (written E s md nodes r) = hput (svc_id s) (recounted E nodes md) (rc_metadata r)"
  "rc_nodes (written E s md nodes r) = rc_nodes r"
  by (simp_all add: written_def on_state_def on_update_def recounted_def Let_def)

lemma apply_buildable:
  assumes "rec_ok E cls r" and "buildable cls s" and "rc_nodes r = nodes"
  shows "apply_service E s nodes r = Done (written E s (built cls s) nodes (retired_identity s (built cls s) r))"
    and "rec_ok E cls (written E s (built cls s) nodes (retired_identity s (built cls s) r))"
  using apply_service_result [OF rec_ok_parts(1) [OF assms(1)] build_built [OF assms(2)]] rec_ok_written [OF assms(1) build_built [OF assms(2)]] assms(3)
  by simp_all

text \<open>The listing as a map, the last entry of an ID counting.\<close>

definition listing :: "extern \<Rightarrow> custom_label list \<Rightarrow> node list \<Rightarrow> service list \<Rightarrow> string \<Rightarrow> service_metadata option" where
  "listing E cls nodes services = map_of (rev (map (\<lambda>s. (svc_id s, recounted E nodes (built cls s))) services))"

lemma listing_Cons: "listing E cls nodes (s # ss) = [svc_id s \<mapsto> recounted E nodes (built cls s)] ++ listing E cls nodes ss"
  by (simp add: listing_def map_add_def fun_eq_iff split: option.split)

lemma listing_None: "listing E cls nodes ss sid = None \<longleftrightarrow> sid \<notin> set (map svc_id ss)"
  by (simp add: listing_def map_of_eq_None_iff image_image)

lemma apply_all:
  assumes "rec_ok E cls r" and "\<forall>s \<in> set ss. buildable cls s"
  shows "\<exists>t. for_each (\<lambda>s. apply_service E s (rc_nodes r)) ss r = Done t \<and> rec_ok E cls t \<and> rc_nodes t = rc_nodes r
    \<and> hget (rc_metadata t) = hget (rc_metadata r) ++ listing E cls (rc_nodes r) ss"
  using assms
proof (induction ss arbitrary: r)
  case (Cons s ss)
  let ?t = "written E s (built cls s) (rc_nodes r) (retired_identity s (built cls s) r)"
  have b: "buildable cls s" using Cons.prems(2) by simp
  note a = apply_buildable [OF Cons.prems(1) b refl]
  have n: "rc_nodes ?t = rc_nodes r" by simp
  from Cons.IH [OF a(2)] Cons.prems(2) obtain t where
    t: "for_each (\<lambda>s. apply_service E s (rc_nodes r)) ss ?t = Done t" "rec_ok E cls t" "rc_nodes t = rc_nodes r"
    and m: "hget (rc_metadata t) = hget (rc_metadata ?t) ++ listing E cls (rc_nodes r) ss" unfolding n by auto
  have m1: "hget (rc_metadata ?t) = (hget (rc_metadata r)) ++ [svc_id s \<mapsto> recounted E (rc_nodes r) (built cls s)]"
    by (auto simp: update_conv' fun_eq_iff map_add_def)
  have "hget (rc_metadata t) = hget (rc_metadata r) ++ listing E cls (rc_nodes r) (s # ss)"
    unfolding listing_Cons map_add_assoc using m m1 by (simp only:)
  then show ?case using a(1) t by (intro exI [of _ t]) simp
qed (simp add: listing_def)

lemma removed_metadata:
  "hget (rc_metadata (removed_unlisted listed ids r)) sid = (if sid \<in> set ids \<and> sid \<notin> set listed then None else hget (rc_metadata r) sid)"
proof (induction ids arbitrary: r)
  case (Cons i ids)
  let ?r = "if i \<in> set listed then r else remove_service i r"
  have m: "rc_metadata (remove_service i r) = hdel i (rc_metadata r)"
    by (simp add: remove_service_result on_defs dropped_def delete_id map_of_eq_None_iff split: option.split)
  have "removed_unlisted listed (i # ids) r = removed_unlisted listed ids ?r" by (simp add: removed_unlisted_def)
  then show ?case using Cons.IH [of ?r] m by (auto simp: delete_conv')
qed (simp add: removed_unlisted_def)

lemma complete_frame [simp]:
  "rc_metadata (complete_resync target ps now ts r) = rc_metadata r" "rc_nodes (complete_resync target ps now ts r) = rc_nodes r"
  "rc_ready (complete_resync target ps now ts r)"
  "co_replica_gauges (rc_collectors (complete_resync target ps now ts r)) = co_replica_gauges (rc_collectors r)"
  "co_service_update (rc_collectors (complete_resync target ps now ts r)) = co_service_update (rc_collectors r)"
  by (simp_all add: complete_resync_def on_state_def on_metrics_def Let_def)

lemma on_state_frame [simp]:
  "rc_metadata (on_state f r) = rc_metadata r" "rc_nodes (on_state f r) = rc_nodes r" "rc_collectors (on_state f r) = rc_collectors r"
  "rc_state (on_state f r) = f (rc_state r)" "rc_ready (on_state f r) = rc_ready r"
  by (simp_all add: on_state_def)

text \<open>The pieces of a resync whose services all build.\<close>

lemma resync_pieces:
  assumes "rec_ok E cls r" and "\<forall>s \<in> set services. buildable cls s"
  shows "\<exists>a. let d = removed_unlisted (map svc_id services) (hkeys (rc_metadata a)) a in
      for_each (\<lambda>s. apply_service E s nodes) services (nodes_applied E nodes r) = Done a
    \<and> rec_ok E cls a \<and> rec_ok E cls d \<and> rc_nodes d = nodes
    \<and> hget (rc_metadata a) = (\<lambda>sid. map_option (recounted E nodes) (hget (rc_metadata r) sid)) ++ listing E cls nodes services
    \<and> hget (rc_metadata d) = listing E cls nodes services
    \<and> resync_end E (Inr (services, nodes)) target ps now ts r = Done (complete_resync target ps now ts (on_state prune_service_generations d))"
proof -
  note n = rec_ok_nodes_applied [OF assms(1), of nodes]
  from apply_all [OF n(1) assms(2)] obtain a where
    a: "for_each (\<lambda>s. apply_service E s nodes) services (nodes_applied E nodes r) = Done a" "rec_ok E cls a" "rc_nodes a = nodes"
    and m: "hget (rc_metadata a) = hget (rc_metadata (nodes_applied E nodes r)) ++ listing E cls nodes services"
    unfolding n(2) by blast
  let ?d = "removed_unlisted (map svc_id services) (hkeys (rc_metadata a)) a"
  have m': "hget (rc_metadata a) = (\<lambda>sid. map_option (recounted E nodes) (hget (rc_metadata r) sid)) ++ listing E cls nodes services"
    unfolding m using n(3) by presburger
  have d: "rec_ok E cls ?d" "rc_nodes ?d = nodes"
    using removed_unlisted_keeps [OF a(2)] a(3) by (simp_all add: same_requests_def)
  have "hget (rc_metadata ?d) sid = listing E cls nodes services sid" for sid
  proof (cases "listing E cls nodes services sid")
    case None
    then have "sid \<notin> set (map svc_id services)" by (simp add: listing_None)
    moreover have "sid \<notin> set (hkeys (rc_metadata a)) \<Longrightarrow> hget (rc_metadata a) sid = None" by (simp add: map_of_eq_None_iff)
    ultimately show ?thesis unfolding removed_metadata None by auto
  next
    case (Some md)
    then have "sid \<in> set (map svc_id services)" by (metis listing_None option.distinct(1))
    then show ?thesis unfolding removed_metadata m' using Some by (simp add: map_add_def)
  qed
  then have dm: "hget (rc_metadata ?d) = listing E cls nodes services" by auto
  have "resync_end E (Inr (services, nodes)) target ps now ts r = Done (complete_resync target ps now ts (on_state prune_service_generations ?d))"
    by (simp add: resync_end_ok apply_nodes_result [OF rec_ok_parts(1,2) [OF assms(1)]] a(1))
  then show ?thesis using a m' d dm by (intro exI [of _ a]) (simp add: Let_def)
qed

section \<open>Series after a resync\<close>

text \<open>Removing never adds a series, and takes those of what it removes.\<close>

lemma removed_series:
  assumes "rec_ok E cls r" and "fits (base_label_names cls) l"
  shows "exported (remove_service sid r) l \<longleftrightarrow> exported r l \<and> (\<forall>md. hget (rc_metadata r) sid = Some md \<longrightarrow> labels_for_metadata md \<noteq> l)"
proof -
  note r = rec_ok_parts [OF assms(1)]
  have t: "exported (remove_service sid r) l = exported (dropped sid r) l"
    using exported_cong [of "remove_service sid r" "dropped sid r" l cls] by (simp add: remove_service_result on_defs)
  show ?thesis
  proof (cases "hget (rc_metadata r) sid")
    case None
    then show ?thesis using t by (simp add: dropped_def)
  next
    case (Some md)
    then have "metadata_ok cls md" using r(2) by (simp add: cache_ok_def)
    note del = exported_delete(1) [OF r(1,8) this assms(2)]
    have "exported (dropped sid r) l = exported (delete_service_series md r) l"
      using exported_cong [of "dropped sid r" "delete_service_series md r" l cls] Some by (simp add: dropped_def)
    then show ?thesis using t del Some by auto
  qed
qed

lemma removed_unlisted_series:
  assumes "rec_ok E cls r" and "fits (base_label_names cls) l" and "distinct ids"
  shows "exported (removed_unlisted listed ids r) l \<longleftrightarrow> exported r l
    \<and> (\<forall>sid \<in> set ids - set listed. \<forall>md. hget (rc_metadata r) sid = Some md \<longrightarrow> labels_for_metadata md \<noteq> l)"
  using assms(1,3)
proof (induction ids arbitrary: r)
  case (Cons i ids)
  let ?r = "if i \<in> set listed then r else remove_service i r"
  have ok: "rec_ok E cls ?r" using Cons.prems(1) rec_ok_remove by simp
  have m: "hget (rc_metadata ?r) sid = hget (rc_metadata r) sid" if "sid \<in> set ids" for sid
    using that Cons.prems(2)
    by (auto simp: remove_service_result on_defs dropped_def delete_conv' split: option.split)
  have "removed_unlisted listed (i # ids) r = removed_unlisted listed ids ?r" by (simp add: removed_unlisted_def)
  then show ?case using Cons.IH [OF ok] Cons.prems(2) m removed_series [OF Cons.prems(1) assms(2), of i] by auto
qed (simp add: removed_unlisted_def)

text \<open>The two replica counts exported under a label set.\<close>

definition vals :: "reconciler \<Rightarrow> (string, string) btree \<Rightarrow> int option \<times> int option" where
  "vals r l = (let g = co_replica_gauges (rc_collectors r) in (gv_get_with (rg_desired g) l, gv_get_with (rg_schedulable g) l))"

definition counts_of :: "extern \<Rightarrow> node list \<Rightarrow> service_metadata \<Rightarrow> int option \<times> int option" where
  "counts_of E nodes md = (let (d, v) = replica_counts E md nodes in (Some d, Some (exported_schedulable md v)))"

lemma vals_cong: "co_replica_gauges (rc_collectors t) = co_replica_gauges (rc_collectors r) \<Longrightarrow> vals t l = vals r l"
  by (simp add: vals_def)

lemma gauge_parts:
  "families_ok cls r \<Longrightarrow> gauge_ok (base_label_names cls) (rg_desired (co_replica_gauges (rc_collectors r)))
     \<and> gauge_ok (base_label_names cls) (rg_schedulable (co_replica_gauges (rc_collectors r)))"
  by (simp add: families_ok_def gauges_ok_def)

lemma vals_delete:
  assumes "families_ok cls r" and "metadata_ok cls md" and "fits (base_label_names cls) l"
  shows "vals (delete_service_series md r) l = (if l = labels_for_metadata md then (None, None) else vals r l)"
  using gauge_parts [OF assms(1)] gv.lookup_remove [OF _ families_fits [OF assms(1,2)] assms(3)]
  by (simp add: vals_def delete_service_series_def on_defs Let_def)

lemma vals_written:
  assumes "rec_ok E cls r" and "buildable cls s" and "fits (base_label_names cls) l"
  defines "md \<equiv> built cls s"
  shows "vals (written E s md nodes (retired_identity s md r)) l =
     (if l = labels_for_metadata md then counts_of E nodes md
      else if \<exists>old. hget (rc_metadata r) (svc_id s) = Some old \<and> labels_for_metadata old = l then (None, None)
      else vals r l)"
proof -
  note r = rec_ok_parts [OF assms(1)]
  have m: "metadata_ok cls md" using metadata_ok_build [OF build_built [OF assms(2)]] by (simp add: md_def)
  let ?r0 = "retired_identity s md r"
  have f0: "families_ok cls ?r0" by (rule families_ok_retired [OF r(1)])
  have r0: "vals ?r0 l = (if l \<noteq> labels_for_metadata md \<and> (\<exists>old. hget (rc_metadata r) (svc_id s) = Some old \<and> labels_for_metadata old = l)
      then (None, None) else vals r l)" if "l \<noteq> labels_for_metadata md"
    using that vals_delete [OF r(1) _ assms(3)] r(2) by (auto simp: retired_identity_def cache_ok_def split: option.split)
  obtain d v where dv: "replica_counts E md nodes = (d, v)" by (cases "replica_counts E md nodes")
  have "vals (written E s md nodes ?r0) l = (if l = labels_for_metadata md then (Some d, Some (exported_schedulable md v)) else vals ?r0 l)"
    using gauge_parts [OF f0] gv.lookup_put [OF _ families_fits [OF f0 m] assms(3)] dv
    by (simp add: vals_def written_def on_state_def on_update_def gauges_written_def on_gauges_def exported_schedulable_def Let_def)
  then show ?thesis using r0 dv by (simp add: counts_of_def)
qed

lemma vals_removed:
  assumes "rec_ok E cls r" and "fits (base_label_names cls) l"
    and "\<forall>md. hget (rc_metadata r) sid = Some md \<longrightarrow> labels_for_metadata md \<noteq> l"
  shows "vals (remove_service sid r) l = vals r l"
proof -
  note r = rec_ok_parts [OF assms(1)]
  have "vals (remove_service sid r) l = vals (dropped sid r) l" by (rule vals_cong) (simp add: remove_service_result on_defs)
  also have "\<dots> = vals r l"
  proof (cases "hget (rc_metadata r) sid")
    case (Some md)
    then have "vals (dropped sid r) l = vals (delete_service_series md r) l" by (intro vals_cong) (simp add: dropped_def)
    then show ?thesis using vals_delete [OF r(1) _ assms(2), of md] r(2) Some assms(3) by (auto simp: cache_ok_def)
  qed (simp add: dropped_def)
  finally show ?thesis .
qed

lemma vals_removed_unlisted:
  assumes "rec_ok E cls r" and "fits (base_label_names cls) l" and "distinct ids"
    and "\<forall>sid \<in> set ids - set listed. \<forall>md. hget (rc_metadata r) sid = Some md \<longrightarrow> labels_for_metadata md \<noteq> l"
  shows "vals (removed_unlisted listed ids r) l = vals r l"
  using assms(1,3,4)
proof (induction ids arbitrary: r)
  case (Cons i ids)
  let ?r = "if i \<in> set listed then r else remove_service i r"
  have ok: "rec_ok E cls ?r" using Cons.prems(1) rec_ok_remove by simp
  have m: "hget (rc_metadata ?r) sid = hget (rc_metadata r) sid" if "sid \<in> set ids" for sid
    using that Cons.prems(2) by (auto simp: remove_service_result on_defs dropped_def delete_conv' split: option.split)
  have "vals ?r l = vals r l" using vals_removed [OF Cons.prems(1) assms(2), of i] Cons.prems(3) by auto
  moreover have "vals (removed_unlisted listed ids ?r) l = vals ?r l" using Cons.prems m by (intro Cons.IH [OF ok]) auto
  moreover have "removed_unlisted listed (i # ids) r = removed_unlisted listed ids ?r" by (simp add: removed_unlisted_def)
  ultimately show ?case by simp
qed (simp add: removed_unlisted_def)

text \<open>Applying a list of services with identities of their own.\<close>

lemma vals_apply_all:
  assumes "rec_ok E cls r" and "\<forall>s \<in> set ss. buildable cls s" and "fits (base_label_names cls) l"
    and "for_each (\<lambda>s. apply_service E s (rc_nodes r)) ss r = Done t"
    and "\<forall>s \<in> set ss. labels_for_metadata (built cls s) \<noteq> l"
    and "\<forall>s \<in> set ss. \<forall>old. hget (rc_metadata r) (svc_id s) = Some old \<longrightarrow> labels_for_metadata old \<noteq> l"
  shows "vals t l = vals r l"
  using assms(1,2,4-)
proof (induction ss arbitrary: r)
  case (Cons s ss)
  let ?t = "written E s (built cls s) (rc_nodes r) (retired_identity s (built cls s) r)"
  have b: "buildable cls s" using Cons.prems(2) by simp
  note a = apply_buildable [OF Cons.prems(1) b refl]
  have "vals ?t l = vals r l" using vals_written [OF Cons.prems(1) b assms(3)] Cons.prems(4,5) by auto
  moreover have "vals t l = vals ?t l"
  proof (rule Cons.IH [OF a(2)])
    show "for_each (\<lambda>s. apply_service E s (rc_nodes ?t)) ss ?t = Done t" using Cons.prems(3) a(1) by simp
    show "\<forall>s' \<in> set ss. \<forall>old. hget (rc_metadata ?t) (svc_id s') = Some old \<longrightarrow> labels_for_metadata old \<noteq> l"
      using Cons.prems(4,5) by (auto simp: update_conv')
  qed (use Cons.prems in simp_all)
  ultimately show ?case by simp
qed simp

lemma apply_unbuildable:
  "rec_ok E cls r \<Longrightarrow> s \<in> set ss \<Longrightarrow> \<not> buildable cls s \<Longrightarrow> \<exists>p t. for_each (\<lambda>s. apply_service E s (rc_nodes r)) ss r = Stopped p t"
proof (induction ss arbitrary: r)
  case (Cons x ss)
  show ?case
  proof (cases "buildable cls x")
    case True
    note a = apply_buildable [OF Cons.prems(1) True refl]
    have "s \<in> set ss" using Cons.prems(2,3) True by auto
    from Cons.IH [OF a(2) this Cons.prems(3)] show ?thesis using a(1) by simp
  next
    case False
    moreover have "co_custom_labels (rc_collectors r) = cls" using rec_ok_parts(1) [OF Cons.prems(1)] by (simp add: families_ok_def)
    ultimately show ?thesis by (auto simp: apply_service_def buildable_def split: sum.splits)
  qed
qed simp

lemma reach_ok: "reach (initial cls) (mstep E) m \<Longrightarrow> rec_ok E cls (mc_rec m) \<and> machine_ok E cls m"
  using run.inv_reach by (auto simp: machine_ok_def)

lemma machine_swap: "m\<lparr>mc_rec := r, mc_phase := p\<rparr> = m\<lparr>mc_phase := p, mc_rec := r\<rparr>"
  by simp

lemma reach_resynced:
  assumes "reach (initial cls) (mstep E) m" and "mc_phase m = Between"
    and "\<not> periodic_resync_due (mc_rec m) now" and "\<not> nodes_due (mc_rec m) now" and "resync_due (mc_rec m) now"
  shows "reach (initial cls) (mstep E) (m\<lparr>mc_phase := AtKeys now, mc_rec := after_step True at' ts'
     (resync_end E both (st_resync_requested (rc_state (mc_rec m))) ps at ts (mc_rec m))\<rparr>)"
proof -
  let ?R = "reach (initial cls) (mstep E)"
  have "?R (m\<lparr>mc_phase := AtNodes now\<rparr>)"
    using reach_step [OF assms(1) mstep.cycle [OF assms(2), of E now]] assms(3) by (simp add: cycle_begin_def)
  from reach_step [OF this mstep.nodes [of _ now]] have "?R (m\<lparr>mc_phase := AtResync now\<rparr>)"
    using assms(4) by (simp add: cycle_nodes_def)
  from reach_step [OF this mstep.resync [of _ now]] have "?R (m\<lparr>mc_phase := ResyncBegin now\<rparr>)"
    using assms(5) by (simp add: cycle_resync_def)
  from reach_step [OF this mstep.resync_started [of _ now _ ps]]
  have "?R (m\<lparr>mc_phase := ResyncCall now (st_resync_requested (rc_state (mc_rec m))) ps\<rparr>)" by (simp add: resync_begin_def)
  from reach_step [OF this mstep.resync_listed [of _ now _ ps, OF _ refl]] show ?thesis by simp
qed

section \<open>Properties\<close>

text \<open>
  C6: a resync whose lists both answered makes the reconciler mirror Docker: the metadata cache holds
  exactly the listed services, each with the metadata and desired replicas of the lists, the node
  snapshot is the listed one, every request up to the pass's target counts as served, and no series is
  left that no cached service owns. It panics exactly when a listed service has no metadata (a
  replicated one without a replica count).
\<close>

theorem resync_mirrors_docker:
  assumes "reach (initial cls) (mstep E) m" and "1 \<le> target" and "target \<le> st_resync_requested (rc_state (mc_rec m))"
  shows "if \<forall>s \<in> set services. buildable cls s
    then \<exists>t. resync_end E (Inr (services, nodes)) target ps now ts (mc_rec m) = Done t
      \<and> hget (rc_metadata t) = listing E cls nodes services \<and> rc_nodes t = nodes \<and> rc_ready t
      \<and> target \<le> st_resync_completed (rc_state t) \<and> rc_resync_not_before t = None
      \<and> (\<forall>l. fits (base_label_names cls) l \<longrightarrow> exported t l \<longrightarrow> owned t l)
    else \<exists>p t. resync_end E (Inr (services, nodes)) target ps now ts (mc_rec m) = Stopped p t"
proof (cases "\<forall>s \<in> set services. buildable cls s")
  case True
  have ok: "rec_ok E cls (mc_rec m)" using reach_ok [OF assms(1)] by simp
  from resync_pieces [OF ok True, of nodes target ps now ts] obtain d where
    d: "hget (rc_metadata d) = listing E cls nodes services" "rc_nodes d = nodes"
    and t: "resync_end E (Inr (services, nodes)) target ps now ts (mc_rec m) = Done (complete_resync target ps now ts (on_state prune_service_generations d))"
    by (auto simp: Let_def)
  let ?t = "complete_resync target ps now ts (on_state prune_service_generations d)"
  have "rec_ok E cls ?t" using rec_ok_resync_end [OF ok assms(2,3), of "Inr (services, nodes)" ps now ts] t by simp
  from rec_ok_parts(9) [OF this] have "\<forall>l. fits (base_label_names cls) l \<longrightarrow> exported ?t l \<longrightarrow> owned ?t l" by blast
  moreover have "target \<le> st_resync_completed (rc_state ?t)" "rc_resync_not_before ?t = None"
    by (simp_all add: complete_resync_def on_state_def on_metrics_def Let_def)
  ultimately show ?thesis using True d t by simp
next
  case False
  then obtain s where s: "s \<in> set services" "\<not> buildable cls s" by blast
  have ok: "rec_ok E cls (mc_rec m)" using reach_ok [OF assms(1)] by simp
  note n = rec_ok_nodes_applied [OF ok, of nodes]
  from apply_unbuildable [OF n(1) s] obtain p t where
    "for_each (\<lambda>s. apply_service E s nodes) services (nodes_applied E nodes (mc_rec m)) = Stopped p t" unfolding n(2) by blast
  then show ?thesis unfolding if_not_P [OF False]
    by (simp add: resync_end_ok apply_nodes_result [OF rec_ok_parts(1,2) [OF ok]])
qed

definition web :: "string \<Rightarrow> service" where
  "web sid = (no_update_service ''web'' 2)\<lparr>svc_id := sid\<rparr>"

lemma web_buildable [simp]: "buildable [] (web sid)"
  by (simp add: buildable_def web_def no_update_service_def build_metadata_def configured_replicas_def Let_def)

lemma web_built: "built [] (web sid) = built [] (web sid')"
  by (simp add: built_def web_def no_update_service_def build_metadata_def configured_replicas_def service_mode_def Let_def)

lemma web_id [simp]: "svc_id (web sid) = sid"
  by (simp add: web_def)

definition start :: machine where
  "start = machine_init [] 0 policy_default"

lemma reach_start: "reach (initial []) (mstep E) start"
proof (rule reach_init)
  have "po_backoff_initial policy_default \<le> po_backoff_max policy_default"
    by (simp add: policy_default_def BACKOFF_INITIAL_DELAY_def BACKOFF_MAX_DELAY_def)
  moreover have "custom_ok []" by (simp add: custom_ok_def sanitized_names_def)
  ultimately show "initial [] start" unfolding initial_def start_def by blast
qed

lemma start_requested [simp]: "st_resync_requested (rc_state (mc_rec start)) = 1"
  by (simp add: start_def machine_init_def with_policy_def state_new_def)

theorem resync_mirrors_docker_witness:
  "\<exists>t. resync_end extern_ascii (Inr ([web ''old''], [])) 1 0 0 0 (mc_rec start) = Done t \<and> rc_ready t
     \<and> hget (rc_metadata t) ''old'' = Some (recounted extern_ascii [] (built [] (web ''old'')))"
proof -
  have "\<forall>s \<in> set [web ''old'']. buildable [] s" by simp
  moreover have "listing extern_ascii [] [] [web ''old''] ''old'' = Some (recounted extern_ascii [] (built [] (web ''old'')))"
    by (simp add: listing_def)
  ultimately show ?thesis
    using resync_mirrors_docker [OF reach_start, of 1 "[web ''old'']" extern_ascii "[]" 0 0 0] by (auto split: if_splits)
qed

text \<open>What the gauges hold for a listed service after a resync.\<close>

lemma resync_vals:
  assumes "reach (initial cls) (mstep E) m" and "\<forall>s \<in> set services. buildable cls s"
    and "distinct (map svc_id services)" and "distinct (map (\<lambda>s. labels_for_metadata (built cls s)) services)"
    and "\<forall>s \<in> set services. \<forall>sid md. hget (rc_metadata (mc_rec m)) sid = Some md \<longrightarrow>
           labels_for_metadata md = labels_for_metadata (built cls s) \<longrightarrow> sid = svc_id s"
    and "resync_end E (Inr (services, nodes)) target ps now ts (mc_rec m) = Done t" and "s \<in> set services"
  shows "vals t (labels_for_metadata (built cls s)) = counts_of E nodes (built cls s)"
proof -
  let ?r = "mc_rec m" and ?l = "labels_for_metadata (built cls s)"
  have ok: "rec_ok E cls ?r" using reach_ok [OF assms(1)] by simp
  note n = rec_ok_nodes_applied [OF ok, of nodes]
  have fl: "fits (base_label_names cls) ?l"
    using families_fits [OF rec_ok_parts(1) [OF ok] metadata_ok_build [OF build_built]] assms(2,7) by blast
  from resync_pieces [OF ok assms(2), of nodes target ps now ts] obtain a where
    a: "for_each (\<lambda>s. apply_service E s nodes) services (nodes_applied E nodes ?r) = Done a" "rec_ok E cls a"
    and meta: "hget (rc_metadata a) = (\<lambda>sid. map_option (recounted E nodes) (hget (rc_metadata ?r) sid)) ++ listing E cls nodes services"
    and t: "t = complete_resync target ps now ts (on_state prune_service_generations (removed_unlisted (map svc_id services) (hkeys (rc_metadata a)) a))"
    using assms(6) by (auto simp: Let_def)
  obtain pre post where split: "services = pre @ s # post" using assms(7) by (meson split_list)
  have other: "svc_id x \<noteq> svc_id s" "labels_for_metadata (built cls x) \<noteq> ?l" if "x \<in> set pre \<union> set post" for x
    using assms(3,4) that unfolding split by (auto simp: rev_image_eqI)
  have old: "labels_for_metadata md \<noteq> ?l" if "hget (rc_metadata ?r) sid = Some md" "sid \<noteq> svc_id s" for sid md
    using assms(5,7) that by blast
  from apply_all [OF n(1), of pre] assms(2) obtain b where
    b: "for_each (\<lambda>s. apply_service E s nodes) pre (nodes_applied E nodes ?r) = Done b" "rec_ok E cls b" "rc_nodes b = nodes"
    and bm: "hget (rc_metadata b) = hget (rc_metadata (nodes_applied E nodes ?r)) ++ listing E cls nodes pre"
    unfolding n(2) split by auto
  have sb: "buildable cls s" "\<forall>x \<in> set post. buildable cls x" using assms(2) unfolding split by simp_all
  let ?c = "written E s (built cls s) nodes (retired_identity s (built cls s) b)"
  note c = apply_buildable [OF b(2) sb(1) b(3)]
  have app: "for_each f (xs @ ys) r = and_then (for_each f xs r) (for_each f ys)" for f :: "service \<Rightarrow> reconciler \<Rightarrow> (panic, reconciler) outcome" and xs ys r
  proof (induction xs arbitrary: r)
    case (Cons x xs)
    then show ?case by (cases "f x r") simp_all
  qed simp
  have post: "for_each (\<lambda>s. apply_service E s (rc_nodes ?c)) post ?c = Done a"
    using a(1) b(1,3) c(1) unfolding split app by simp
  have "vals ?c ?l = counts_of E nodes (built cls s)" using vals_written [OF b(2) sb(1) fl] by simp
  moreover have "vals a ?l = vals ?c ?l"
  proof (rule vals_apply_all [OF c(2) sb(2) fl post])
    show "\<forall>x \<in> set post. labels_for_metadata (built cls x) \<noteq> ?l" using other by blast
    have "labels_for_metadata o' \<noteq> ?l" if x: "x \<in> set post" and o: "hget (rc_metadata ?c) (svc_id x) = Some o'" for x o'
    proof -
      have "hget (rc_metadata b) (svc_id x) = Some o'" using o other(1) [of x] x by (simp add: update_conv')
      moreover have "svc_id x \<notin> set (map svc_id pre)" using assms(3) x unfolding split by auto
      then have "listing E cls nodes pre (svc_id x) = None" by (simp only: listing_None not_False_eq_True)
      ultimately have "map_option (recounted E nodes) (hget (rc_metadata ?r) (svc_id x)) = Some o'"
        unfolding bm using n(3) by (simp add: map_add_def)
      then show ?thesis using old other(1) [of x] x by auto
    qed
    then show "\<forall>x \<in> set post. \<forall>o'. hget (rc_metadata ?c) (svc_id x) = Some o' \<longrightarrow> labels_for_metadata o' \<noteq> ?l" by blast
  qed
  moreover have "vals (removed_unlisted (map svc_id services) (hkeys (rc_metadata a)) a) ?l = vals a ?l"
  proof (rule vals_removed_unlisted [OF a(2) fl])
    show "distinct (hkeys (rc_metadata a))" using rec_ok_parts(2) [OF a(2)] by (simp add: cache_ok_def hmap_ok_def)
    have "labels_for_metadata md \<noteq> ?l" if "sid \<notin> set (map svc_id services)" "hget (rc_metadata a) sid = Some md" for sid md
    proof -
      have "listing E cls nodes services sid = None" using that(1) by (simp only: listing_None not_False_eq_True)
      then have "map_option (recounted E nodes) (hget (rc_metadata ?r) sid) = Some md"
        using that(2) unfolding meta by (simp add: map_add_def)
      moreover have "sid \<noteq> svc_id s" using that(1) assms(7) by auto
      ultimately show ?thesis using old by auto
    qed
    then show "\<forall>sid \<in> set (hkeys (rc_metadata a)) - set (map svc_id services). \<forall>md. hget (rc_metadata a) sid = Some md \<longrightarrow> labels_for_metadata md \<noteq> ?l"
      by blast
  qed
  moreover have "vals t ?l = vals (removed_unlisted (map svc_id services) (hkeys (rc_metadata a)) a) ?l"
    unfolding t by (rule vals_cong) simp
  ultimately show ?thesis by simp
qed

text \<open>
  C7: when no two services share a label identity, a resync exports every listed service's desired
  and schedulable replicas, computed from the listed nodes: the listed services have identities of
  their own, and no service cached before under another ID has one of theirs.
\<close>

theorem resync_exports_counts:
  assumes "reach (initial cls) (mstep E) m" and "\<forall>s \<in> set services. buildable cls s"
    and "distinct (map svc_id services)" and "distinct (map (\<lambda>s. labels_for_metadata (built cls s)) services)"
    and "\<forall>s \<in> set services. \<forall>sid md. hget (rc_metadata (mc_rec m)) sid = Some md \<longrightarrow>
           labels_for_metadata md = labels_for_metadata (built cls s) \<longrightarrow> sid = svc_id s"
    and "resync_end E (Inr (services, nodes)) target ps now ts (mc_rec m) = Done t" and "s \<in> set services"
  shows "vals t (labels_for_metadata (built cls s)) = counts_of E nodes (built cls s)"
  by (rule resync_vals [OF assms])

lemma start_metadata [simp]: "rc_metadata (mc_rec start) = []"
  by (simp add: start_def machine_init_def with_policy_def)

lemma start_resync:
  "\<exists>t. resync_end E (Inr ([web sid], nodes)) 1 0 0 0 (mc_rec start) = Done t \<and> rec_ok E [] t
     \<and> hget (rc_metadata t) = [sid \<mapsto> recounted E nodes (built [] (web sid))] \<and> st_pending_order (rc_state t) = []
     \<and> rc_last_published t = []"
proof -
  have ok: "rec_ok E [] (mc_rec start)" using reach_ok [OF reach_start] by simp
  let ?n = "nodes_applied E nodes (mc_rec start)"
  note n = rec_ok_nodes_applied [OF ok, of nodes]
  let ?a = "written E (web sid) (built [] (web sid)) nodes (retired_identity (web sid) (built [] (web sid)) ?n)"
  note a = apply_buildable [OF n(1) web_buildable n(2), of sid]
  let ?t = "complete_resync 1 0 0 0 (on_state prune_service_generations (removed_unlisted [sid] (hkeys (rc_metadata ?a)) ?a))"
  have t: "resync_end E (Inr ([web sid], nodes)) 1 0 0 0 (mc_rec start) = Done ?t"
    by (simp add: resync_end_ok apply_nodes_result [OF rec_ok_parts(1,2) [OF ok]] a(1))
  have m0: "rc_metadata ?n = []"
    using n(3) by (metis (no_types) start_metadata map_of.simps(1) map_of_eq_empty_iff option.map_disc_iff ext)
  then have "hkeys (rc_metadata ?a) = [sid]" by simp
  then have d: "removed_unlisted [sid] (hkeys (rc_metadata ?a)) ?a = ?a" by (simp add: removed_unlisted_def)
  have "rec_ok E [] ?t" using rec_ok_resync_end [OF ok, of 1 "Inr ([web sid], nodes)" 0 0 0] t by simp
  moreover have "hget (rc_metadata ?t) = [sid \<mapsto> recounted E nodes (built [] (web sid))]" unfolding d using m0 by (auto simp: fun_eq_iff)
  moreover have "st_pending_order (rc_state ?t) = []" unfolding d
    using n(5) by (simp add: complete_resync_def on_metrics_def prune_service_generations_def written_def on_update_def Let_def
        start_def machine_init_def with_policy_def state_new_def)
  moreover have "rc_last_published ?t = []"
    using same_polls_resync [OF ok, of "Inr ([web sid], nodes)" 1 0 0 0] t by (simp add: same_polls_def start_def machine_init_def with_policy_def)
  ultimately show ?thesis using t by blast
qed

text \<open>The state after the first resync, between cycles.\<close>

lemma reach_web:
  "\<exists>r. resync_end E (Inr ([web sid], nodes)) 1 0 0 0 (mc_rec start) = Done r \<and> hget (rc_metadata r) = [sid \<mapsto> recounted E nodes (built [] (web sid))]
     \<and> rc_last_published r = [] \<and> st_pending_order (rc_state r) = [] \<and> reach (initial []) (mstep E) (start\<lparr>mc_rec := r\<rparr>)"
proof -
  obtain r where r: "resync_end E (Inr ([web sid], nodes)) 1 0 0 0 (mc_rec start) = Done r" "st_pending_order (rc_state r) = []"
    "hget (rc_metadata r) = [sid \<mapsto> recounted E nodes (built [] (web sid))]" "rc_last_published r = []" using start_resync by metis
  let ?m = "start\<lparr>mc_phase := AtKeys 0, mc_rec := r\<rparr>"
  have "reach (initial []) (mstep E) ?m"
    using reach_resynced [OF reach_start, of 0 E 0 0 "Inr ([web sid], nodes)" 0 0 0] r(1)
    by (simp add: after_step_def start_def machine_init_def with_policy_def state_new_def periodic_resync_due_def nodes_due_def resync_due_def is_none_or_def)
  moreover have "cycle_keys 0 r = (Keys [], r)" using r(2) by (simp add: cycle_keys_def take_due_keys_def)
  ultimately have "reach (initial []) (mstep E) (start\<lparr>mc_phase := Keys [], mc_rec := r\<rparr>)"
    using mstep.keys [of ?m 0 "Keys []" r E] by (auto intro: reach_step)
  then have "reach (initial []) (mstep E) (start\<lparr>mc_phase := Between, mc_rec := r\<rparr>)"
    using mstep.cycle_end [of "start\<lparr>mc_phase := Keys [], mc_rec := r\<rparr>" E] by (auto simp: machine_swap intro: reach_step)
  moreover have "start\<lparr>mc_phase := Between, mc_rec := r\<rparr> = start\<lparr>mc_rec := r\<rparr>" by (simp add: start_def machine_init_def)
  ultimately show ?thesis using r by auto
qed

theorem resync_exports_counts_witness:
  "\<exists>t. resync_end extern_ascii (Inr ([web ''old''], [])) 1 0 0 0 (mc_rec start) = Done t
     \<and> vals t (labels_for_metadata (built [] (web ''old''))) = counts_of extern_ascii [] (built [] (web ''old''))"
proof -
  obtain t where t: "resync_end extern_ascii (Inr ([web ''old''], [])) 1 0 0 0 (mc_rec start) = Done t"
    using start_resync by blast
  then show ?thesis using resync_exports_counts [OF reach_start _ _ _ _ t, of "web ''old''"] by simp
qed

text \<open>
  C10: without that condition series are lost. When a listed service has the identity of a cached one
  that is no longer listed, as after removing a service and creating it again under the same name, the
  resync applies the new service and then deletes the old one's series, which are the same: the pass
  ends with the new service cached and none of its desired, schedulable or update series exported.
\<close>

theorem resync_loses_recreated_service:
  assumes "reach (initial cls) (mstep E) m" and "\<forall>s \<in> set services. buildable cls s" and "s \<in> set services"
    and "distinct (map svc_id services)"
    and "hget (rc_metadata (mc_rec m)) sid = Some gone" and "sid \<notin> set (map svc_id services)"
    and "labels_for_metadata gone = labels_for_metadata (built cls s)"
  shows "\<exists>t. resync_end E (Inr (services, nodes)) target ps now ts (mc_rec m) = Done t
    \<and> hget (rc_metadata t) (svc_id s) = Some (recounted E nodes (built cls s))
    \<and> \<not> exported t (labels_for_metadata (built cls s))"
proof -
  let ?r = "mc_rec m" and ?l = "labels_for_metadata (built cls s)"
  have ok: "rec_ok E cls ?r" using reach_ok [OF assms(1)] by simp
  have fl: "fits (base_label_names cls) ?l"
    using families_fits [OF rec_ok_parts(1) [OF ok] metadata_ok_build [OF build_built]] assms(2,3) by blast
  from resync_pieces [OF ok assms(2), of nodes target ps now ts] obtain a where
    a: "rec_ok E cls a" "hget (rc_metadata a) = (\<lambda>sid. map_option (recounted E nodes) (hget (rc_metadata ?r) sid)) ++ listing E cls nodes services"
    and d: "hget (rc_metadata (removed_unlisted (map svc_id services) (hkeys (rc_metadata a)) a)) = listing E cls nodes services"
    and t: "resync_end E (Inr (services, nodes)) target ps now ts ?r =
      Done (complete_resync target ps now ts (on_state prune_service_generations (removed_unlisted (map svc_id services) (hkeys (rc_metadata a)) a)))"
    by (auto simp: Let_def)
  let ?d = "removed_unlisted (map svc_id services) (hkeys (rc_metadata a)) a"
  let ?t = "complete_resync target ps now ts (on_state prune_service_generations ?d)"
  have "listing E cls nodes services sid = None" using assms(6) by (simp only: listing_None not_False_eq_True)
  then have g: "hget (rc_metadata a) sid = Some (recounted E nodes gone)" unfolding a(2) using assms(5) by (simp add: map_add_def)
  have "distinct (hkeys (rc_metadata a))" using rec_ok_parts(2) [OF a(1)] by (simp add: cache_ok_def hmap_ok_def)
  note series = removed_unlisted_series [OF a(1) fl this, of "map svc_id services"]
  have "sid \<in> set (hkeys (rc_metadata a)) - set (map svc_id services)" using hget_Some_mem [OF g] assms(6) by simp
  then have "\<not> exported ?d ?l" using series g assms(7) by (metis recounted_simps(1))
  then have "\<not> exported ?t ?l" using exported_cong [of ?t ?d ?l cls] by simp
  moreover have "listing E cls nodes services (svc_id s) = Some (recounted E nodes (built cls s))"
    unfolding listing_def using assms(3,4) by (subst map_of_rev_distinct) (auto simp: comp_def intro!: map_of_is_SomeI)
  ultimately show ?thesis using t d by (intro exI [of _ ?t]) simp
qed

theorem resync_loses_recreated_service_witness:
  "\<exists>r t. resync_end extern_ascii (Inr ([web ''old''], [])) 1 0 0 0 (mc_rec start) = Done r
     \<and> resync_end extern_ascii (Inr ([web ''new''], [])) 2 0 0 0 r = Done t
     \<and> hget (rc_metadata t) ''new'' \<noteq> None \<and> \<not> exported t (labels_for_metadata (built [] (web ''new'')))"
proof -
  obtain r where r: "resync_end extern_ascii (Inr ([web ''old''], [])) 1 0 0 0 (mc_rec start) = Done r"
    "hget (rc_metadata r) = [''old'' \<mapsto> recounted extern_ascii [] (built [] (web ''old''))]"
    "reach (initial []) (mstep extern_ascii) (start\<lparr>mc_rec := r\<rparr>)" using reach_web by blast
  from resync_loses_recreated_service [OF r(3), of "[web ''new'']" "web ''new''" "''old''" "recounted extern_ascii [] (built [] (web ''old''))" "[]" 2 0 0 0]
  show ?thesis using r web_built [of "''new''" "''old''"] by auto
qed

end
