(* ===== verification/Run_Properties.thy ===== *)
theory Run_Properties
  imports Resync
begin

text \<open>
  What holds of the running exporter: the properties of the state machine \<open>mstep\<close> and of the polls it
  serves, over every interleaving of cycles, events, resync requests and polls.
\<close>

section \<open>The earliest work\<close>

definition work_due :: "reconciler \<Rightarrow> instant \<Rightarrow> bool" where
  "work_due r now \<longleftrightarrow> periodic_resync_due r now \<or> nodes_due r now \<or> resync_due r now
     \<or> st_resync_completed (rc_state r) > 0 \<and> (\<exists>(k, p) \<in> set (st_pending_set (rc_state r)). pk_not_before p \<le> now)"

definition reached :: "instant option option \<Rightarrow> instant \<Rightarrow> bool" where
  "reached e now \<longleftrightarrow> (case e of None \<Rightarrow> False | Some at \<Rightarrow> is_none_or (\<lambda>a. a \<le> now) at)"

lemma reached_consider: "reached (consider_at at e) now \<longleftrightarrow> reached e now \<or> is_none_or (\<lambda>a. a \<le> now) at"
  by (auto simp: reached_def consider_at_def is_none_or_def split: option.splits)

lemma reached_fold:
  "reached (fold (\<lambda>(k, p). consider_at (Some (pk_not_before p))) ps e) now \<longleftrightarrow> reached e now \<or> (\<exists>(k, p) \<in> set ps. pk_not_before p \<le> now)"
  by (induction ps arbitrary: e) (auto simp: reached_consider is_none_or_def split_def)

lemma next_wake_reached: "\<exists>e. next_wake_delay r now = map_option (\<lambda>at. case at of None \<Rightarrow> 0 | Some at \<Rightarrow> at - now) e
    \<and> (\<forall>at. reached e at \<longleftrightarrow> work_due r at)"
proof -
  let ?s = "rc_state r"
  let ?e1 = "if st_resync_requested ?s > st_resync_completed ?s then consider_at (rc_resync_not_before r) None else None"
  let ?e2 = "if st_resync_requested ?s = st_resync_completed ?s then consider_at (rc_next_periodic_resync r) ?e1 else ?e1"
  let ?e3 = "if st_nodes_dirty ?s then consider_at (rc_nodes_not_before r) ?e2 else ?e2"
  let ?e = "if st_resync_completed ?s > 0 then fold (\<lambda>(k, p). consider_at (Some (pk_not_before p))) (st_pending_set ?s) ?e3 else ?e1"
  have "reached ?e at \<longleftrightarrow> work_due r at" for at
    by (auto simp: reached_fold reached_consider work_due_def periodic_resync_due_def nodes_due_def resync_due_def)
      (auto simp: reached_def)
  moreover have "next_wake_delay r now = map_option (\<lambda>at. case at of None \<Rightarrow> 0 | Some at \<Rightarrow> at - now) ?e"
    by (simp add: next_wake_delay_def Let_def)
  ultimately show ?thesis by blast
qed

section \<open>A cycle is a run\<close>

lemma serve_keys_run:
  "(mstep E)\<^sup>*\<^sup>* (m\<lparr>mc_phase := Keys ks, mc_rec := r\<rparr>) (m\<lparr>mc_phase := Between, mc_rec := serve_keys E ans ks r\<rparr>)"
proof (induction ks arbitrary: r)
  case Nil
  show ?case using mstep.cycle_end [of "m\<lparr>mc_phase := Keys [], mc_rec := r\<rparr>" E] by (simp add: machine_swap)
next
  case (Cons k ks)
  let ?m = "m\<lparr>mc_phase := Keys (k # ks), mc_rec := r\<rparr>"
  have "mstep E ?m (m\<lparr>mc_phase := InspectCall k ks, mc_rec := r\<rparr>)" using mstep.key [of ?m k ks E] by (simp add: machine_swap)
  moreover have "mstep E (m\<lparr>mc_phase := InspectCall k ks, mc_rec := r\<rparr>)
      (m\<lparr>mc_phase := Keys ks, mc_rec := repaired ans (dk_service_id k) False
         (reconcile_service E k (an_inspect ans (dk_service_id k)) (fst (an_step_clock ans (dk_service_id k))) (snd (an_step_clock ans (dk_service_id k))) r)\<rparr>)"
    using mstep.inspected [of "m\<lparr>mc_phase := InspectCall k ks, mc_rec := r\<rparr>" k ks, OF _ refl] by (simp add: repaired_def)
  ultimately show ?case using Cons.IH by (auto intro: converse_rtranclp_into_rtranclp)
qed

lemma mstep_to:
  assumes "mstep E (m\<lparr>mc_phase := p, mc_rec := r\<rparr>) b" and "(mstep E)\<^sup>*\<^sup>* b c"
  shows "(mstep E)\<^sup>*\<^sup>* (m\<lparr>mc_phase := p, mc_rec := r\<rparr>) c"
  using assms by (rule converse_rtranclp_into_rtranclp)

text \<open>The checks of a cycle from its end backwards.\<close>

lemma keys_run:
  assumes "take_due_keys now (rc_state r) = (ks, s)"
  shows "(mstep E)\<^sup>*\<^sup>* (m\<lparr>mc_phase := AtKeys now, mc_rec := r\<rparr>) (m\<lparr>mc_phase := Between, mc_rec := serve_keys E ans ks (r\<lparr>rc_state := s\<rparr>)\<rparr>)"
proof (rule mstep_to)
  show "mstep E (m\<lparr>mc_phase := AtKeys now, mc_rec := r\<rparr>) (m\<lparr>mc_phase := Keys ks, mc_rec := r\<lparr>rc_state := s\<rparr>\<rparr>)"
    using mstep.keys [of "m\<lparr>mc_phase := AtKeys now, mc_rec := r\<rparr>" now _ _ E] assms by (simp add: cycle_keys_def)
qed (rule serve_keys_run)

lemma resync_run:
  assumes "r' = (if resync_due r now
               then repaired ans ''resync'' True
                      (resync_end E (an_lists ans) (st_resync_requested (rc_state r)) (an_pass_start ans)
                         (fst (an_step_clock ans ''resync'')) (snd (an_step_clock ans ''resync'')) r)
               else r)"
  shows "(mstep E)\<^sup>*\<^sup>* (m\<lparr>mc_phase := AtResync now, mc_rec := r\<rparr>) (m\<lparr>mc_phase := AtKeys now, mc_rec := r'\<rparr>)"
proof -
  have check: "mstep E (m\<lparr>mc_phase := AtResync now, mc_rec := r\<rparr>) (m\<lparr>mc_phase := cycle_resync now r, mc_rec := r\<rparr>)"
    using mstep.resync [of "m\<lparr>mc_phase := AtResync now, mc_rec := r\<rparr>" now E] by (simp add: machine_swap)
  show ?thesis
  proof (cases "resync_due r now")
    case True
    let ?p = "ResyncCall now (st_resync_requested (rc_state r)) (an_pass_start ans)"
    have "mstep E (m\<lparr>mc_phase := ResyncBegin now, mc_rec := r\<rparr>) (m\<lparr>mc_phase := ?p, mc_rec := r\<rparr>)"
      using mstep.resync_started [of "m\<lparr>mc_phase := ResyncBegin now, mc_rec := r\<rparr>" now E "an_pass_start ans"] by (simp add: resync_begin_def machine_swap)
    moreover have "mstep E (m\<lparr>mc_phase := ?p, mc_rec := r\<rparr>) (m\<lparr>mc_phase := AtKeys now, mc_rec := r'\<rparr>)"
      using mstep.resync_listed [of "m\<lparr>mc_phase := ?p, mc_rec := r\<rparr>" now _ _ E "an_lists ans", OF _ refl] True assms by (simp add: repaired_def)
    moreover have "mstep E (m\<lparr>mc_phase := AtResync now, mc_rec := r\<rparr>) (m\<lparr>mc_phase := ResyncBegin now, mc_rec := r\<rparr>)"
      using check True by (simp add: cycle_resync_def)
    ultimately show ?thesis by (blast intro: mstep_to rtranclp.rtrancl_refl)
  next
    case False
    then show ?thesis using check assms by (auto simp: cycle_resync_def)
  qed
qed

lemma nodes_run:
  assumes "r' = (if nodes_due r now
               then after_step False (fst (an_step_clock ans ''nodes'')) (snd (an_step_clock ans ''nodes''))
                      (reconcile_nodes_end E (an_nodes ans) (fst (an_step_clock ans ''nodes'')) (reconcile_nodes_begin r))
               else r)"
  shows "(mstep E)\<^sup>*\<^sup>* (m\<lparr>mc_phase := AtNodes now, mc_rec := r\<rparr>) (m\<lparr>mc_phase := AtResync now, mc_rec := r'\<rparr>)"
proof (cases "nodes_due r now")
  case True
  let ?b = "reconcile_nodes_begin r"
  have "mstep E (m\<lparr>mc_phase := AtNodes now, mc_rec := r\<rparr>) (m\<lparr>mc_phase := NodesCall now, mc_rec := ?b\<rparr>)"
    using mstep.nodes [of "m\<lparr>mc_phase := AtNodes now, mc_rec := r\<rparr>" now _ _ E] True by (simp add: cycle_nodes_def)
  moreover have "mstep E (m\<lparr>mc_phase := NodesCall now, mc_rec := ?b\<rparr>) (m\<lparr>mc_phase := AtResync now, mc_rec := r'\<rparr>)"
    using mstep.nodes_listed [of "m\<lparr>mc_phase := NodesCall now, mc_rec := ?b\<rparr>" now E "an_nodes ans", OF _ refl] True assms by simp
  ultimately show ?thesis by (blast intro: mstep_to rtranclp.rtrancl_refl)
next
  case False
  then show ?thesis using mstep.nodes [of "m\<lparr>mc_phase := AtNodes now, mc_rec := r\<rparr>" now _ _ E] assms by (auto simp: cycle_nodes_def)
qed

lemma periodic_run:
  assumes "r' = (if periodic_resync_due r now then request_resync ts r else r)"
  shows "(mstep E)\<^sup>*\<^sup>* (m\<lparr>mc_phase := Between, mc_rec := r\<rparr>) (m\<lparr>mc_phase := AtNodes now, mc_rec := r'\<rparr>)"
proof -
  have check: "mstep E (m\<lparr>mc_phase := Between, mc_rec := r\<rparr>) (m\<lparr>mc_phase := cycle_begin now r, mc_rec := r\<rparr>)"
    using mstep.cycle [of "m\<lparr>mc_phase := Between, mc_rec := r\<rparr>" E now] by (simp add: machine_swap)
  show ?thesis
  proof (cases "periodic_resync_due r now")
    case True
    have "mstep E (m\<lparr>mc_phase := PeriodicDue now, mc_rec := r\<rparr>) (m\<lparr>mc_phase := AtNodes now, mc_rec := r'\<rparr>)"
      using mstep.periodic [of "m\<lparr>mc_phase := PeriodicDue now, mc_rec := r\<rparr>" now E ts] True assms by simp
    then show ?thesis using check True by (auto simp: cycle_begin_def intro: mstep_to)
  next
    case False
    then show ?thesis using check assms by (auto simp: cycle_begin_def)
  qed
qed

section \<open>Snapshots and later changes\<close>

text \<open>Once something a snapshot recorded moved, it stays moved.\<close>

definition outdated :: "poll_snapshot \<Rightarrow> string \<Rightarrow> poll_service \<Rightarrow> reconciler \<Rightarrow> bool" where
  "outdated sn sid service r \<longleftrightarrow> sn_epoch sn < st_epoch (rc_state r) \<or> generation_of (rc_state r) sid \<noteq> ps_generation service
     \<or> sm_service_mode (ps_metadata service) \<in> {SERVICE_MODE_GLOBAL, SERVICE_MODE_GLOBAL_JOB}
       \<and> sn_node_generation sn < st_node_generation (rc_state r)"

lemma outdated_adv:
  assumes "outdated sn sid service r" and "adv r t" and "snap_ok E cls sn r" and "hget (sn_services sn) sid = Some service"
  shows "outdated sn sid service t"
proof -
  have g: "gadv (rc_state r) (rc_state t)" using assms(2) by (simp add: adv_def)
  have c: "1 \<le> ps_generation service" "ps_generation service \<le> st_generation_counter (rc_state r)"
    using assms(3,4) by (auto simp: snap_ok_def snap_service_ok_def)
  have "generation_of (rc_state t) sid \<noteq> ps_generation service" if "generation_of (rc_state r) sid \<noteq> ps_generation service"
    using g c that unfolding gadv_def by (metis leD not_one_le_zero)
  then show ?thesis using assms(1) g by (auto simp: outdated_def gadv_def)
qed

lemma outdated_rejected:
  "outdated sn sid service r \<Longrightarrow> hget (sn_services sn) sid = Some service \<Longrightarrow> \<not> accepts (current_poll_verdict sn r) sn sid service"
  by (auto simp: accepts_current outdated_def)

text \<open>The events that outdate a service of a snapshot.\<close>

definition touches :: "string \<Rightarrow> poll_service \<Rightarrow> event \<Rightarrow> bool" where
  "touches sid service ev \<longleftrightarrow> ev_kind ev = ''service'' \<and> ev_actor_id ev = sid \<and> sid \<noteq> []
     \<or> ev_kind ev = ''node'' \<and> ev_actor_id ev \<noteq> [] \<and> sm_service_mode (ps_metadata service) \<in> {SERVICE_MODE_GLOBAL, SERVICE_MODE_GLOBAL_JOB}"

lemma event_outdates:
  assumes "rec_ok E cls r" and "snap_ok E cls sn r" and "hget (sn_services sn) sid = Some service" and "touches sid service ev"
  shows "outdated sn sid service (enqueue_event ev now ts r)"
proof (cases "ev_kind ev = ''node''")
  case True
  then show ?thesis using assms(2,4) by (auto simp: touches_def enqueue_event_def outdated_def signal_def on_state_def mark_nodes_dirty_def snap_ok_def)
next
  case False
  then have ev: "ev_kind ev = ''service''" "ev_actor_id ev = sid" "sid \<noteq> []" using assms(4) by (auto simp: touches_def)
  let ?s = "rc_state r" and ?b = "bump_service_generation sid None (rc_state r)"
  have c: "1 \<le> ps_generation service" "ps_generation service \<le> st_generation_counter ?s"
    using assms(2,3) by (auto simp: snap_ok_def snap_service_ok_def)
  have h: "hmap_ok (st_service_generation ?b)" by (rule hmap_ok_bump [OF gens_ok_hmap [OF rec_ok_parts(4) [OF assms(1)]]])
  have gb: "gadv ?b (mark_service_dirty sid now ts ?s)"
    using gadv_overflow [OF h, of ts] by (auto simp: mark_service_dirty_def Let_def intro!: gadv_same)
  have b: "generation_of ?b sid = Suc (st_generation_counter ?s)" by (simp add: generation_of_bump)
  have "generation_of (mark_service_dirty sid now ts ?s) sid \<in> {generation_of ?b sid, 0}
      \<or> generation_of (mark_service_dirty sid now ts ?s) sid > st_generation_counter ?b" using gb unfolding gadv_def by blast
  then have "generation_of (mark_service_dirty sid now ts ?s) sid \<noteq> ps_generation service" using b c by auto
  then show ?thesis using ev by (simp add: outdated_def enqueue_event_def signal_def on_state_def)
qed

lemma request_outdates: "snap_ok E cls sn r \<Longrightarrow> outdated sn sid service (request_resync ts r)"
  by (simp add: outdated_def request_resync_def signal_def on_state_def snap_ok_def le_imp_less_Suc)

lemma poll_total: "\<exists>counters. poll_replicas_state E (Inr tasks) sn = Inr counters"
  by (simp add: poll_replicas_state_def split_def Let_def)

text \<open>A reachable state with a snapshot at work, for the examples.\<close>

lemma reach_snapshot:
  "\<exists>r service md. let sn = build_poll_snapshot r; m = start\<lparr>mc_rec := r, mc_poller := Some sn\<rparr> in
     reach (initial []) (mstep E) m \<and> hget (sn_services sn) ''web'' = Some service \<and> hget (rc_metadata r) ''web'' = Some md
     \<and> sm_service_mode (ps_metadata service) = SERVICE_MODE_REPLICATED
     \<and> accepts (current_poll_verdict sn r) sn ''web'' service \<and> rc_last_published r = []"
proof -
  obtain r where r: "reach (initial []) (mstep E) (start\<lparr>mc_rec := r\<rparr>)" "st_pending_order (rc_state r) = []" "rc_last_published r = []"
    "hget (rc_metadata r) = [''web'' \<mapsto> recounted E [] (built [] (web ''web''))]" using reach_web by metis
  let ?sn = "build_poll_snapshot r" and ?md = "recounted E [] (built [] (web ''web''))"
  let ?sv = "poll_service_new (generation_of (rc_state r) ''web'') ?md"
  have sv: "hget (sn_services ?sn) ''web'' = Some ?sv" using r(4) by (simp add: hget_snapshot)
  have mode: "sm_service_mode ?md = SERVICE_MODE_REPLICATED"
    by (simp add: built_def web_def no_update_service_def build_metadata_def configured_replicas_def service_mode_def Let_def)
  have "queue_ok (rc_state r)" using reach_ok [OF r(1)] rec_ok_parts(5) by auto
  then have "\<not> hhas (st_pending_set (rc_state r)) ''web''" using r(2) by (auto simp: queue_ok_def hhas_def)
  then have acc: "accepts (current_poll_verdict ?sn r) ?sn ''web'' ?sv"
    unfolding accepts_current [OF sv] using mode
    by (simp add: poll_service_new_def build_poll_snapshot_def Let_def service_mode_defs)
  have "mstep E (start\<lparr>mc_rec := r\<rparr>) (start\<lparr>mc_rec := r, mc_poller := Some ?sn\<rparr>)"
    using mstep.snapshot [of "start\<lparr>mc_rec := r\<rparr>" E] by (simp add: start_def machine_init_def)
  from reach_step [OF r(1) this] show ?thesis
    unfolding Let_def using sv mode acc r(3,4) by (intro exI [of _ r] exI [of _ ?sv] exI [of _ ?md]) (simp add: poll_service_new_def)
qed

section \<open>Properties\<close>

text \<open>
  C1: in every reachable state the reconciler's parts agree: the dirty queue stays within its cap and
  holds each key once, no more resyncs are completed than requested and one is outstanding exactly
  when the counters differ, readiness is a completed resync, the generations mark exactly the cached
  services, every backoff is within its maximum, each cached service's desired replicas are those of
  the node snapshot, and every exported series belongs to a cached service.
\<close>

theorem reconciler_invariant:
  assumes "reach (initial cls) (mstep E) m"
  shows "let r = mc_rec m; s = rc_state r in
    length (st_pending_set s) \<le> st_pending_cap s \<and> distinct (st_pending_order s) \<and> set (st_pending_order s) = set (hkeys (st_pending_set s))
    \<and> st_resync_completed s \<le> st_resync_requested s
    \<and> (st_resync_outstanding_since s = None \<longleftrightarrow> st_resync_requested s = st_resync_completed s)
    \<and> (rc_ready r \<longleftrightarrow> 0 < st_resync_completed s)
    \<and> (\<forall>sid. cached_in s sid \<longleftrightarrow> hhas (rc_metadata r) sid)
    \<and> rc_resync_backoff r \<le> rc_backoff_max r \<and> rc_nodes_backoff r \<le> rc_backoff_max r
    \<and> (\<forall>sid md. hget (rc_metadata r) sid = Some md \<longrightarrow> sm_desired_replicas md = fst (replica_counts E md (rc_nodes r)))
    \<and> (\<forall>l. fits (base_label_names cls) l \<longrightarrow> exported r l \<longrightarrow> owned r l)"
proof -
  have ok: "rec_ok E cls (mc_rec m)" using reach_ok [OF assms] by simp
  show ?thesis
    using rec_ok_parts [OF ok] by (simp add: Let_def queue_ok_def sync_ok_def gens_ok_def backoff_ok_def desired_ok_def)
qed

theorem reconciler_invariant_witness:
  "\<exists>r. reach (initial []) (mstep extern_ascii) (start\<lparr>mc_rec := r\<rparr>) \<and> hhas (rc_metadata r) ''web'' \<and> cached_in (rc_state r) ''web''"
proof -
  obtain r where r: "reach (initial []) (mstep extern_ascii) (start\<lparr>mc_rec := r\<rparr>)"
    "hget (rc_metadata r) = [''web'' \<mapsto> recounted extern_ascii [] (built [] (web ''web''))]" using reach_web by blast
  then have "hhas (rc_metadata r) ''web''" by (simp add: hhas_def)
  then show ?thesis using reconciler_invariant [OF r(1)] r(1) by (auto simp: Let_def)
qed

text \<open>
  C2: a poll's counts are published only against the moment they were made for: while the poller
  works on a snapshot, whatever cycles and events run meanwhile, a service the verdict accepts has
  the very metadata of the snapshot in the cache, its labels, mode and desired replicas included, and
  for a service that runs on every eligible node the node snapshot is the same too.
\<close>

theorem accepted_poll_is_current:
  assumes "reach (initial cls) (mstep E) m" and "mc_poller m = Some sn" and "hget (sn_services sn) sid = Some service"
    and "accepts (current_poll_verdict sn (mc_rec m)) sn sid service" and "hget (rc_metadata (mc_rec m)) sid = Some md"
  shows "md = ps_metadata service \<and> ps_labels service = labels_for_metadata md
    \<and> (sm_service_mode md \<in> {SERVICE_MODE_GLOBAL, SERVICE_MODE_GLOBAL_JOB} \<longrightarrow> rc_nodes (mc_rec m) = sn_nodes sn)"
proof -
  have ok: "rec_ok E cls (mc_rec m)" "snap_ok E cls sn (mc_rec m)" using reach_ok [OF assms(1)] assms(2) by (auto simp: machine_ok_def)
  show ?thesis using accepted_current [OF ok assms(3-5)] ok(2) assms(3) by (auto simp: snap_ok_def snap_service_ok_def)
qed

theorem accepted_poll_is_current_witness:
  "\<exists>r service md. let sn = build_poll_snapshot r in hget (sn_services sn) ''web'' = Some service \<and> hget (rc_metadata r) ''web'' = Some md
     \<and> accepts (current_poll_verdict sn r) sn ''web'' service \<and> md = ps_metadata service"
proof -
  obtain r service md where r: "reach (initial []) (mstep extern_ascii) (start\<lparr>mc_rec := r, mc_poller := Some (build_poll_snapshot r)\<rparr>)"
    "hget (sn_services (build_poll_snapshot r)) ''web'' = Some service" "hget (rc_metadata r) ''web'' = Some md"
    "accepts (current_poll_verdict (build_poll_snapshot r) r) (build_poll_snapshot r) ''web'' service"
    using reach_snapshot [of extern_ascii] unfolding Let_def by blast
  then have "md = ps_metadata service" using accepted_poll_is_current [OF r(1), of "build_poll_snapshot r" "''web''" service md] by simp
  then show ?thesis using r unfolding Let_def by blast
qed

text \<open>
  C3: nothing that changed is published: after a service event of a service of the snapshot, a node
  event where its mode depends on the nodes, or any resync request, the verdict on the snapshot never
  accepts the service again, whatever runs in between.
\<close>

theorem changed_service_rejected:
  assumes "reach (initial cls) (mstep E) m" and "mc_poller m = Some sn" and "hget (sn_services sn) sid = Some service"
    and "touches sid service ev" and "r = enqueue_event ev now ts (mc_rec m) \<or> r = request_resync ts (mc_rec m)"
    and "(mstep E)\<^sup>*\<^sup>* (m\<lparr>mc_rec := r\<rparr>) m'"
  shows "\<not> accepts (current_poll_verdict sn (mc_rec m')) sn sid service"
proof -
  have m: "machine_ok E cls m" "rec_ok E cls (mc_rec m)" "snap_ok E cls sn (mc_rec m)"
    using reach_ok [OF assms(1)] assms(2) by (auto simp: machine_ok_def)
  have out: "outdated sn sid service r"
    using assms(5) event_outdates [OF m(2,3) assms(3,4)] request_outdates [OF m(3)] by blast
  have step: "mstep E m (m\<lparr>mc_rec := r\<rparr>)" using assms(5) mstep.event mstep.request by blast
  have m1: "machine_ok E cls (m\<lparr>mc_rec := r\<rparr>)" by (rule machine_ok_step [OF m(1) step])
  then have s1: "snap_ok E cls sn r" using assms(2) by (simp add: machine_ok_def)
  have "adv r (mc_rec m')" using steps_adv [OF assms(6) m1] by simp
  from outdated_adv [OF out this s1 assms(3)] show ?thesis using outdated_rejected assms(3) by blast
qed

definition web_event :: event where
  "web_event = \<lparr>ev_kind = ''service'', ev_action = ''update'', ev_actor_id = ''web'', ev_time = 0, ev_time_nano = 0\<rparr>"

theorem changed_service_rejected_witness:
  "\<exists>r service. let sn = build_poll_snapshot r; r' = enqueue_event web_event 0 0 r in
     hget (sn_services sn) ''web'' = Some service \<and> accepts (current_poll_verdict sn r) sn ''web'' service
     \<and> \<not> accepts (current_poll_verdict sn r') sn ''web'' service"
proof -
  obtain r service where r: "reach (initial []) (mstep extern_ascii) (start\<lparr>mc_rec := r, mc_poller := Some (build_poll_snapshot r)\<rparr>)"
    "hget (sn_services (build_poll_snapshot r)) ''web'' = Some service"
    "accepts (current_poll_verdict (build_poll_snapshot r) r) (build_poll_snapshot r) ''web'' service"
    using reach_snapshot [of extern_ascii] unfolding Let_def by blast
  have "touches ''web'' service web_event" by (simp add: touches_def web_event_def)
  from changed_service_rejected [OF r(1) _ r(2) this, of "enqueue_event web_event 0 0 r" 0 0, OF _ _ rtranclp.rtrancl_refl]
  show ?thesis using r by (auto simp: Let_def)
qed

text \<open>
  C4: what a submission does to each service of its snapshot. An accepted service with counts is
  published with them and its rejections are forgotten; a rejected one counts one rejection more and
  keeps what was published before, if that carries its current labels, until it was rejected more than
  twice in a row; a service no longer cached gets nothing. Nothing else is published. The submission
  fails exactly when some service was rejected too often, naming those in order; the build behind it
  never fails.
\<close>

theorem poll_submission:
  assumes "reach (initial cls) (mstep E) m" and "mc_poller m = Some sn"
    and "poll_replicas_state E (listed :: call_error + task list) sn = Inr counters"
  shows "\<exists>t. apply_poll_counts sn counters clock (mc_rec m) =
      (let omitted = filter (\<lambda>sid. hhas (rc_metadata (mc_rec m)) sid \<and> accepted_counter (current_poll_verdict sn (mc_rec m)) sn counters sid = None
                       \<and> unwrap_or (hget (rc_poll_rejections (mc_rec m)) sid) 0 \<ge> MAX_CARRIED_POLLS) (service_ids sn)
       in if omitted = [] then Done t else Stopped (PartiallyRejected omitted) t)
    \<and> (\<forall>sid. hget (rc_last_published t) sid =
         (if \<not> hhas (sn_services sn) sid \<or> \<not> hhas (rc_metadata (mc_rec m)) sid then None
          else case accepted_counter (current_poll_verdict sn (mc_rec m)) sn counters sid of
                 Some c \<Rightarrow> Some c
               | None \<Rightarrow> if unwrap_or (hget (rc_poll_rejections (mc_rec m)) sid) 0 < MAX_CARRIED_POLLS then carried (mc_rec m) sid else None))
    \<and> (\<forall>sid. hget (rc_poll_rejections t) sid =
         (if hhas (sn_services sn) sid \<and> hhas (rc_metadata (mc_rec m)) sid \<and> accepted_counter (current_poll_verdict sn (mc_rec m)) sn counters sid = None
          then Some (Suc (unwrap_or (hget (rc_poll_rejections (mc_rec m)) sid) 0)) else None))
    \<and> rs_update (rc_last_published t) (co_replicas_state (rc_collectors (mc_rec m))) = Done (co_replicas_state (rc_collectors t))"
proof -
  have ok: "rec_ok E cls (mc_rec m)" "polls_ok cls (mc_rec m)" "snap_ok E cls sn (mc_rec m)"
    using reach_ok [OF assms(1)] assms(2) by (auto simp: machine_ok_def)
  let ?v = "current_poll_verdict sn (mc_rec m)"
  have "filter (too_often ?v sn counters (mc_rec m)) (service_ids sn) =
      filter (\<lambda>sid. hhas (rc_metadata (mc_rec m)) sid \<and> accepted_counter ?v sn counters sid = None
                       \<and> unwrap_or (hget (rc_poll_rejections (mc_rec m)) sid) 0 \<ge> MAX_CARRIED_POLLS) (service_ids sn)"
    by (rule filter_cong) (auto simp: too_often_def new_rejection_def judged_def service_ids_def hhas_iff)
  with apply_poll_counts_result [OF ok poll_labels [OF assms(3)], of clock] show ?thesis
    unfolding Let_def new_published_def new_rejection_def judged_def by auto
qed

theorem poll_submission_witness:
  "\<exists>r counters t c. poll_replicas_state extern_ascii (Inr [] :: call_error + task list) (build_poll_snapshot r) = Inr counters
     \<and> outcome_state (apply_poll_counts (build_poll_snapshot r) counters (\<lambda>_. (0, 0)) r) = t
     \<and> hget counters ''web'' = Some c \<and> hget (rc_last_published t) ''web'' = Some c"
proof -
  obtain r service md where r: "reach (initial []) (mstep extern_ascii) (start\<lparr>mc_rec := r, mc_poller := Some (build_poll_snapshot r)\<rparr>)"
    "hget (sn_services (build_poll_snapshot r)) ''web'' = Some service" "hget (rc_metadata r) ''web'' = Some md"
    "accepts (current_poll_verdict (build_poll_snapshot r) r) (build_poll_snapshot r) ''web'' service"
    using reach_snapshot [of extern_ascii] unfolding Let_def by blast
  let ?sn = "build_poll_snapshot r"
  obtain counters where c: "poll_replicas_state extern_ascii (Inr [] :: call_error + task list) ?sn = Inr counters"
    using poll_total by blast
  obtain x where x: "hget counters ''web'' = Some x" using poll_counts_service(2) [OF _ r(2) c] by auto
  have mp: "mc_poller (start\<lparr>mc_rec := r, mc_poller := Some ?sn\<rparr>) = Some ?sn" and mr: "mc_rec (start\<lparr>mc_rec := r, mc_poller := Some ?sn\<rparr>) = r" by simp_all
  have "accepted_counter (current_poll_verdict ?sn r) ?sn counters ''web'' = Some x" using r(2,4) x by (simp add: accepted_counter_def)
  moreover obtain t omitted where
    a: "apply_poll_counts ?sn counters (\<lambda>_. (0, 0)) r = (if omitted = [] then Done t else Stopped (PartiallyRejected omitted) t)"
    and p: "hget (rc_last_published t) ''web'' =
         (if \<not> hhas (sn_services ?sn) ''web'' \<or> \<not> hhas (rc_metadata r) ''web'' then None
          else case accepted_counter (current_poll_verdict ?sn r) ?sn counters ''web'' of
                 Some c \<Rightarrow> Some c
               | None \<Rightarrow> if unwrap_or (hget (rc_poll_rejections r) ''web'') 0 < MAX_CARRIED_POLLS then carried r ''web'' else None)"
    using poll_submission [OF r(1) mp c, of "\<lambda>_. (0, 0)", unfolded mr Let_def] by blast
  moreover have "outcome_state (apply_poll_counts ?sn counters (\<lambda>_. (0, 0)) r) = t" using a by simp
  moreover have "hhas (sn_services ?sn) ''web''" "hhas (rc_metadata r) ''web''" using r(2,3) by (simp_all add: hhas_def)
  ultimately show ?thesis using c x by (intro exI [of _ r] exI [of _ counters] exI [of _ t] exI [of _ x]) simp
qed

text \<open>
  C5: a service is never shown on counts older than two rejected polls: in every reachable state, a
  service with published counts was rejected at most twice in a row since.
\<close>

theorem carried_at_most_twice:
  assumes "reach (initial cls) (mstep E) m" and "hhas (rc_last_published (mc_rec m)) sid"
  shows "unwrap_or (hget (rc_poll_rejections (mc_rec m)) sid) 0 \<le> 2"
proof -
  obtain c where "hget (rc_last_published (mc_rec m)) sid = Some c" using assms(2) by (auto simp: hhas_def)
  then show ?thesis using reach_ok [OF assms(1)] unfolding machine_ok_def polls_ok_def MAX_CARRIED_POLLS_def by blast
qed

lemma reach_published:
  "\<exists>m. reach (initial []) (mstep E) m \<and> hhas (rc_last_published (mc_rec m)) ''web''"
proof -
  obtain r service md where r: "reach (initial []) (mstep E) (start\<lparr>mc_rec := r, mc_poller := Some (build_poll_snapshot r)\<rparr>)"
    "hget (sn_services (build_poll_snapshot r)) ''web'' = Some service" "hget (rc_metadata r) ''web'' = Some md"
    "accepts (current_poll_verdict (build_poll_snapshot r) r) (build_poll_snapshot r) ''web'' service"
    using reach_snapshot [of E] unfolding Let_def by blast
  let ?sn = "build_poll_snapshot r" and ?m = "start\<lparr>mc_rec := r, mc_poller := Some (build_poll_snapshot r)\<rparr>"
  obtain counters where c: "poll_replicas_state E (Inr [] :: call_error + task list) ?sn = Inr counters"
    using poll_total by blast
  obtain x where x: "hget counters ''web'' = Some x" using poll_counts_service(2) [OF _ r(2) c] by auto
  have ok: "rec_ok E [] r" "polls_ok [] r" "snap_ok E [] ?sn r" using reach_ok [OF r(1)] by (auto simp: machine_ok_def)
  obtain t where t: "outcome_state (apply_poll_counts ?sn counters (\<lambda>_. (0, 0)) r) = t"
    "hget (rc_last_published t) ''web'' = new_published (current_poll_verdict ?sn r) ?sn counters r ''web''"
    using apply_poll_counts_result [OF ok poll_labels [OF c], of "\<lambda>_. (0, 0)"] by (auto split: if_splits)
  have "hhas (rc_last_published t) ''web''"
    using t(2) r(2-4) x by (simp add: new_published_def judged_def accepted_counter_def hhas_def)
  moreover have "mstep E ?m (?m\<lparr>mc_rec := t, mc_poller := None\<rparr>)"
    using mstep.submit [of ?m ?sn E, OF _ _ c refl, of "\<lambda>_. (0, 0)"] t(1) by (simp add: start_def machine_init_def)
  ultimately show ?thesis using reach_step [OF r(1)] by fastforce
qed

theorem carried_at_most_twice_witness:
  "\<exists>m :: machine. hhas (rc_last_published (mc_rec m)) ''web'' \<and> unwrap_or (hget (rc_poll_rejections (mc_rec m)) ''web'') 0 \<le> 2"
proof -
  obtain m where m: "reach (initial []) (mstep extern_ascii) m" "hhas (rc_last_published (mc_rec m)) ''web''"
    using reach_published [of extern_ascii] by blast
  show ?thesis by (intro exI [of _ m] conjI m(2) carried_at_most_twice [OF m])
qed

text \<open>
  C12: the reconciler's timer is exact: with no delay nothing will fall due without an event, and
  otherwise work is due when the delay has passed and not a moment earlier.
\<close>

theorem wake_delay_exact:
  "case next_wake_delay r now of
     None \<Rightarrow> \<forall>at. \<not> work_due r at
   | Some d \<Rightarrow> work_due r (now + d) \<and> (\<forall>at. now \<le> at \<and> at < now + d \<longrightarrow> \<not> work_due r at)"
proof -
  obtain e where e: "next_wake_delay r now = map_option (\<lambda>at. case at of None \<Rightarrow> 0 | Some at \<Rightarrow> at - now) e"
    and w: "\<And>at. work_due r at \<longleftrightarrow> reached e at" using next_wake_reached by metis
  show ?thesis unfolding e w by (auto simp: reached_def is_none_or_def split: option.split)
qed

theorem wake_delay_exact_witness:
  "next_wake_delay (mc_rec start) 7 = Some 0 \<and> work_due (mc_rec start) 7"
proof -
  have d: "next_wake_delay (mc_rec start) 7 = Some 0"
    by (simp add: next_wake_delay_def start_def machine_init_def with_policy_def state_new_def consider_at_def)
  then show ?thesis using wake_delay_exact [of "mc_rec start" 7] by simp
qed

text \<open>
  C13: the sequential reading of a cycle is one of the machine's runs: from between two cycles the
  machine can do exactly what \<open>cycle\<close> computes and be between cycles again, so whatever holds of all
  runs holds of every series of cycles.
\<close>

theorem cycle_is_a_run:
  "mc_phase m = Between \<Longrightarrow> (mstep E)\<^sup>*\<^sup>* m (m\<lparr>mc_rec := cycle E ans (mc_rec m)\<rparr>)"
proof -
  assume between: "mc_phase m = Between"
  let ?r = "mc_rec m" and ?now = "an_now ans"
  define r1 where "r1 = (if periodic_resync_due ?r ?now then request_resync (an_periodic ans) ?r else ?r)"
  define r2 where "r2 = (if nodes_due r1 ?now
               then after_step False (fst (an_step_clock ans ''nodes'')) (snd (an_step_clock ans ''nodes''))
                      (reconcile_nodes_end E (an_nodes ans) (fst (an_step_clock ans ''nodes'')) (reconcile_nodes_begin r1))
               else r1)"
  define r3 where "r3 = (if resync_due r2 ?now
               then repaired ans ''resync'' True
                      (resync_end E (an_lists ans) (st_resync_requested (rc_state r2)) (an_pass_start ans)
                         (fst (an_step_clock ans ''resync'')) (snd (an_step_clock ans ''resync'')) r2)
               else r2)"
  obtain ks s where ks: "take_due_keys ?now (rc_state r3) = (ks, s)" by (cases "take_due_keys ?now (rc_state r3)")
  have c: "cycle E ans ?r = serve_keys E ans ks (r3\<lparr>rc_state := s\<rparr>)"
    unfolding cycle_def Let_def r1_def [symmetric] r2_def [symmetric] r3_def [symmetric] ks by simp
  have m: "m\<lparr>mc_phase := Between, mc_rec := ?r\<rparr> = m" using between by simp
  have "(mstep E)\<^sup>*\<^sup>* m (m\<lparr>mc_phase := AtNodes ?now, mc_rec := r1\<rparr>)"
    using periodic_run [of r1 ?r ?now "an_periodic ans" E m] m by (simp add: r1_def)
  also have "(mstep E)\<^sup>*\<^sup>* \<dots> (m\<lparr>mc_phase := AtResync ?now, mc_rec := r2\<rparr>)" by (rule nodes_run) (simp add: r2_def)
  also have "(mstep E)\<^sup>*\<^sup>* \<dots> (m\<lparr>mc_phase := AtKeys ?now, mc_rec := r3\<rparr>)" by (rule resync_run) (simp add: r3_def)
  also have "(mstep E)\<^sup>*\<^sup>* \<dots> (m\<lparr>mc_phase := Between, mc_rec := cycle E ans ?r\<rparr>)" unfolding c by (rule keys_run [OF ks])
  finally have "(mstep E)\<^sup>*\<^sup>* m (m\<lparr>mc_phase := Between, mc_rec := cycle E ans ?r\<rparr>)" .
  moreover have "m\<lparr>mc_phase := Between, mc_rec := cycle E ans ?r\<rparr> = m\<lparr>mc_rec := cycle E ans ?r\<rparr>" using between by (cases m) simp
  ultimately show ?thesis by simp
qed

theorem cycle_is_a_run_witness:
  "(mstep extern_ascii)\<^sup>*\<^sup>* start (start\<lparr>mc_rec := cycle extern_ascii \<lparr>an_now = 0, an_periodic = 0, an_pass_start = 0, an_nodes = Inl OtherError,
      an_lists = Inl OtherError, an_inspect = (\<lambda>_. Inl NotFound), an_step_clock = (\<lambda>_. (0, 0)), an_repair_clock = (\<lambda>_. (0, 0))\<rparr> (mc_rec start)\<rparr>)"
  by (rule cycle_is_a_run) (simp add: start_def machine_init_def)



end
