(* ===== verification/Health.thy ===== *)
theory Health
  imports Run_Properties
begin

text \<open>
  \<^verbatim>\<open>src/src/collector/health.rs\<close>: the health check behind \<^verbatim>\<open>/healthz\<close> and \<^verbatim>\<open>swarm_exporter_health\<close>, and the
  build information gauge. The check keeps the handle of the one reconciler, set at most once; the
  shared state behind a handle, the success times and the clock are read when it is evaluated, so
  they are arguments. A clone of the check shares the cell, so \<open>bind\<close> is seen by all of them.
\<close>

section \<open>The check\<close>

definition REASON_INITIAL_RESYNC :: string where "REASON_INITIAL_RESYNC = ''initial resync not completed''"
definition REASON_NO_POLL :: string where "REASON_NO_POLL = ''no successful poll yet''"
definition REASON_STALE_POLL :: string where "REASON_STALE_POLL = ''last poll too old''"
definition REASON_RESYNC_OUTSTANDING :: string where "REASON_RESYNC_OUTSTANDING = ''resync outstanding''"

lemmas reasons = REASON_INITIAL_RESYNC_def REASON_NO_POLL_def REASON_STALE_POLL_def REASON_RESYNC_OUTSTANDING_def

definition MIN_WINDOW :: nanos where "MIN_WINDOW = secs 30"

definition I128_MIN :: int where "I128_MIN = - (2 ^ 127)"
definition I128_MAX :: int where "I128_MAX = 2 ^ 127 - 1"

type_synonym handle = nat

record health =
  he_reconciler :: "handle option"
  he_poll_delay :: nanos

definition unbound :: "nanos \<Rightarrow> health" where
  "unbound poll_delay = \<lparr>he_reconciler = None, he_poll_delay = poll_delay\<rparr>"

definition bind_health :: "handle \<Rightarrow> health \<Rightarrow> health" where
  "bind_health reconciler h =
     (case he_reconciler h of None \<Rightarrow> h\<lparr>he_reconciler := Some reconciler\<rparr> | Some _ \<Rightarrow> h)"

definition health_new :: "handle \<Rightarrow> nanos \<Rightarrow> health" where
  "health_new reconciler poll_delay = bind_health reconciler (unbound poll_delay)"

text \<open>The window in \<^verbatim>\<open>i128\<close> nanoseconds; a value that does not fit would be \<^verbatim>\<open>i128::MAX\<close>.\<close>

definition window :: "nanos \<Rightarrow> int" where
  "window poll_delay =
     (let w = int (max (duration_saturating_mul poll_delay 3) MIN_WINDOW) in if w \<le> I128_MAX then w else I128_MAX)"

definition health_snapshot :: "(handle \<Rightarrow> shared_state) \<Rightarrow> timestamps \<Rightarrow> timestamp \<Rightarrow> health \<Rightarrow> bool \<times> string" where
  "health_snapshot shared ts now h =
     (case he_reconciler h of
        None \<Rightarrow> (False, REASON_INITIAL_RESYNC)
      | Some reconciler \<Rightarrow>
          let (requested, completed, outstanding_since) = resync_state (shared reconciler) in
          if completed = 0 then (False, REASON_INITIAL_RESYNC)
          else let last_poll = ts_poll_success ts in
          if last_poll = 0 then (False, REASON_NO_POLL)
          else let w = window (he_poll_delay h) in
          if now - last_poll > w then (False, REASON_STALE_POLL)
          else let since = (case outstanding_since of None \<Rightarrow> I128_MIN div 2 | Some t \<Rightarrow> t) in
          if requested > completed \<and> now - since > w then (False, REASON_RESYNC_OUTSTANDING)
          else (True, ''''))"

section \<open>The gauges\<close>

definition exporter_name :: "string \<Rightarrow> string" where
  "exporter_name name = ''swarm_exporter_'' @ name"

text \<open>A gauge without labels whose value is computed at every scrape, from what it can see then.\<close>

record 'env scrape_gauge =
  sg_name :: string
  sg_help :: string
  sg_read :: "'env \<Rightarrow> int"

definition sg_value :: "'env scrape_gauge \<Rightarrow> 'env \<Rightarrow> int" where
  "sg_value g env = sg_read g env"

definition sg_encode :: "'env scrape_gauge \<Rightarrow> 'env \<Rightarrow> encoded_family" where
  "sg_encode g env = \<lparr>ef_name = sg_name g, ef_help = sg_help g, ef_series = [([], sg_value g env)]\<rparr>"

type_synonym scrape_env = "(handle \<Rightarrow> shared_state) \<times> timestamps \<times> timestamp \<times> health"

record health_gauges =
  hg_health :: "scrape_env scrape_gauge"
  hg_build_info :: gauge_vec

definition health_gauges_new :: "string \<Rightarrow> string \<Rightarrow> string \<Rightarrow> panic + health_gauges" where
  "health_gauges_new version commit date =
     (case must (gv_set (gv_new \<lparr>desc_name = exporter_name ''build_info'', desc_help = ''Build information for this exporter.'',
                                 desc_label_names = [''version'', ''commit'', ''date'']\<rparr>) [version, commit, date] 1) of
        Inl p \<Rightarrow> Inl p
      | Inr build_info \<Rightarrow>
          Inr \<lparr>hg_health = \<lparr>sg_name = exporter_name ''health'', sg_help = ''Exporter health status: 1=healthy, 0=unhealthy.'',
                            sg_read = (\<lambda>(shared, ts, now, h). if fst (health_snapshot shared ts now h) then 1 else 0)\<rparr>,
               hg_build_info = build_info\<rparr>)"

section \<open>Facts\<close>

lemma window_exact: "window d = int (max (min (d * 3) DURATION_MAX) MIN_WINDOW)"
proof -
  have "int (max (min (d * 3) DURATION_MAX) MIN_WINDOW) \<le> I128_MAX"
    by (simp add: I128_MAX_def MIN_WINDOW_def DURATION_MAX_def max_def min_def)
  then show ?thesis by (simp add: window_def duration_saturating_mul_def)
qed

lemma bind_once: "he_reconciler (bind_health r' (bind_health r h)) = he_reconciler (bind_health r h)"
  by (simp add: bind_health_def split: option.split)

lemma snapshot_reason: "fst (health_snapshot shared ts now h) \<longleftrightarrow> snd (health_snapshot shared ts now h) = ''''"
  by (auto simp: health_snapshot_def Let_def reasons split: option.split prod.split)

lemma outstanding_known:
  assumes "rec_ok E cls r"
  shows "st_resync_outstanding_since (rc_state r) = None \<longleftrightarrow> \<not> st_resync_requested (rc_state r) > st_resync_completed (rc_state r)"
    "rc_ready r \<longleftrightarrow> st_resync_completed (rc_state r) \<noteq> 0"
  using rec_ok_parts(6) [OF assms] by (auto simp: sync_ok_def)

section \<open>Properties\<close>

text \<open>
  C18: the health check reports exactly what the exporter's promise to its operator needs. Bound to a
  reconciler in any reachable state it answers healthy if and only if the first resync completed, a
  poll succeeded no longer ago than three poll delays (at least thirty seconds), and a resync that is
  outstanding has been so no longer than that. The reason is the first condition that fails, in that
  order, and is empty exactly when healthy; before a reconciler is bound the check is unhealthy.
\<close>

theorem health_meaning:
  assumes "reach (initial cls) (mstep E) m" and "he_reconciler h = Some a" and "shared a = rc_state (mc_rec m)"
  shows "let W = int (max (min (he_poll_delay h * 3) DURATION_MAX) (secs 30)); last = ts_poll_success ts;
             late = (\<exists>since. st_resync_outstanding_since (rc_state (mc_rec m)) = Some since \<and> now - since > W);
             answer = health_snapshot shared ts now h in
    (fst answer \<longleftrightarrow> rc_ready (mc_rec m) \<and> last \<noteq> 0 \<and> now - last \<le> W \<and> \<not> late)
    \<and> snd answer = (if \<not> rc_ready (mc_rec m) then REASON_INITIAL_RESYNC else if last = 0 then REASON_NO_POLL
                    else if now - last > W then REASON_STALE_POLL else if late then REASON_RESYNC_OUTSTANDING else '''')
    \<and> health_snapshot shared ts now (unbound (he_poll_delay h)) = (False, REASON_INITIAL_RESYNC)"
proof -
  note ok = outstanding_known [OF reach_ok [OF assms(1), THEN conjunct1]]
  show ?thesis
    using ok unfolding Let_def
    by (cases "st_resync_outstanding_since (rc_state (mc_rec m))")
       (simp_all add: health_snapshot_def assms(2,3) resync_state_def window_exact MIN_WINDOW_def unbound_def Let_def reasons not_less)
qed

text \<open>The first resync leaves the reconciler ready, with no request older than its start.\<close>

lemma first_resync_ready:
  assumes "resync_end E (Inr ([web sid], [])) 1 0 0 0 (mc_rec start) = Done r"
  shows "rc_ready r" "st_resync_outstanding_since (rc_state r) \<in> {None, Some 0}"
proof -
  have ok: "rec_ok E [] (mc_rec start)" using reach_ok [OF reach_start] by simp
  obtain d where "r = complete_resync 1 0 0 0 (on_state prune_service_generations d)"
    using resync_pieces [OF ok, of "[web sid]" "[]" 1 0 0 0] assms by (auto simp: Let_def)
  then show "rc_ready r" "st_resync_outstanding_since (rc_state r) \<in> {None, Some 0}"
    by (simp_all add: complete_resync_def on_state_def on_metrics_def Let_def)
qed

theorem health_meaning_witness:
  "\<exists>m :: machine. let h = bind_health 0 (unbound (secs 10)); shared = (\<lambda>_. rc_state (mc_rec m)) in
     fst (health_snapshot shared (mark_poll_ok 5 timestamps_new) (int (secs 30)) h)
     \<and> snd (health_snapshot shared (mark_poll_ok 5 timestamps_new) (6 + int (secs 30)) h) = REASON_STALE_POLL"
proof -
  obtain r where r: "reach (initial []) (mstep extern_ascii) (start\<lparr>mc_rec := r\<rparr>)"
    "resync_end extern_ascii (Inr ([web ''web''], [])) 1 0 0 0 (mc_rec start) = Done r" using reach_web by metis
  let ?m = "start\<lparr>mc_rec := r\<rparr>" and ?h = "bind_health 0 (unbound (secs 10))" and ?ts = "mark_poll_ok 5 timestamps_new"
  have h: "he_reconciler ?h = Some 0" "he_poll_delay ?h = secs 10" by (simp_all add: bind_health_def unbound_def)
  have l: "ts_poll_success ?ts = 5" by (simp add: mark_poll_ok_def unix_nanos_def I64_MIN_def I64_MAX_def timestamps_new_def)
  note meaning = health_meaning [OF r(1) h(1), of "\<lambda>_. rc_state r", unfolded Let_def h(2)]
  have "fst (health_snapshot (\<lambda>_. rc_state r) ?ts (int (secs 30)) ?h)"
    using meaning [of ?ts "int (secs 30)"] first_resync_ready [OF r(2)] l by (auto simp: DURATION_MAX_def)
  moreover have "snd (health_snapshot (\<lambda>_. rc_state r) ?ts (6 + int (secs 30)) ?h) = REASON_STALE_POLL"
    using meaning [of ?ts "6 + int (secs 30)"] first_resync_ready(1) [OF r(2)] l by (simp add: DURATION_MAX_def)
  ultimately show ?thesis unfolding Let_def by (intro exI [of _ ?m]) simp
qed

end
