(* ===== verification/Host_Port.thy ===== *)
theory Host_Port
  imports Swarm_Prelude
begin

text \<open>
  \<^verbatim>\<open>src/src/host_port.rs\<close>: splitting and joining a listen address, after Go's \<^verbatim>\<open>net.SplitHostPort\<close> and
  \<^verbatim>\<open>net.JoinHostPort\<close>. Text is UTF-8 bytes, and every position used is that of an ASCII byte.
\<close>

section \<open>Positions\<close>

text \<open>\<^verbatim>\<open>str::find\<close> and \<^verbatim>\<open>str::rfind\<close> of a byte.\<close>

fun find_byte :: "char \<Rightarrow> string \<Rightarrow> nat option" where
  "find_byte c [] = None"
| "find_byte c (b # s) = (if b = c then Some 0 else map_option Suc (find_byte c s))"

definition rfind_byte :: "char \<Rightarrow> string \<Rightarrow> nat option" where
  "rfind_byte c s = map_option (\<lambda>i. length s - 1 - i) (find_byte c (rev s))"

section \<open>Addresses\<close>

record addr_error =
  ae_why :: string
  ae_address :: string

definition addr_error_text :: "addr_error \<Rightarrow> string" where
  "addr_error_text e = (if ae_address e = [] then ae_why e else ''address '' @ ae_address e @ '': '' @ ae_why e)"

definition MISSING_PORT :: string where "MISSING_PORT = ''missing port in address''"
definition TOO_MANY_COLONS :: string where "TOO_MANY_COLONS = ''too many colons in address''"

definition split_host_port :: "string \<Rightarrow> addr_error + string \<times> string" where
  "split_host_port host_port =
     (let error = (\<lambda>why. Inl \<lparr>ae_why = why, ae_address = host_port\<rparr>);
          checked = (\<lambda>host last_colon open_from close_from.
            if CHR ''['' \<in> set (drop open_from host_port) then error ''unexpected '[' in address''
            else if CHR '']'' \<in> set (drop close_from host_port) then error ''unexpected ']' in address''
            else Inr (host, drop (last_colon + 1) host_port))
      in case rfind_byte CHR '':'' host_port of
           None \<Rightarrow> error MISSING_PORT
         | Some last_colon \<Rightarrow>
             if take 1 host_port = ''[''
             then (case find_byte CHR '']'' host_port of
                     None \<Rightarrow> error ''missing ']' in address''
                   | Some e \<Rightarrow>
                       let after = e + 1 in
                       if after = length host_port then error MISSING_PORT
                       else if after \<noteq> last_colon
                       then error (if host_port ! after = CHR '':'' then TOO_MANY_COLONS else MISSING_PORT)
                       else checked (drop 1 (take e host_port)) last_colon 1 after)
             else let host = take last_colon host_port in
                  if CHR '':'' \<in> set host then error TOO_MANY_COLONS
                  else checked host last_colon 0 0)"

definition join_host_port :: "string \<Rightarrow> string \<Rightarrow> string" where
  "join_host_port host port =
     (if CHR '':'' \<in> set host then ''['' @ host @ '']:'' @ port else host @ '':'' @ port)"

section \<open>Positions found\<close>

lemma find_byte_None [simp]: "find_byte c s = None \<longleftrightarrow> c \<notin> set s"
  by (induction s) auto

lemma find_byte_Some: "find_byte c s = Some i \<longleftrightarrow> (\<exists>u v. s = u @ c # v \<and> c \<notin> set u \<and> i = length u)"
proof (induction s arbitrary: i)
  case (Cons b s)
  show ?case
  proof (cases "b = c")
    case True
    then show ?thesis by (auto simp: Cons_eq_append_conv)
  next
    case False
    then show ?thesis using Cons.IH by (fastforce simp: Cons_eq_append_conv)
  qed
qed simp

lemma rfind_byte_None [simp]: "rfind_byte c s = None \<longleftrightarrow> c \<notin> set s"
  by (simp add: rfind_byte_def)

lemma rfind_byte_Some: "rfind_byte c s = Some i \<longleftrightarrow> (\<exists>u v. s = u @ c # v \<and> c \<notin> set v \<and> i = length u)"
proof
  assume "rfind_byte c s = Some i"
  then obtain u v where "rev s = u @ c # v" "c \<notin> set u" "i = length s - 1 - length u"
    by (auto simp: rfind_byte_def find_byte_Some)
  moreover from this(1) have "s = rev v @ c # rev u" by (metis append.assoc append_Cons append_Nil rev.simps(2) rev_append rev_rev_ident)
  ultimately show "\<exists>u v. s = u @ c # v \<and> c \<notin> set v \<and> i = length u" by (intro exI [of _ "rev v"] exI [of _ "rev u"]) simp
next
  assume "\<exists>u v. s = u @ c # v \<and> c \<notin> set v \<and> i = length u"
  then obtain u v where s: "s = u @ c # v" "c \<notin> set v" "i = length u" by blast
  then have "find_byte c (rev s) = Some (length v)"
    unfolding find_byte_Some by (intro exI [of _ "rev v"] exI [of _ "rev u"]) simp
  with s show "rfind_byte c s = Some i" by (simp add: rfind_byte_def)
qed

lemma last_occurrence: "c \<notin> set v \<Longrightarrow> rfind_byte c (u @ c # v) = Some (length u)"
  unfolding rfind_byte_Some by blast

lemma first_occurrence: "c \<notin> set u \<Longrightarrow> find_byte c (u @ c # v) = Some (length u)"
  unfolding find_byte_Some by blast

section \<open>The two forms\<close>

text \<open>
  What an address looks like, apart from the algorithm: \<^verbatim>\<open>host:port\<close> with no colon in the host, or
  \<^verbatim>\<open>[host]:port\<close>, with no bracket in either part and no colon in the port.
\<close>

definition address_of :: "string \<Rightarrow> string \<Rightarrow> string \<Rightarrow> bool" where
  "address_of s host port \<longleftrightarrow> set (host @ port) \<inter> {CHR ''['', CHR '']''} = {} \<and> CHR '':'' \<notin> set port
     \<and> (s = ''['' @ host @ '']:'' @ port \<or> CHR '':'' \<notin> set host \<and> s = host @ '':'' @ port)"

lemma split_bracketed:
  assumes "set (host @ port) \<inter> {CHR ''['', CHR '']''} = {}" and "CHR '':'' \<notin> set port"
  shows "split_host_port (''['' @ host @ '']:'' @ port) = Inr (host, port)"
proof -
  let ?s = "''['' @ host @ '']:'' @ port"
  have "rfind_byte CHR '':'' ?s = Some (length host + 2)"
    using last_occurrence [OF assms(2), of "''['' @ host @ '']''"] by simp
  moreover have "find_byte CHR '']'' ?s = Some (length host + 1)"
    using first_occurrence [of "CHR '']''" "''['' @ host" "'':'' @ port"] assms(1) by auto
  ultimately show ?thesis using assms(1) by (auto simp: split_host_port_def Let_def)
qed

lemma split_plain:
  assumes "set (host @ port) \<inter> {CHR ''['', CHR '']''} = {}" and "CHR '':'' \<notin> set port" and "CHR '':'' \<notin> set host"
  shows "split_host_port (host @ '':'' @ port) = Inr (host, port)"
proof -
  have "rfind_byte CHR '':'' (host @ '':'' @ port) = Some (length host)" using last_occurrence [OF assms(2), of host] by simp
  moreover have "take 1 (host @ '':'' @ port) \<noteq> ''[''" using assms(1) by (cases host) auto
  ultimately show ?thesis using assms by (auto simp: split_host_port_def Let_def)
qed

lemma split_sound:
  assumes "split_host_port s = Inr (host, port)"
  shows "address_of s host port"
proof -
  obtain n where n: "rfind_byte CHR '':'' s = Some n" using assms by (cases "rfind_byte CHR '':'' s") (auto simp: split_host_port_def Let_def simp del: rfind_byte_None)
  then obtain u v where s: "s = u @ CHR '':'' # v" "CHR '':'' \<notin> set v" "n = length u" unfolding rfind_byte_Some by blast
  show ?thesis
  proof (cases "take 1 s = ''[''")
    case True
    obtain e where e: "find_byte CHR '']'' s = Some e" using assms n True by (cases "find_byte CHR '']'' s") (auto simp: split_host_port_def Let_def simp del: find_byte_None)
    have r: "e + 1 = n" "host = drop 1 (take e s)" "port = drop (n + 1) s"
      "CHR ''['' \<notin> set (drop 1 s)" "CHR '']'' \<notin> set (drop (e + 1) s)"
      using assms n True e by (auto simp: split_host_port_def Let_def split: if_splits)
    from e obtain x y where x: "s = x @ CHR '']'' # y" "CHR '']'' \<notin> set x" "e = length x" unfolding find_byte_Some by blast
    have "u = take n s" "CHR '':'' # v = drop n s" using s by simp_all
    moreover have "take n s = x @ '']''" "drop n s = y" using x r(1) by (simp_all add: r(1) [symmetric])
    ultimately have "u = x @ '']''" "y = CHR '':'' # v" by simp_all
    moreover obtain h where "x = CHR ''['' # h" using True x by (cases x) auto
    ultimately show ?thesis using r x s by (auto simp: address_of_def)
  next
    case False
    have r: "host = take n s" "port = drop (n + 1) s" "CHR '':'' \<notin> set (take n s)" "CHR ''['' \<notin> set s" "CHR '']'' \<notin> set s"
      using assms n False by (auto simp: split_host_port_def Let_def split: if_splits)
    then show ?thesis using s by (auto simp: address_of_def)
  qed
qed

section \<open>Properties\<close>

text \<open>
  C26: splitting an address is exactly reading one of its two written forms: it yields a host and a
  port if and only if the text is \<^verbatim>\<open>[host]:port\<close>, or \<^verbatim>\<open>host:port\<close> with no colon in the host, neither part
  having brackets and the port no colon; every other text is refused, and the error names it. Joining
  writes the form its host needs, so splitting gives back every pair that has a written form.
\<close>

theorem split_host_port_exact:
  "(split_host_port s = Inr (host, port) \<longleftrightarrow> address_of s host port)
   \<and> (case split_host_port s of Inl e \<Rightarrow> ae_address e = s \<and> (\<nexists>h p. address_of s h p) | Inr r \<Rightarrow> address_of s (fst r) (snd r))
   \<and> (split_host_port (join_host_port host port) = Inr (host, port) \<longleftrightarrow> (\<exists>t. address_of t host port))"
proof -
  have complete: "address_of t h p \<Longrightarrow> split_host_port t = Inr (h, p)" for t h p
    using split_bracketed [of h p] split_plain [of h p] by (auto simp: address_of_def)
  have iff: "split_host_port t = Inr (h, p) \<longleftrightarrow> address_of t h p" for t h p
    using complete split_sound by blast
  have "split_host_port t = Inl e \<Longrightarrow> ae_address e = t" for t e
    by (auto simp: split_host_port_def Let_def split: option.splits if_splits)
  then have "case split_host_port s of Inl e \<Rightarrow> ae_address e = s \<and> (\<nexists>h p. address_of s h p) | Inr r \<Rightarrow> address_of s (fst r) (snd r)"
    unfolding iff [symmetric] by (cases "split_host_port s") simp_all
  moreover have "(\<exists>t. address_of t host port) \<Longrightarrow> address_of (join_host_port host port) host port"
    by (auto simp: address_of_def join_host_port_def)
  ultimately show ?thesis unfolding iff by blast
qed

end
