(* ===== verification/Healthcheck.thy ===== *)
theory Healthcheck
  imports Host_Port
begin

text \<open>
  \<^verbatim>\<open>src/src/healthcheck.rs\<close>: the \<^verbatim>\<open>--healthcheck\<close> probe, its URL, exit code and output. The HTTP client is a
  parameter: what it made of a URL, with the body as the frames received before the deadline, an error
  or the end, each with its data if it carries any.
\<close>

section \<open>The URL\<close>

definition HEALTHZ_PATH :: string where "HEALTHZ_PATH = ''/healthz''"

definition HEALTHCHECK_REASON_LIMIT :: nat where "HEALTHCHECK_REASON_LIMIT = 4096"

text \<open>A wildcard host becomes the loopback of its family, and a zone's percent sign is escaped.\<close>

definition connect_host :: "string \<Rightarrow> string" where
  "connect_host host =
     (if host = '''' \<or> host = ''0.0.0.0'' then ''127.0.0.1'' else if host = ''::'' then ''::1'' else host)"

definition escape_percent :: "string \<Rightarrow> string" where
  "escape_percent s = concat (map (\<lambda>c. if c = CHR ''%'' then ''%25'' else [c]) s)"

definition healthcheck_url :: "string \<Rightarrow> addr_error + string" where
  "healthcheck_url listen_addr =
     (case split_host_port listen_addr of
        Inl e \<Rightarrow> Inl e
      | Inr (host, port) \<Rightarrow> Inr (''http://'' @ escape_percent (join_host_port (connect_host host) port) @ HEALTHZ_PATH))"

definition listen_addr_error_text :: "addr_error \<Rightarrow> string" where
  "listen_addr_error_text e = ''parse -listen-addr: '' @ addr_error_text e"

section \<open>The probe\<close>

datatype probe =
    InvalidUrl string
  | RequestFailed string
  | DeadlineExceeded
  | Answer nat string "string option list"

text \<open>At most 4096 bytes of the body.\<close>

fun read_body :: "string \<Rightarrow> string option list \<Rightarrow> string" where
  "read_body acc [] = acc"
| "read_body acc (frame # frames) =
     (if length acc < HEALTHCHECK_REASON_LIMIT
      then read_body (case frame of
                        Some data \<Rightarrow> acc @ take (min (length data) (HEALTHCHECK_REASON_LIMIT - length acc)) data
                      | None \<Rightarrow> acc) frames
      else acc)"

text \<open>\<^verbatim>\<open>u8::is_ascii_whitespace\<close> and \<^verbatim>\<open>trim_ascii\<close>.\<close>

definition ascii_whitespace :: "char \<Rightarrow> bool" where
  "ascii_whitespace c \<longleftrightarrow> c \<in> {CHR 0x20, CHR 0x09, CHR 0x0A, CHR 0x0C, CHR 0x0D}"

definition trim_ascii :: "string \<Rightarrow> string" where
  "trim_ascii s = rev (dropWhile ascii_whitespace (rev (dropWhile ascii_whitespace s)))"

definition run_healthcheck :: "(string \<Rightarrow> probe) \<Rightarrow> string \<Rightarrow> int \<times> string" where
  "run_healthcheck request listen_addr =
     (case healthcheck_url listen_addr of
        Inl e \<Rightarrow> (1, ''healthcheck: '' @ listen_addr_error_text e @ [CHR 0x0A])
      | Inr url \<Rightarrow>
          (case request url of
             InvalidUrl e \<Rightarrow> (1, ''healthcheck: parse \"'' @ url @ ''\": '' @ e @ [CHR 0x0A])
           | RequestFailed e \<Rightarrow> (1, ''healthcheck: Get \"'' @ url @ ''\": '' @ e @ [CHR 0x0A])
           | DeadlineExceeded \<Rightarrow> (1, ''healthcheck: Get \"'' @ url @ ''\": context deadline exceeded'' @ [CHR 0x0A])
           | Answer status phrase frames \<Rightarrow>
               if status = 200 then (0, '''')
               else let reason = trim_ascii (takeWhile (\<lambda>b. b \<noteq> CHR 0x0A) (read_body '''' frames))
                    in (1, ''healthcheck: '' @ url @ '': '' @ phrase
                           @ (if reason = [] then '''' else '': '' @ reason) @ [CHR 0x0A])))"

section \<open>Facts\<close>

abbreviation body_of :: "string option list \<Rightarrow> string" where
  "body_of frames \<equiv> concat (map (case_option '''' id) frames)"

lemma read_body_prefix: "length acc \<le> HEALTHCHECK_REASON_LIMIT \<Longrightarrow>
   read_body acc frames = take HEALTHCHECK_REASON_LIMIT (acc @ body_of frames)"
proof (induction frames arbitrary: acc)
  case (Cons frame frames)
  show ?case
  proof (cases frame)
    case (Some data)
    have "read_body acc (frame # frames) = (if length acc < HEALTHCHECK_REASON_LIMIT
        then take HEALTHCHECK_REASON_LIMIT (acc @ take (HEALTHCHECK_REASON_LIMIT - length acc) data @ body_of frames) else acc)"
      using Cons.IH [of "acc @ take (HEALTHCHECK_REASON_LIMIT - length acc) data"] Cons.prems Some
      by (auto simp: min_def)
    then show ?thesis using Cons.prems Some by (auto simp: min_def)
  qed (use Cons in auto)
qed simp

text \<open>A trimmed text is a contiguous part of it.\<close>

lemma dropWhile_suffix: "\<exists>a. s = a @ dropWhile P s"
  by (metis takeWhile_dropWhile_id)

lemma trim_ascii_part: "\<exists>a b. s = a @ trim_ascii s @ b"
proof -
  obtain a where a: "s = a @ dropWhile ascii_whitespace s" using dropWhile_suffix by blast
  obtain b where b: "rev (dropWhile ascii_whitespace s) = b @ dropWhile ascii_whitespace (rev (dropWhile ascii_whitespace s))"
    using dropWhile_suffix by blast
  have "dropWhile ascii_whitespace s = trim_ascii s @ rev b"
    unfolding trim_ascii_def by (metis b rev_append rev_rev_ident)
  with a show ?thesis by metis
qed

lemma reason_part:
  fixes frames
  defines "reason \<equiv> trim_ascii (takeWhile (\<lambda>b. b \<noteq> CHR 0x0A) (read_body '''' frames))"
  shows "length reason \<le> 4096" "CHR 0x0A \<notin> set reason" "\<exists>a b. body_of frames = a @ reason @ b"
proof -
  let ?read = "take HEALTHCHECK_REASON_LIMIT (body_of frames)"
  let ?line = "takeWhile (\<lambda>b. b \<noteq> CHR 0x0A) ?read"
  have r: "reason = trim_ascii ?line" by (simp add: reason_def read_body_prefix)
  obtain a b where ab: "?line = a @ reason @ b" using trim_ascii_part unfolding r by blast
  have "length ?line \<le> length ?read" by (rule length_takeWhile_le)
  then show "length reason \<le> 4096" unfolding ab by (simp add: HEALTHCHECK_REASON_LIMIT_def)
  have "CHR 0x0A \<notin> set ?line" by (auto dest: set_takeWhileD)
  then show "CHR 0x0A \<notin> set reason" unfolding ab by simp
  have "body_of frames = ?line @ dropWhile (\<lambda>b. b \<noteq> CHR 0x0A) ?read @ drop HEALTHCHECK_REASON_LIMIT (body_of frames)"
    by (metis append.assoc append_take_drop_id takeWhile_dropWhile_id)
  then show "\<exists>a b. body_of frames = a @ reason @ b" unfolding ab by (metis append.assoc)
qed

section \<open>Properties\<close>

text \<open>
  The probe exits with 0 exactly when the exporter at the listen address answered 200, then
  printing nothing, and with 1 otherwise, printing why. For an answer that is not 200 that is one line
  with the URL, the status and, when the first line of the body's first 4096 bytes is not blank, that
  line trimmed: part of the body and never with a line break of its own.
\<close>

theorem healthcheck_verdict:
  "let (code, out) = run_healthcheck request listen_addr in
     (code = 0 \<longleftrightarrow> (\<exists>url phrase frames. healthcheck_url listen_addr = Inr url \<and> request url = Answer 200 phrase frames))
     \<and> code \<in> {0, 1} \<and> (code = 0 \<longleftrightarrow> out = '''')
     \<and> (\<forall>url status phrase frames. healthcheck_url listen_addr = Inr url \<longrightarrow> request url = Answer status phrase frames \<longrightarrow> status \<noteq> 200 \<longrightarrow>
          (\<exists>reason. out = ''healthcheck: '' @ url @ '': '' @ phrase @ (if reason = [] then '''' else '': '' @ reason) @ [CHR 0x0A]
             \<and> length reason \<le> 4096 \<and> CHR 0x0A \<notin> set reason \<and> (\<exists>a b. body_of frames = a @ reason @ b)))"
proof (cases "healthcheck_url listen_addr")
  case (Inr url)
  show ?thesis
  proof (cases "request url")
    case (Answer status phrase frames)
    then show ?thesis using Inr reason_part [of frames] by (fastforce simp: run_healthcheck_def Let_def)
  qed (simp_all add: run_healthcheck_def Inr)
qed (simp add: run_healthcheck_def)

text \<open>The exporter listening on every IPv6 address, probed while it is unhealthy.\<close>

theorem healthcheck_verdict_witness:
  "healthcheck_url ''[::]:8888'' = Inr ''http://[::1]:8888/healthz''
   \<and> (\<exists>reason. snd (run_healthcheck (\<lambda>_. Answer 503 ''503 Service Unavailable'' [Some '' last poll too old'', None, Some [CHR 0x0A]]) ''[::]:8888'')
        = ''healthcheck: '' @ ''http://[::1]:8888/healthz'' @ '': '' @ ''503 Service Unavailable''
            @ (if reason = [] then '''' else '': '' @ reason) @ [CHR 0x0A] \<and> length reason \<le> 4096)"
proof -
  have url: "healthcheck_url ''[::]:8888'' = Inr ''http://[::1]:8888/healthz''" by code_simp
  let ?request = "\<lambda>_. Answer 503 ''503 Service Unavailable'' [Some '' last poll too old'', None, Some [CHR 0x0A]]"
  have "(503 :: nat) \<noteq> 200" by simp
  from healthcheck_verdict [of ?request "''[::]:8888''", unfolded Let_def split_def, THEN conjunct2, THEN conjunct2, THEN conjunct2,
      rule_format, OF url refl this]
  show ?thesis using url by blast
qed

end
