(* ===== verification/Decimal.thy ===== *)
theory Decimal
  imports Main "HOL-Library.Char_ord"
begin

text \<open>
  Decimal text, as the standard library writes and reads integers: \<^verbatim>\<open>to_string\<close> of an integer, zero
  padding to a width, and \<^verbatim>\<open>parse::<usize>\<close> on a 64-bit target, which allows one leading plus sign and
  leading zeros and fails on anything else, the empty text and a value above \<^verbatim>\<open>u64::MAX\<close> included.
\<close>

section \<open>Writing\<close>

definition digit :: "nat \<Rightarrow> char" where
  "digit d = char_of (48 + d)"

fun nat_text :: "nat \<Rightarrow> string" where
  "nat_text n = (if n < 10 then [digit n] else nat_text (n div 10) @ [digit (n mod 10)])"

declare nat_text.simps [simp del]

definition int_text :: "int \<Rightarrow> string" where
  "int_text i = (if i < 0 then ''-'' @ nat_text (nat (- i)) else nat_text (nat i))"

definition zero_padded :: "nat \<Rightarrow> nat \<Rightarrow> string" where
  "zero_padded width n = replicate (width - length (nat_text n)) CHR ''0'' @ nat_text n"

section \<open>Reading\<close>

definition digit_value :: "char \<Rightarrow> nat option" where
  "digit_value c = (let v = (of_char c :: nat) in if 48 \<le> v \<and> v \<le> 57 then Some (v - 48) else None)"

fun digits_value :: "nat \<Rightarrow> string \<Rightarrow> nat option" where
  "digits_value acc [] = Some acc"
| "digits_value acc (c # s) = (case digit_value c of Some d \<Rightarrow> digits_value (acc * 10 + d) s | None \<Rightarrow> None)"

definition USIZE_MAX :: nat where "USIZE_MAX = 2 ^ 64 - 1"

definition parse_usize :: "string \<Rightarrow> nat option" where
  "parse_usize s =
     (let digits = (case s of c # rest \<Rightarrow> if c = CHR ''+'' then rest else s | [] \<Rightarrow> s) in
      if digits = [] then None
      else case digits_value 0 digits of
             Some n \<Rightarrow> if n \<le> USIZE_MAX then Some n else None
           | None \<Rightarrow> None)"

section \<open>Facts\<close>

lemma of_char_digit: "d < 10 \<Longrightarrow> (of_char (digit d) :: nat) = 48 + d"
  by (simp add: digit_def of_char_of)

lemma digit_value_digit [simp]: "d < 10 \<Longrightarrow> digit_value (digit d) = Some d"
  by (simp add: digit_value_def of_char_digit Let_def)

lemma digits_value_append: "digits_value acc (s @ t) = (case digits_value acc s of Some a \<Rightarrow> digits_value a t | None \<Rightarrow> None)"
  by (induction acc s rule: digits_value.induct) (auto split: option.split)

lemma digits_value_nat_text: "digits_value 0 (nat_text n) = Some n"
proof (induction n rule: nat_text.induct)
  case (1 n)
  show ?case
  proof (cases "n < 10")
    case True
    then show ?thesis by (simp add: nat_text.simps [of n])
  next
    case False
    then show ?thesis using 1 by (simp add: nat_text.simps [of n] digits_value_append mult.commute)
  qed
qed

lemma nat_text_nonempty [simp]: "nat_text n \<noteq> []"
  by (subst nat_text.simps) simp

lemma nat_text_digits: "c \<in> set (nat_text n) \<Longrightarrow> digit_value c \<noteq> None"
proof (induction n rule: nat_text.induct)
  case (1 n)
  then show ?case by (cases "n < 10") (auto simp: nat_text.simps [of n])
qed

lemma parse_nat_text: "n \<le> USIZE_MAX \<Longrightarrow> parse_usize (nat_text n) = Some n"
proof -
  assume n: "n \<le> USIZE_MAX"
  obtain c s where t: "nat_text n = c # s" by (cases "nat_text n") auto
  have "digit_value CHR ''+'' = None" by code_simp
  then have "c \<noteq> CHR ''+''" using nat_text_digits [of c n] t by auto
  then show ?thesis using n t digits_value_nat_text [of n] by (simp add: parse_usize_def)
qed

lemma digits_value_zeros: "digits_value 0 (replicate k CHR ''0'' @ s) = digits_value 0 s"
proof (induction k)
  case (Suc k)
  have "digit_value CHR ''0'' = Some 0" by code_simp
  then show ?case using Suc by simp
qed simp

lemma length_nat_text: "n < 10 ^ Suc k \<Longrightarrow> length (nat_text n) \<le> Suc k"
proof (induction k arbitrary: n)
  case (Suc k)
  show ?case
  proof (cases "n < 10")
    case False
    have "n div 10 < 10 ^ Suc k" using Suc.prems by (simp add: less_mult_imp_div_less)
    then show ?thesis using Suc.IH [of "n div 10"] False by (simp add: nat_text.simps [of n])
  qed (simp add: nat_text.simps [of n])
qed (subst nat_text.simps, simp)

lemma zero_padded_value: "n < 10 ^ Suc k \<Longrightarrow> length (zero_padded (Suc k) n) = Suc k \<and> digits_value 0 (zero_padded (Suc k) n) = Some n"
  using length_nat_text [of n k] by (simp add: zero_padded_def digits_value_zeros digits_value_nat_text)

end
