(* ===== verification/Server.thy ===== *)
theory Server
  imports Health Healthcheck Decimal Net_Addr
begin

text \<open>
  \<^verbatim>\<open>src/src/server.rs\<close>: the answers of the two routes, the address the server binds, and the exit code of
  serving. Sockets, name lookup and the HTTP server itself are parameters.
\<close>

section \<open>The routes\<close>

definition METRICS_PATH :: string where "METRICS_PATH = ''/metrics''"

definition TEXT_PLAIN :: string where "TEXT_PLAIN = ''text/plain; charset=utf-8''"

record response =
  re_status :: nat
  re_content_type :: string
  re_body :: string

record exposition =
  ex_content_type :: string
  ex_body :: string

definition healthz :: "bool \<times> string \<Rightarrow> response" where
  "healthz health =
     (let (healthy, reason) = health;
          (status, body) =
            (if healthy then (200, ''ok'' @ [CHR 0x0A])
             else if reason = [] then (503, ''unhealthy'' @ [CHR 0x0A])
             else (503, reason @ [CHR 0x0A]))
      in \<lparr>re_status = status, re_content_type = TEXT_PLAIN, re_body = body\<rparr>)"

text \<open>The answer to a \<^verbatim>\<open>GET\<close>; a path with no route is left to the framework.\<close>

definition router :: "bool \<times> string \<Rightarrow> exposition \<Rightarrow> string \<Rightarrow> response option" where
  "router health metrics path =
     (if path = METRICS_PATH
      then Some \<lparr>re_status = 200, re_content_type = ex_content_type metrics, re_body = ex_body metrics\<rparr>
      else if path = HEALTHZ_PATH then Some (healthz health)
      else None)"

section \<open>Binding\<close>

type_synonym socket_addr = "ip_addr \<times> nat"

definition is_ipv6 :: "socket_addr \<Rightarrow> bool" where
  "is_ipv6 a \<longleftrightarrow> (case fst a of V6 _ \<Rightarrow> True | V4 _ \<Rightarrow> False)"

definition is_unspecified :: "ip_addr \<Rightarrow> bool" where
  "is_unspecified ip \<longleftrightarrow> (case ip of V4 n \<Rightarrow> n = 0 | V6 n \<Rightarrow> n = 0)"

text \<open>The first address of a lookup, an IPv4 one where there is one.\<close>

definition resolve :: "(string \<Rightarrow> nat \<Rightarrow> string + socket_addr list) \<Rightarrow> string \<Rightarrow> nat \<Rightarrow> string + socket_addr list" where
  "resolve lookup_host host port =
     (case lookup_host host port of
        Inl e \<Rightarrow> Inl e
      | Inr found \<Rightarrow> Inr (take 1 (sort_key is_ipv6 found)))"

record listen_failure =
  lf_text :: string
  lf_os_error :: "int option"

text \<open>Trying the addresses in turn; only a missing address family moves on to the next.\<close>

fun listen_first :: "(socket_addr \<Rightarrow> listen_failure option) \<Rightarrow> string \<Rightarrow> socket_addr list \<Rightarrow> string \<Rightarrow> string + socket_addr" where
  "listen_first listen_on address [] last_error = Inl last_error"
| "listen_first listen_on address (candidate # addresses) last_error =
     (case listen_on candidate of
        None \<Rightarrow> Inr candidate
      | Some e \<Rightarrow>
          let last_error = ''listen tcp '' @ address @ '': '' @ lf_text e in
          if lf_os_error e \<noteq> Some 97 then Inl last_error else listen_first listen_on address addresses last_error)"

definition bind_listener :: "(string \<Rightarrow> nat \<Rightarrow> string + socket_addr list) \<Rightarrow> (socket_addr \<Rightarrow> listen_failure option) \<Rightarrow> string
    \<Rightarrow> string + socket_addr" where
  "bind_listener lookup_host listen_on address =
     (case split_host_port address of
        Inl e \<Rightarrow> Inl (''listen tcp: '' @ addr_error_text e)
      | Inr (host, port_text) \<Rightarrow>
          (case parse_usize port_text of
             None \<Rightarrow> Inl (''listen tcp: address '' @ port_text @ '': invalid port'')
           | Some port \<Rightarrow>
               if port > 65535 then Inl (''listen tcp: address '' @ port_text @ '': invalid port'')
               else let unscoped = takeWhile (\<lambda>c. c \<noteq> CHR ''%'') host;
                        wildcard = (unscoped = [] \<or> (case parse_ip_addr unscoped of
                                                        Some ip \<Rightarrow> is_unspecified (to_canonical ip) | None \<Rightarrow> False));
                        addresses = (if wildcard then Inr [(V6 0, port), (V4 0, port)]
                                      else case resolve lookup_host host port of
                                             Inl e \<Rightarrow> Inl (''listen tcp: lookup '' @ host @ '': '' @ e)
                                           | Inr found \<Rightarrow> Inr found)
                    in case addresses of
                         Inl e \<Rightarrow> Inl e
                       | Inr addresses \<Rightarrow> listen_first listen_on address addresses (''listen tcp '' @ address @ '': no suitable address'')))"

definition listen_error_text :: "string \<Rightarrow> string" where
  "listen_error_text e = ''http listen: '' @ e"

section \<open>Serving and stopping\<close>

definition SHUTDOWN_BUDGET :: nanos where "SHUTDOWN_BUDGET = secs 10"

text \<open>
  How the server ends, and what made it stop: it returned by itself, the process was told to stop, or
  the server stopped accepting. A stop leaves it until the deadline to drain; \<open>sv_in_time\<close> is what it
  returned with by then, if it did, and \<open>sv_when_cut\<close> what it returned with once cut.
\<close>

datatype served = ListenerFailed string | DeadlineExceededServing | Drained

datatype stop_cause = ServerReturned served | RootCancelled | LifecycleStopped

record serving =
  sv_stop :: stop_cause
  sv_stop_at :: instant
  sv_in_time :: "served option"
  sv_when_cut :: served
  sv_ended :: instant

definition serve_listener :: "(instant \<Rightarrow> instant) \<Rightarrow> serving \<Rightarrow> instant \<times> string option" where
  "serve_listener deadline s =
     (let (stopped_at, outcome) =
            (case sv_stop s of
               ServerReturned outcome \<Rightarrow> (None, outcome)
             | _ \<Rightarrow> (Some (deadline (sv_stop_at s)), unwrap_or (sv_in_time s) (sv_when_cut s)));
          failure = (case outcome of ListenerFailed error \<Rightarrow> Some error | DeadlineExceededServing \<Rightarrow> None | Drained \<Rightarrow> None)
      in (case stopped_at of Some at \<Rightarrow> at | None \<Rightarrow> deadline (sv_ended s), failure))"

text \<open>The exit code, the deadline, and when it returned: the workers are waited for until the deadline.\<close>

definition serve_until_done :: "(instant \<Rightarrow> instant) \<Rightarrow> string + serving \<Rightarrow> instant \<Rightarrow> instant option \<Rightarrow> int \<times> instant \<times> instant" where
  "serve_until_done deadline bound now workers =
     (let ((at, failure), ended) =
            (case bound of
               Inl e \<Rightarrow> ((deadline now, Some (listen_error_text e)), now)
             | Inr s \<Rightarrow> (serve_listener deadline s, sv_ended s));
          exit_code = (case failure of Some _ \<Rightarrow> 1 | None \<Rightarrow> 0)
      in (exit_code, at, max ended (case workers of Some done \<Rightarrow> min done at | None \<Rightarrow> at)))"

section \<open>Facts\<close>

lemma first_line: "CHR 0x0A \<notin> set s \<Longrightarrow> takeWhile (\<lambda>b. b \<noteq> CHR 0x0A) (s @ CHR 0x0A # t) = s"
  by (induction s) auto

lemma trim_ascii_keeps: "s \<noteq> [] \<Longrightarrow> \<not> ascii_whitespace (hd s) \<Longrightarrow> \<not> ascii_whitespace (last s) \<Longrightarrow> trim_ascii s = s"
  by (simp add: trim_ascii_def dropWhile_eq_self_iff [THEN iffD2] hd_rev)

text \<open>Every reason of the check is one short line with no blanks around it.\<close>

lemma reason_printed:
  assumes "reason \<in> {REASON_INITIAL_RESYNC, REASON_NO_POLL, REASON_STALE_POLL, REASON_RESYNC_OUTSTANDING}" and "body_of frames = reason @ [CHR 0x0A]"
  shows "trim_ascii (takeWhile (\<lambda>b. b \<noteq> CHR 0x0A) (read_body '''' frames)) = reason" "reason \<noteq> []"
proof -
  have r: "CHR 0x0A \<notin> set reason" "reason \<noteq> []" "\<not> ascii_whitespace (hd reason)" "\<not> ascii_whitespace (last reason)" "length reason < 4096"
    using assms(1) by (auto simp: reasons ascii_whitespace_def)
  have "read_body '''' frames = reason @ [CHR 0x0A]" using r(5) by (simp add: read_body_prefix assms(2) HEALTHCHECK_REASON_LIMIT_def)
  then show "trim_ascii (takeWhile (\<lambda>b. b \<noteq> CHR 0x0A) (read_body '''' frames)) = reason" "reason \<noteq> []"
    using r first_line [OF r(1), of "[]"] trim_ascii_keeps [OF r(2-4)] by simp_all
qed

lemma snapshot_reasons:
  "\<not> fst (health_snapshot shared ts now h) \<Longrightarrow>
   snd (health_snapshot shared ts now h) \<in> {REASON_INITIAL_RESYNC, REASON_NO_POLL, REASON_STALE_POLL, REASON_RESYNC_OUTSTANDING}"
  by (auto simp: health_snapshot_def Let_def split: option.splits prod.splits if_splits)

section \<open>Properties\<close>

text \<open>
  C27: the probe reports the health check. When it reaches an exporter serving the router on its listen
  address, it exits with 0 and prints nothing if the health check is healthy at that moment, and
  otherwise exits with 1 and prints the URL, the status line and the check's reason.
\<close>

theorem probe_reports_health:
  assumes "healthcheck_url listen_addr = Inr url"
    and "router (health_snapshot shared ts now h) metrics HEALTHZ_PATH = Some r"
    and "request url = Answer (re_status r) phrase frames" and "body_of frames = re_body r"
  shows "run_healthcheck request listen_addr =
    (if fst (health_snapshot shared ts now h) then (0, '''')
     else (1, ''healthcheck: '' @ url @ '': '' @ phrase @ '': '' @ snd (health_snapshot shared ts now h) @ [CHR 0x0A]))"
proof -
  obtain healthy reason where s: "health_snapshot shared ts now h = (healthy, reason)" by force
  have r: "r = healthz (healthy, reason)" using assms(2) by (simp add: s router_def METRICS_PATH_def HEALTHZ_PATH_def)
  show ?thesis
  proof (cases healthy)
    case True
    then show ?thesis using assms(1,3) by (simp add: s r healthz_def run_healthcheck_def)
  next
    case False
    then have k: "reason \<in> {REASON_INITIAL_RESYNC, REASON_NO_POLL, REASON_STALE_POLL, REASON_RESYNC_OUTSTANDING}"
      using snapshot_reasons [of shared ts now h] s by simp
    then have "reason \<noteq> []" by (auto simp: reasons)
    then have b: "re_status r = 503" "body_of frames = reason @ [CHR 0x0A]" using False assms(4) by (simp_all add: r healthz_def)
    then show ?thesis using assms(1,3) reason_printed [OF k b(2)] False by (simp add: s run_healthcheck_def Let_def)
  qed
qed

theorem probe_reports_health_witness:
  "run_healthcheck (\<lambda>_. Answer 503 ''503 Service Unavailable'' [Some REASON_INITIAL_RESYNC, Some [CHR 0x0A]]) ''0.0.0.0:8888'' =
     (1, ''healthcheck: http://127.0.0.1:8888/healthz: 503 Service Unavailable: initial resync not completed'' @ [CHR 0x0A])"
proof -
  let ?s = "health_snapshot (\<lambda>_. undefined) timestamps_new 0 (unbound 0)"
  have s: "?s = (False, REASON_INITIAL_RESYNC)" by (simp add: health_snapshot_def unbound_def)
  have u: "healthcheck_url ''0.0.0.0:8888'' = Inr ''http://127.0.0.1:8888/healthz''" by code_simp
  have r: "router ?s \<lparr>ex_content_type = '''', ex_body = ''''\<rparr> HEALTHZ_PATH =
      Some \<lparr>re_status = 503, re_content_type = TEXT_PLAIN, re_body = REASON_INITIAL_RESYNC @ [CHR 0x0A]\<rparr>"
    unfolding s by (simp add: router_def METRICS_PATH_def HEALTHZ_PATH_def healthz_def reasons)
  show ?thesis
    using probe_reports_health [OF u r, of "\<lambda>_. Answer 503 ''503 Service Unavailable'' [Some REASON_INITIAL_RESYNC, Some [CHR 0x0A]]"]
    by (simp add: s REASON_INITIAL_RESYNC_def)
qed

end
