(* ===== verification/Containers.thy ===== *)
theory Containers
  imports Poll_Counts Dirty_Set Decimal
begin

text \<open>
  \<^verbatim>\<open>src/src/collector/containers.rs\<close>: the container states, with the container types of
  \<^verbatim>\<open>src/src/docker/types.rs\<close>. A poll lists the containers, keeps those it counts and inspects a bounded
  number of them for their health or exit code; an update publishes one series per container and
  state. What Docker answers to the list and to the inspect of a row, and the clock read before it,
  are arguments, indexed by the position of the row; an inspect past the deadline is one of its errors.
\<close>

section \<open>Docker's containers\<close>

record container_summary =
  cs_id :: string
  cs_names :: "string list"
  cs_labels :: labels
  cs_state :: string

record container_health =
  ch_status :: string

record container_state =
  cst_exit_code :: int
  cst_health :: "container_health option"

record container_config =
  cc_healthcheck :: "unit option"

record container_inspect =
  ci_state :: "container_state option"
  ci_config :: "container_config option"

section \<open>Constants\<close>

definition CONTAINER_STATE_RUNNING :: string where "CONTAINER_STATE_RUNNING = ''running''"
definition CONTAINER_STATE_EXITED :: string where "CONTAINER_STATE_EXITED = ''exited''"
definition CONTAINER_STATE_HEALTH_STARTING :: string where "CONTAINER_STATE_HEALTH_STARTING = ''health_starting''"
definition CONTAINER_STATE_HEALTHY :: string where "CONTAINER_STATE_HEALTHY = ''healthy''"
definition CONTAINER_STATE_UNHEALTHY :: string where "CONTAINER_STATE_UNHEALTHY = ''unhealthy''"

lemmas container_states = CONTAINER_STATE_RUNNING_def CONTAINER_STATE_EXITED_def CONTAINER_STATE_HEALTH_STARTING_def
  CONTAINER_STATE_HEALTHY_def CONTAINER_STATE_UNHEALTHY_def

definition KNOWN_CONTAINER_STATES :: "string list" where
  "KNOWN_CONTAINER_STATES = [''created'', ''restarting'', CONTAINER_STATE_RUNNING, ''removing'', ''paused'', CONTAINER_STATE_EXITED,
     ''dead'', CONTAINER_STATE_HEALTHY, CONTAINER_STATE_UNHEALTHY, CONTAINER_STATE_HEALTH_STARTING]"

definition LABEL_CONTAINER :: string where "LABEL_CONTAINER = ''container''"
definition LABEL_PROJECT :: string where "LABEL_PROJECT = ''project''"
definition LABEL_ORCHESTRATOR :: string where "LABEL_ORCHESTRATOR = ''orchestrator''"
definition LABEL_EXIT_CODE :: string where "LABEL_EXIT_CODE = ''exit_code''"
definition ORCHESTRATOR_COMPOSE :: string where "ORCHESTRATOR_COMPOSE = ''compose''"
definition ORCHESTRATOR_SWARM :: string where "ORCHESTRATOR_SWARM = ''swarm''"
definition ORCHESTRATOR_NONE :: string where "ORCHESTRATOR_NONE = ''none''"
definition COMPOSE_PROJECT_LABEL :: string where "COMPOSE_PROJECT_LABEL = ''com.docker.compose.project''"
definition COMPOSE_SERVICE_LABEL :: string where "COMPOSE_SERVICE_LABEL = ''com.docker.compose.service''"
definition SWARM_SERVICE_NAME_LABEL :: string where "SWARM_SERVICE_NAME_LABEL = ''com.docker.swarm.service.name''"
definition CONTAINERS_INSPECT_CAP :: nat where "CONTAINERS_INSPECT_CAP = 300"
definition CONTAINERS_INSPECT_TIMEOUT :: nanos where "CONTAINERS_INSPECT_TIMEOUT = secs 10"

definition CONTAINER_STATE_HELP :: string where
  "CONTAINER_STATE_HELP = ''Container state info (exactly one state=1 per container). Includes exit_code for exited.''"

record containers_config =
  cf_enabled :: bool
  cf_include_swarm :: bool
  cf_inspect_cap :: nat
  cf_enrich_timeout :: nanos

definition containers_config_new :: "bool \<Rightarrow> bool \<Rightarrow> containers_config" where
  "containers_config_new enabled include_swarm =
     \<lparr>cf_enabled = enabled, cf_include_swarm = include_swarm, cf_inspect_cap = CONTAINERS_INSPECT_CAP,
      cf_enrich_timeout = CONTAINERS_INSPECT_TIMEOUT\<rparr>"

section \<open>Rows\<close>

type_synonym container_row = "(string, string) btree"

datatype inspect_need = NeedNone | NeedHealth | NeedExit

record row =
  rw_id :: string
  rw_state :: string
  rw_labels :: container_row
  rw_need :: inspect_need

definition keep_base_state :: "row \<Rightarrow> row" where
  "keep_base_state row = row\<lparr>rw_labels := bt_insert LABEL_STATE (rw_state row) (rw_labels row)\<rparr>"

definition label :: "(string, string) btree \<Rightarrow> string \<Rightarrow> string" where
  "label labels key = (case map_of labels key of Some v \<Rightarrow> v | None \<Rightarrow> '''')"

record orchestration =
  or_project :: string
  or_service :: string
  or_stack :: string
  or_orchestrator :: string

definition classify_orchestrator :: "labels \<Rightarrow> orchestration" where
  "classify_orchestrator labels =
     (let project = trim_space (label labels COMPOSE_PROJECT_LABEL);
          service = trim_space (label labels COMPOSE_SERVICE_LABEL);
          stack = trim_space (label labels STACK_NAMESPACE_LABEL);
          swarm_service = trim_space (label labels SWARM_SERVICE_NAME_LABEL);
          (orchestrator, service) =
            (if project \<noteq> [] then (ORCHESTRATOR_COMPOSE, service)
             else if swarm_service \<noteq> []
             then (ORCHESTRATOR_SWARM, if service = [] then short_service_name stack swarm_service else service)
             else (ORCHESTRATOR_NONE, service))
      in \<lparr>or_project = project, or_service = service, or_stack = stack, or_orchestrator = orchestrator\<rparr>)"

definition first_container_name :: "string list \<Rightarrow> string" where
  "first_container_name names =
     (case names of
        [] \<Rightarrow> ''''
      | name # _ \<Rightarrow> (case strip_prefix ''/'' name of Some rest \<Rightarrow> rest | None \<Rightarrow> name))"

definition display_name_for_container :: "string \<Rightarrow> string \<Rightarrow> string \<Rightarrow> string" where
  "display_name_for_container grp service container_name =
     (if grp = [] \<or> service = [] then container_name
      else if grp = service then grp else grp @ '' '' @ service)"

definition need_of :: "string \<Rightarrow> inspect_need" where
  "need_of state =
     (if state = CONTAINER_STATE_RUNNING then NeedHealth else if state = CONTAINER_STATE_EXITED then NeedExit else NeedNone)"

text \<open>The body of the loop over the list: a row, unless the container is not counted.\<close>

definition row_of :: "containers_config \<Rightarrow> container_summary \<Rightarrow> row option" where
  "row_of config c =
     (let is_swarm = (trim_space (label (cs_labels c) SWARM_SERVICE_NAME_LABEL) \<noteq> []) in
      if is_swarm \<and> \<not> cf_include_swarm config then None
      else let orchestration = classify_orchestrator (cs_labels c);
               name = first_container_name (cs_names c);
               grp = (if or_project orchestration = [] then or_stack orchestration else or_project orchestration);
               friendly = display_name_for_container grp (or_service orchestration) name
           in Some \<lparr>rw_id = cs_id c, rw_state = cs_state c,
                rw_labels = bt_collect [(LABEL_PROJECT, or_project orchestration), (LABEL_STACK, or_stack orchestration),
                  (LABEL_SERVICE, or_service orchestration), (LABEL_CONTAINER, name),
                  (LABEL_ORCHESTRATOR, or_orchestrator orchestration), (LABEL_DISPLAY_NAME, friendly)],
                rw_need = need_of (cs_state c)\<rparr>)"

section \<open>Enriching\<close>

definition health_overlay :: "extern \<Rightarrow> container_inspect \<Rightarrow> string option" where
  "health_overlay E inspect =
     (let has_healthcheck = (case ci_config inspect of Some config \<Rightarrow> cc_healthcheck config \<noteq> None | None \<Rightarrow> False);
          health = (case ci_state inspect of Some state \<Rightarrow> cst_health state | None \<Rightarrow> None)
      in case health of
           Some health \<Rightarrow>
             if has_healthcheck
             then let status = to_lower E (trim_space (ch_status health)) in
                  if status = CONTAINER_STATE_HEALTHY then Some CONTAINER_STATE_HEALTHY
                  else if status = CONTAINER_STATE_UNHEALTHY then Some CONTAINER_STATE_UNHEALTHY
                  else if status = ''starting'' then Some CONTAINER_STATE_HEALTH_STARTING
                  else None
             else None
         | None \<Rightarrow> None)"

definition apply_health_overlay :: "extern \<Rightarrow> container_inspect \<Rightarrow> row \<Rightarrow> row" where
  "apply_health_overlay E inspect row =
     (case health_overlay E inspect of
        Some overlay \<Rightarrow> row\<lparr>rw_labels := bt_insert LABEL_STATE overlay (rw_labels row)\<rparr>
      | None \<Rightarrow> keep_base_state row)"

definition apply_exit_code :: "extern \<Rightarrow> container_inspect \<Rightarrow> row \<Rightarrow> row" where
  "apply_exit_code E inspect row =
     (let row = keep_base_state row in
      case ci_state inspect of
        None \<Rightarrow> row
      | Some state \<Rightarrow>
          if \<not> equal_fold E (rw_state row) CONTAINER_STATE_EXITED then row
          else row\<lparr>rw_labels := bt_insert LABEL_EXIT_CODE (int_text (cst_exit_code state)) (rw_labels row)\<rparr>)"

definition can_inspect :: "containers_config \<Rightarrow> instant \<Rightarrow> nat \<Rightarrow> instant \<Rightarrow> bool" where
  "can_inspect config deadline inspected now \<longleftrightarrow> inspected < cf_inspect_cap config \<and> now < deadline"

text \<open>The rows from position \<open>i\<close> on, with the number of inspects attempted before; returns the total.\<close>

fun enrich_loop :: "extern \<Rightarrow> containers_config \<Rightarrow> instant \<Rightarrow> (nat \<Rightarrow> instant) \<Rightarrow> (nat \<Rightarrow> 'e + container_inspect)
    \<Rightarrow> nat \<Rightarrow> nat \<Rightarrow> row list \<Rightarrow> row list \<times> nat" where
  "enrich_loop E config deadline clock answer i inspected [] = ([], inspected)"
| "enrich_loop E config deadline clock answer i inspected (row # rows) =
     (let row = row\<lparr>rw_labels := bt_insert LABEL_EXIT_CODE '''' (rw_labels row)\<rparr> in
      if rw_need row = NeedNone \<or> \<not> can_inspect config deadline inspected (clock i)
      then let (rows, total) = enrich_loop E config deadline clock answer (Suc i) inspected rows
           in (keep_base_state row # rows, total)
      else let row = (case answer i of
                        Inl _ \<Rightarrow> keep_base_state row
                      | Inr inspect \<Rightarrow>
                          (case rw_need row of
                             NeedHealth \<Rightarrow> apply_health_overlay E inspect row
                           | NeedExit \<Rightarrow> apply_exit_code E inspect row
                           | NeedNone \<Rightarrow> keep_base_state row));
               (rows, total) = enrich_loop E config deadline clock answer (Suc i) (Suc inspected) rows
           in (row # rows, total))"

definition enrich :: "extern \<Rightarrow> containers_config \<Rightarrow> instant \<Rightarrow> (nat \<Rightarrow> instant) \<Rightarrow> (nat \<Rightarrow> 'e + container_inspect)
    \<Rightarrow> row list \<Rightarrow> row list \<times> nat" where
  "enrich E config now clock answer rows = enrich_loop E config (now + cf_enrich_timeout config) clock answer 0 0 rows"

section \<open>Polling and publishing\<close>

record containers_state =
  cst_config :: containers_config
  cst_family :: snapshot_family

definition container_label_names :: "string list" where
  "container_label_names = sanitize_label_names
     [LABEL_PROJECT, LABEL_STACK, LABEL_SERVICE, LABEL_CONTAINER, LABEL_ORCHESTRATOR, LABEL_DISPLAY_NAME, LABEL_STATE, LABEL_EXIT_CODE]"

definition containers_state_new :: "containers_config \<Rightarrow> containers_state" where
  "containers_state_new config =
     \<lparr>cst_config = config,
      cst_family = sf_new \<lparr>desc_name = ''swarm_'' @ LABEL_CONTAINER @ ''_'' @ LABEL_STATE, desc_help = CONTAINER_STATE_HELP,
                           desc_label_names = container_label_names\<rparr>\<rparr>"

definition poll_containers :: "extern \<Rightarrow> 'e + container_summary list \<Rightarrow> instant \<Rightarrow> (nat \<Rightarrow> instant) \<Rightarrow> (nat \<Rightarrow> 'f + container_inspect)
    \<Rightarrow> containers_state \<Rightarrow> 'e + container_row list" where
  "poll_containers E listed now clock answer cs =
     (if \<not> cf_enabled (cst_config cs) then Inr []
      else case listed of
             Inl e \<Rightarrow> Inl e
           | Inr containers \<Rightarrow>
               Inr (map rw_labels (fst (enrich E (cst_config cs) now clock answer (List.map_filter (row_of (cst_config cs)) containers)))))"

definition state_series :: "snapshot_family \<Rightarrow> container_row \<Rightarrow> string \<Rightarrow> snapshot_builder \<Rightarrow> snapshot_builder" where
  "state_series family base state builder =
     (let labels = bt_insert LABEL_EXIT_CODE (label base LABEL_EXIT_CODE) (bt_insert LABEL_STATE state base)
      in sb_set (sf_desc family) (sanitize_metric_labels labels) (if label base LABEL_STATE = state then 1 else 0) builder)"

definition build_containers_state :: "snapshot_family \<Rightarrow> container_row list \<Rightarrow> snapshot_builder" where
  "build_containers_state family rows =
     fold (\<lambda>base. fold (state_series family base) KNOWN_CONTAINER_STATES) rows sb_new"

definition update_containers :: "container_row list \<Rightarrow> containers_state \<Rightarrow> containers_state" where
  "update_containers rows cs =
     (if \<not> cf_enabled (cst_config cs) then cs
      else case sb_build (build_containers_state (cst_family cs) rows) of
             Inr families \<Rightarrow> cs\<lparr>cst_family := (cst_family cs)\<lparr>sf_collector := sc_publish (sf_collector (cst_family cs)) families\<rparr>\<rparr>
           | Inl _ \<Rightarrow> cs)"

section \<open>Facts about rows\<close>

lemmas container_labels = LABEL_PROJECT_def LABEL_STACK_def LABEL_SERVICE_def LABEL_CONTAINER_def LABEL_ORCHESTRATOR_def
  LABEL_DISPLAY_NAME_def LABEL_STATE_def LABEL_EXIT_CODE_def

lemma container_names: "container_label_names =
  [''project'', ''stack'', ''service'', ''container'', ''orchestrator'', ''display_name'', ''state'', ''exit_code'']"
  by code_simp

lemma container_names_valid: "list_all is_valid_label_name container_label_names" "distinct container_label_names"
  by code_simp+

abbreviation listed_names :: "string set" where
  "listed_names \<equiv> {LABEL_PROJECT, LABEL_STACK, LABEL_SERVICE, LABEL_CONTAINER, LABEL_ORCHESTRATOR, LABEL_DISPLAY_NAME}"

lemma row_of_labels:
  assumes "row_of config c = Some row"
  shows "bt_ok (rw_labels row)" "set (map fst (rw_labels row)) = listed_names" "rw_need row = need_of (rw_state row)" "rw_state row = cs_state c"
proof -
  obtain p s v n orch f where l: "rw_labels row = bt_collect [(LABEL_PROJECT, p), (LABEL_STACK, s), (LABEL_SERVICE, v), (LABEL_CONTAINER, n),
      (LABEL_ORCHESTRATOR, orch), (LABEL_DISPLAY_NAME, f)]" and r: "rw_need row = need_of (rw_state row)" "rw_state row = cs_state c"
    using assms unfolding row_of_def Let_def by (auto split: if_splits)
  show "bt_ok (rw_labels row)" "rw_need row = need_of (rw_state row)" "rw_state row = cs_state c" using l r by simp_all
  show "set (map fst (rw_labels row)) = listed_names" unfolding l keys_bt_collect by simp
qed

lemma fits_row:
  assumes "bt_ok l" and "set (map fst l) = listed_names"
  shows "fits container_label_names (bt_insert LABEL_STATE st (bt_insert LABEL_EXIT_CODE x l))"
proof -
  let ?l = "bt_insert LABEL_STATE st (bt_insert LABEL_EXIT_CODE x l)"
  have k: "set (map fst ?l) = set container_label_names"
    using assms(2) by (simp only: keys_bt_insert container_names) (simp add: container_labels insert_commute)
  have "bt_ok ?l" using assms(1) by simp
  moreover from this have "length ?l = length container_label_names"
    using k container_names_valid(2) by (metis bt_ok_distinct distinct_card length_map)
  ultimately show ?thesis using k by (simp add: fits_def)
qed

text \<open>The state and exit code of a row, given what its inspect answered, if it was inspected.\<close>

definition state_label :: "extern \<Rightarrow> row \<Rightarrow> container_inspect option \<Rightarrow> string" where
  "state_label E row inspect =
     (case inspect of
        Some i \<Rightarrow> if rw_need row = NeedHealth then unwrap_or (health_overlay E i) (rw_state row) else rw_state row
      | None \<Rightarrow> rw_state row)"

definition exit_label :: "row \<Rightarrow> container_inspect option \<Rightarrow> string" where
  "exit_label row inspect =
     (case inspect of
        Some i \<Rightarrow> if rw_need row = NeedExit then (case ci_state i of Some s \<Rightarrow> int_text (cst_exit_code s) | None \<Rightarrow> '''') else ''''
      | None \<Rightarrow> '''')"

definition final_labels :: "extern \<Rightarrow> row \<Rightarrow> container_inspect option \<Rightarrow> container_row" where
  "final_labels E row inspect =
     bt_insert LABEL_STATE (state_label E row inspect) (bt_insert LABEL_EXIT_CODE (exit_label row inspect) (rw_labels row))"

abbreviation right :: "'e + 'a \<Rightarrow> 'a option" where
  "right x \<equiv> (case x of Inr a \<Rightarrow> Some a | Inl _ \<Rightarrow> None)"

lemma swap_labels:
  "bt_ok l \<Longrightarrow> bt_insert LABEL_EXIT_CODE x (bt_insert LABEL_STATE st l) = bt_insert LABEL_STATE st (bt_insert LABEL_EXIT_CODE x l)"
  "bt_ok l \<Longrightarrow> bt_insert LABEL_EXIT_CODE x (bt_insert LABEL_EXIT_CODE y l) = bt_insert LABEL_EXIT_CODE x l"
  by (rule bt_eqI; simp add: map_of_bt_insert fun_upd_twist container_labels)+

lemma row_enriched:
  assumes "bt_ok (rw_labels row)" and "rw_need row = need_of (rw_state row)"
  defines "row' \<equiv> row\<lparr>rw_labels := bt_insert LABEL_EXIT_CODE '''' (rw_labels row)\<rparr>"
  shows "rw_labels (keep_base_state row') = final_labels E row None"
    "rw_need row \<noteq> NeedNone \<Longrightarrow> rw_labels (case a of Inl _ \<Rightarrow> keep_base_state row'
        | Inr i \<Rightarrow> (case rw_need row' of NeedHealth \<Rightarrow> apply_health_overlay E i row' | NeedExit \<Rightarrow> apply_exit_code E i row'
                    | NeedNone \<Rightarrow> keep_base_state row')) = final_labels E row (right a)"
proof -
  show none: "rw_labels (keep_base_state row') = final_labels E row None"
    by (simp add: row'_def keep_base_state_def final_labels_def state_label_def exit_label_def)
  have health: "rw_labels (apply_health_overlay E i row') = final_labels E row (Some i)" if "rw_need row = NeedHealth" for i
    using that by (simp add: row'_def apply_health_overlay_def keep_base_state_def final_labels_def state_label_def exit_label_def unwrap_or_def
        split: option.split)
  have exited: "rw_labels (apply_exit_code E i row') = final_labels E row (Some i)" if "rw_need row = NeedExit" for i
  proof -
    have "rw_state row = CONTAINER_STATE_EXITED" using that assms(2) by (simp add: need_of_def split: if_splits)
    then show ?thesis using that assms(1)
      by (simp add: row'_def apply_exit_code_def keep_base_state_def final_labels_def state_label_def exit_label_def swap_labels Let_def
          split: option.split)
  qed
  show "rw_labels (case a of Inl _ \<Rightarrow> keep_base_state row'
        | Inr i \<Rightarrow> (case rw_need row' of NeedHealth \<Rightarrow> apply_health_overlay E i row' | NeedExit \<Rightarrow> apply_exit_code E i row'
                    | NeedNone \<Rightarrow> keep_base_state row')) = final_labels E row (right a)" if "rw_need row \<noteq> NeedNone"
    using that none health exited by (cases a; cases "rw_need row") (simp_all add: row'_def)
qed

section \<open>Facts about a poll\<close>

definition trues :: "bool list \<Rightarrow> nat" where
  "trues att = length (filter (\<lambda>a. a) att)"

lemma trues_simps [simp]:
  "trues [] = 0" "trues (a # att) = (if a then 1 else 0) + trues att" "trues (att @ att') = trues att + trues att'"
  by (simp_all add: trues_def)

definition row_ok :: "row \<Rightarrow> bool" where
  "row_ok row \<longleftrightarrow> bt_ok (rw_labels row) \<and> set (map fst (rw_labels row)) = listed_names \<and> rw_need row = need_of (rw_state row)"

text \<open>
  Which rows are inspected, given how many were before: a row that needs it, before the deadline, while
  fewer than the cap were.
\<close>

definition attempts :: "containers_config \<Rightarrow> instant \<Rightarrow> (nat \<Rightarrow> instant) \<Rightarrow> nat \<Rightarrow> row list \<Rightarrow> bool list \<Rightarrow> bool" where
  "attempts config deadline clock n rows att \<longleftrightarrow> length att = length rows
     \<and> (\<forall>j < length rows. att ! j \<longleftrightarrow> rw_need (rows ! j) \<noteq> NeedNone \<and> clock j < deadline
          \<and> n + trues (take j att) < cf_inspect_cap config)"

lemma attempts_Cons:
  assumes "attempts config deadline (\<lambda>j. clock (Suc j)) (n + (if a then 1 else 0)) rows att"
    and "a \<longleftrightarrow> rw_need row \<noteq> NeedNone \<and> clock 0 < deadline \<and> n < cf_inspect_cap config"
  shows "attempts config deadline clock n (row # rows) (a # att)"
  unfolding attempts_def
proof (intro conjI allI impI)
  show "length (a # att) = length (row # rows)" using assms(1) by (simp add: attempts_def)
  fix j
  assume "j < length (row # rows)"
  then show "(a # att) ! j \<longleftrightarrow> rw_need ((row # rows) ! j) \<noteq> NeedNone \<and> clock j < deadline
     \<and> n + trues (take j (a # att)) < cf_inspect_cap config"
    using assms by (cases j) (auto simp: attempts_def)
qed

lemma enrich_loop_rows:
  "\<forall>row \<in> set rows. row_ok row \<Longrightarrow> \<exists>att. attempts config deadline (\<lambda>j. clock (i + j)) n rows att
     \<and> snd (enrich_loop E config deadline clock answer i n rows) = n + trues att
     \<and> (\<forall>j < length rows. rw_labels (fst (enrich_loop E config deadline clock answer i n rows) ! j) =
          final_labels E (rows ! j) (if att ! j then right (answer (i + j)) else None))
     \<and> length (fst (enrich_loop E config deadline clock answer i n rows)) = length rows"
proof (induction rows arbitrary: i n)
  case Nil
  show ?case by (intro exI [of _ "[]"]) (simp add: attempts_def)
next
  case (Cons row rows)
  define a where "a \<longleftrightarrow> rw_need row \<noteq> NeedNone \<and> clock i < deadline \<and> n < cf_inspect_cap config"
  let ?n = "n + (if a then 1 else 0)"
  let ?rest = "enrich_loop E config deadline clock answer (Suc i) ?n rows"
  obtain att where att: "attempts config deadline (\<lambda>j. clock (Suc i + j)) ?n rows att" "snd ?rest = ?n + trues att"
    "\<And>j. j < length rows \<Longrightarrow> rw_labels (fst ?rest ! j) = final_labels E (rows ! j) (if att ! j then right (answer (Suc i + j)) else None)"
    "length (fst ?rest) = length rows"
    using Cons.IH [of "Suc i" ?n] Cons.prems by (metis list.set_intros(2))
  have row: "bt_ok (rw_labels row)" "rw_need row = need_of (rw_state row)" using Cons.prems by (simp_all add: row_ok_def)
  define first where "first = fst (enrich_loop E config deadline clock answer i n (row # rows)) ! 0"
  have loop: "enrich_loop E config deadline clock answer i n (row # rows) = (first # fst ?rest, snd ?rest)"
    by (simp add: first_def a_def can_inspect_def Let_def split_def conj_commute)
  have first: "rw_labels first = final_labels E row (if a then right (answer i) else None)"
    using row_enriched [OF row, of E] by (auto simp: first_def a_def can_inspect_def Let_def split_def)
  have "attempts config deadline (\<lambda>j. clock (i + j)) n (row # rows) (a # att)"
    using att(1) by (intro attempts_Cons) (simp_all add: a_def)
  moreover have "rw_labels ((first # fst ?rest) ! j) = final_labels E ((row # rows) ! j) (if (a # att) ! j then right (answer (i + j)) else None)"
    if "j < length (row # rows)" for j
    using that first att(3) by (cases j) simp_all
  ultimately show ?case unfolding loop using att(2,4) by (intro exI [of _ "a # att"]) simp
qed

lemma attempts_capped: "attempts config deadline clock n rows att \<Longrightarrow> n \<le> cf_inspect_cap config \<Longrightarrow> n + trues att \<le> cf_inspect_cap config"
proof -
  assume a: "attempts config deadline clock n rows att" and n: "n \<le> cf_inspect_cap config"
  have "n + trues (take k att) \<le> cf_inspect_cap config" if "k \<le> length att" for k
    using that
  proof (induction k)
    case (Suc k)
    then show ?case using a by (auto simp: take_Suc_conv_app_nth attempts_def)
  qed (simp add: n)
  from this [of "length att"] show ?thesis by simp
qed

lemma row_ok_row_of: "row_of config c = Some row \<Longrightarrow> row_ok row"
  using row_of_labels unfolding row_ok_def by blast

lemma listed_rows_ok: "\<forall>row \<in> set (List.map_filter (row_of config) containers). row_ok row"
  by (induction containers) (auto simp: map_filter_simps row_ok_row_of split: option.split)

lemma final_labels_fits: "row_ok row \<Longrightarrow> fits container_label_names (final_labels E row x)"
  unfolding final_labels_def row_ok_def by (intro fits_row) simp_all

lemma poll_containers_rows:
  assumes "cf_enabled (cst_config cs)" and "listed = Inr containers"
  defines "rows \<equiv> List.map_filter (row_of (cst_config cs)) containers"
  shows "\<exists>att. attempts (cst_config cs) (now + cf_enrich_timeout (cst_config cs)) clock 0 rows att
     \<and> poll_containers E listed now clock answer cs =
         Inr (map (\<lambda>j. final_labels E (rows ! j) (if att ! j then right (answer j) else None)) [0..<length rows])"
proof -
  let ?rows = "rows" and ?d = "now + cf_enrich_timeout (cst_config cs)"
  obtain att where att: "attempts (cst_config cs) ?d clock 0 ?rows att"
    and out: "\<forall>j < length ?rows. rw_labels (fst (enrich_loop E (cst_config cs) ?d clock answer 0 0 ?rows) ! j) =
        final_labels E (?rows ! j) (if att ! j then right (answer j) else None)"
      "length (fst (enrich_loop E (cst_config cs) ?d clock answer 0 0 ?rows)) = length ?rows"
    using enrich_loop_rows [of ?rows "cst_config cs" ?d clock 0 0 E answer] listed_rows_ok unfolding rows_def by auto
  have "map rw_labels (fst (enrich_loop E (cst_config cs) ?d clock answer 0 0 ?rows)) =
      map (\<lambda>j. final_labels E (?rows ! j) (if att ! j then right (answer j) else None)) [0..<length ?rows]"
    using out by (intro nth_equalityI) simp_all
  then show ?thesis using att assms(1) by (intro exI [of _ att]) (simp add: poll_containers_def enrich_def rows_def assms(2))
qed

lemma poll_containers_fits:
  "poll_containers E listed now clock answer cs = Inr labs \<Longrightarrow> l \<in> set labs \<Longrightarrow> fits container_label_names l"
proof -
  assume p: "poll_containers E listed now clock answer cs = Inr labs" and l: "l \<in> set labs"
  show ?thesis
  proof (cases "cf_enabled (cst_config cs)")
    case True
    then obtain containers where c: "listed = Inr containers" using p by (cases listed) (simp_all add: poll_containers_def)
    have ok: "row_ok (List.map_filter (row_of (cst_config cs)) containers ! j)" if "j < length (List.map_filter (row_of (cst_config cs)) containers)" for j
      using listed_rows_ok nth_mem [OF that] by blast
    obtain att where "labs = map (\<lambda>j. final_labels E (List.map_filter (row_of (cst_config cs)) containers ! j) (if att ! j then right (answer j) else None))
        [0..<length (List.map_filter (row_of (cst_config cs)) containers)]"
      using poll_containers_rows [OF True c, of now clock E answer] p by fastforce
    then obtain j where "j < length (List.map_filter (row_of (cst_config cs)) containers)"
      "l = final_labels E (List.map_filter (row_of (cst_config cs)) containers ! j) (if att ! j then right (answer j) else None)" using l by auto
    then show ?thesis using final_labels_fits ok by blast
  qed (use p l in \<open>simp add: poll_containers_def\<close>)
qed

section \<open>Facts about an update\<close>

abbreviation container_desc :: "containers_state \<Rightarrow> desc" where
  "container_desc cs \<equiv> sf_desc (cst_family cs)"

definition container_desc_ok :: "containers_state \<Rightarrow> bool" where
  "container_desc_ok cs \<longleftrightarrow> desc_name (container_desc cs) = ''swarm_container_state'' \<and> desc_label_names (container_desc cs) = container_label_names"

lemma label_has: "fits container_label_names l \<Longrightarrow> map_of l LABEL_EXIT_CODE = Some (label l LABEL_EXIT_CODE)"
proof -
  assume "fits container_label_names l"
  then have "LABEL_EXIT_CODE \<in> set (map fst l)" by (simp add: fits_def container_names container_labels)
  then show ?thesis by (cases "map_of l LABEL_EXIT_CODE") (auto simp: label_def map_of_eq_None_iff)
qed

lemma fits_with_state: "fits container_label_names l \<Longrightarrow> fits container_label_names (bt_insert LABEL_STATE st l)"
proof -
  assume l: "fits container_label_names l"
  let ?l = "bt_insert LABEL_STATE st l"
  have k: "set (map fst ?l) = set container_label_names"
    using l by (simp only: keys_bt_insert fits_def) (simp add: container_names container_labels insert_absorb)
  have "bt_ok ?l" using l by (simp add: fits_def)
  moreover from this have "length ?l = length container_label_names"
    using k container_names_valid(2) by (metis bt_ok_distinct distinct_card length_map)
  ultimately show ?thesis using k by (simp add: fits_def)
qed

text \<open>What one state of one row writes.\<close>

lemma state_series_write:
  assumes "container_desc_ok cs" and "fits container_label_names l"
  shows "state_series (cst_family cs) l st b =
    sb_insert (container_desc cs) (series_key (container_desc cs) (bt_insert LABEL_STATE st l)) (if label l LABEL_STATE = st then 1 else 0) b"
proof -
  let ?l = "bt_insert LABEL_STATE st l"
  note f = fits_with_state [OF assms(2), of st]
  have "bt_insert LABEL_EXIT_CODE (label l LABEL_EXIT_CODE) ?l = ?l"
    using f label_has [OF assms(2)]
    by (intro bt_eqI) (auto simp: fits_def map_of_bt_insert fun_eq_iff container_labels)
  moreover have "sanitize_metric_labels ?l = ?l"
    using f container_names_valid(1) by (intro sanitize_metric_labels_fixed) (auto simp: fits_def list_all_iff)
  ultimately show ?thesis using f assms(1) by (simp add: state_series_def sb_set_fits container_desc_ok_def)
qed

lemma fold_product: "fold (\<lambda>x. fold (f x) ys) xs s = fold (\<lambda>(x, y). f x y) (List.product xs ys) s"
  by (induction xs arbitrary: s) (simp_all add: fold_map comp_def)

lemma build_containers_write:
  assumes "container_desc_ok cs" and "\<forall>l \<in> set rows. fits container_label_names l"
  shows "build_containers_state (cst_family cs) rows =
    fold (\<lambda>p. sb_insert (container_desc cs) (series_key (container_desc cs) (bt_insert LABEL_STATE (snd p) (fst p)))
                (if label (fst p) LABEL_STATE = snd p then 1 else 0)) (List.product rows KNOWN_CONTAINER_STATES) sb_new"
  unfolding build_containers_state_def fold_product
  using assms(2) by (intro fold_cong) (auto simp: state_series_write [OF assms(1)])

lemma fold_insert_facts:
  "sb_error (fold (\<lambda>p. sb_insert d (f p) (g p)) ps b) = sb_error b"
  "names_ok b \<Longrightarrow> names_ok (fold (\<lambda>p. sb_insert d (f p) (g p)) ps b)"
  by (induction ps arbitrary: b) (auto simp: names_ok_insert)

text \<open>A row without its state: what tells its series from those of the other rows.\<close>

definition identity :: "container_row \<Rightarrow> container_row" where
  "identity l = hdel LABEL_STATE l"

lemma with_state_inj:
  assumes "fits container_label_names l" "fits container_label_names l'" "bt_insert LABEL_STATE st l = bt_insert LABEL_STATE st' l'"
  shows "identity l = identity l'" "st = st'"
proof -
  have m: "(map_of l)(LABEL_STATE \<mapsto> st) = (map_of l')(LABEL_STATE \<mapsto> st')" using assms(3) by (metis map_of_bt_insert)
  then show "st = st'" by (metis fun_upd_same option.inject)
  have "(map_of l)(LABEL_STATE := None) = (map_of l')(LABEL_STATE := None)" using m by (metis fun_upd_upd)
  then show "identity l = identity l'" using assms(1,2) unfolding identity_def by (intro bt_eqI) (simp_all add: fits_def delete_conv')
qed

lemma container_key_inj:
  assumes "container_desc_ok cs" and "\<forall>l \<in> set rows. fits container_label_names l" and "distinct (map identity rows)"
  shows "inj_on (\<lambda>p. series_key (container_desc cs) (bt_insert LABEL_STATE (snd p) (fst p))) (set (List.product rows KNOWN_CONTAINER_STATES))"
proof (rule inj_onI)
  fix p q
  assume p: "p \<in> set (List.product rows KNOWN_CONTAINER_STATES)" and q: "q \<in> set (List.product rows KNOWN_CONTAINER_STATES)"
    and e: "series_key (container_desc cs) (bt_insert LABEL_STATE (snd p) (fst p)) = series_key (container_desc cs) (bt_insert LABEL_STATE (snd q) (fst q))"
  then have l: "fst p \<in> set rows" "fst q \<in> set rows" by auto
  note f = l [THEN assms(2) [THEN bspec]]
  have "bt_insert LABEL_STATE (snd p) (fst p) = bt_insert LABEL_STATE (snd q) (fst q)"
    using e fits_with_state [OF f(1), of "snd p"] fits_with_state [OF f(2), of "snd q"] assms(1) series_key_inj by (metis container_desc_ok_def)
  note i = with_state_inj [OF f this]
  have "fst p = fst q" using i(1) l assms(3) by (auto simp: distinct_map inj_on_def)
  then show "p = q" using i(2) by (simp add: prod_eq_iff)
qed

section \<open>Properties\<close>

text \<open>
  C25: a poll of the containers that can list them returns one row per container counted, in list
  order, and attempts at most the cap of inspects. A row is inspected exactly when it is running or
  exited, the deadline has not passed and fewer than the cap of earlier rows were. It carries the
  eight labels of the family: those of the list, the health of an inspected running container that
  reports one and otherwise the listed state, and the exit code of an inspected exited container,
  empty for every other one.
\<close>

theorem container_rows:
  assumes "cf_enabled (cst_config cs)" and "listed = Inr containers"
  shows "let rows = List.map_filter (row_of (cst_config cs)) containers in \<exists>att labs.
     poll_containers E listed now clock answer cs = Inr labs \<and> length labs = length rows \<and> length att = length rows
     \<and> trues att \<le> cf_inspect_cap (cst_config cs)
     \<and> (\<forall>j < length rows.
          (att ! j \<longleftrightarrow> rw_state (rows ! j) \<in> {''running'', ''exited''} \<and> clock j < now + cf_enrich_timeout (cst_config cs)
                      \<and> trues (take j att) < cf_inspect_cap (cst_config cs))
          \<and> fits container_label_names (labs ! j)
          \<and> map_of (labs ! j) = (map_of (rw_labels (rows ! j)))
              (LABEL_EXIT_CODE \<mapsto> exit_label (rows ! j) (if att ! j then right (answer j) else None),
               LABEL_STATE \<mapsto> state_label E (rows ! j) (if att ! j then right (answer j) else None)))"
proof -
  let ?rows = "List.map_filter (row_of (cst_config cs)) containers"
  obtain att where att: "attempts (cst_config cs) (now + cf_enrich_timeout (cst_config cs)) clock 0 ?rows att"
    and p: "poll_containers E listed now clock answer cs =
      Inr (map (\<lambda>j. final_labels E (?rows ! j) (if att ! j then right (answer j) else None)) [0..<length ?rows])"
    using poll_containers_rows [OF assms] by blast
  have ok: "row_ok (?rows ! j)" if "j < length ?rows" for j using listed_rows_ok nth_mem [OF that] by blast
  have need: "rw_need row \<noteq> NeedNone \<longleftrightarrow> rw_state row \<in> {''running'', ''exited''}" if "row_ok row" for row
    using that by (simp add: row_ok_def need_of_def container_states)
  have m: "map_of (final_labels E row x) = (map_of (rw_labels row))(LABEL_EXIT_CODE \<mapsto> exit_label row x, LABEL_STATE \<mapsto> state_label E row x)" for row x
    by (simp add: final_labels_def map_of_bt_insert)
  have len: "length att = length ?rows" using att by (simp add: attempts_def)
  show ?thesis unfolding Let_def
  proof (intro exI conjI allI impI, rule p)
    show "trues att \<le> cf_inspect_cap (cst_config cs)" using attempts_capped [OF att] by simp
    fix j
    assume j: "j < length ?rows"
    show "att ! j \<longleftrightarrow> rw_state (?rows ! j) \<in> {''running'', ''exited''} \<and> clock j < now + cf_enrich_timeout (cst_config cs)
        \<and> trues (take j att) < cf_inspect_cap (cst_config cs)"
      using att j need [OF ok [OF j]] by (simp add: attempts_def)
  qed (simp_all add: len m final_labels_fits ok)
qed

definition nginx :: container_summary where
  "nginx = \<lparr>cs_id = ''c1'', cs_names = [''/web''], cs_labels = [], cs_state = ''running''\<rparr>"

definition well :: "string + container_inspect" where
  "well = Inr \<lparr>ci_state = Some \<lparr>cst_exit_code = 0, cst_health = Some \<lparr>ch_status = '' Healthy''\<rparr>\<rparr>,
     ci_config = Some \<lparr>cc_healthcheck = Some ()\<rparr>\<rparr>"

abbreviation one_container :: containers_state where
  "one_container \<equiv> containers_state_new (containers_config_new True False)"

abbreviation nginx_poll :: "string + container_row list" where
  "nginx_poll \<equiv> poll_containers extern_ascii (Inr [nginx]) 0 (\<lambda>_. 0) (\<lambda>_. well) one_container"

lemma nginx_rows: "List.map_filter (row_of (cst_config one_container)) [nginx] =
    [\<lparr>rw_id = ''c1'', rw_state = ''running'', rw_labels = rw_labels (the (row_of (containers_config_new True False) nginx)), rw_need = NeedHealth\<rparr>]"
proof -
  have "trim_space (label [] SWARM_SERVICE_NAME_LABEL) = ''''" by code_simp
  then obtain l where "row_of (containers_config_new True False) nginx =
      Some \<lparr>rw_id = ''c1'', rw_state = ''running'', rw_labels = l, rw_need = NeedHealth\<rparr>"
    by (simp add: row_of_def nginx_def Let_def need_of_def container_states)
  then show ?thesis by (simp add: containers_state_new_def map_filter_simps)
qed

lemma nginx_state: "rw_state row = ''running'' \<Longrightarrow> rw_need row = NeedHealth \<Longrightarrow> state_label extern_ascii row (right well) = ''healthy''"
proof -
  have "health_overlay extern_ascii (projr well) = Some ''healthy''" by code_simp
  then show "rw_state row = ''running'' \<Longrightarrow> rw_need row = NeedHealth \<Longrightarrow> state_label extern_ascii row (right well) = ''healthy''"
    by (simp add: state_label_def well_def unwrap_or_def)
qed

lemma one_container_config [simp]: "cf_enabled (cst_config one_container)" "cf_inspect_cap (cst_config one_container) = 300"
  "cf_enrich_timeout (cst_config one_container) = secs 10"
  by (simp_all add: containers_state_new_def containers_config_new_def CONTAINERS_INSPECT_CAP_def CONTAINERS_INSPECT_TIMEOUT_def)

theorem container_rows_witness:
  "\<exists>l. nginx_poll = Inr [l] \<and> map_of l ''state'' = Some ''healthy'' \<and> map_of l ''exit_code'' = Some ''''"
proof -
  obtain att labs where p: "nginx_poll = Inr labs" "length labs = 1" "att ! 0"
    "map_of (labs ! 0) = (map_of (rw_labels (the (row_of (containers_config_new True False) nginx))))
       (LABEL_EXIT_CODE \<mapsto> exit_label \<lparr>rw_id = ''c1'', rw_state = ''running'', rw_labels = rw_labels (the (row_of (containers_config_new True False) nginx)), rw_need = NeedHealth\<rparr> (right well),
        LABEL_STATE \<mapsto> ''healthy'')"
    using container_rows [OF one_container_config(1) refl, of "[nginx]" extern_ascii 0 "\<lambda>_. 0" "\<lambda>_. well"] nginx_state
    unfolding nginx_rows Let_def by auto
  obtain l where "labs = [l]" using p(2) by (cases labs) auto
  then show ?thesis using p by (intro exI [of _ l]) (simp add: container_labels exit_label_def well_def)
qed


lemma nginx_labels: "\<exists>l. nginx_poll = Inr [l] \<and> label l LABEL_STATE = ''healthy''"
proof -
  let ?row = "\<lparr>rw_id = ''c1'', rw_state = ''running'', rw_labels = rw_labels (the (row_of (containers_config_new True False) nginx)), rw_need = NeedHealth\<rparr>"
  obtain att where "attempts (cst_config one_container) (0 + cf_enrich_timeout (cst_config one_container)) (\<lambda>_. 0) 0 [?row] att"
    "nginx_poll = Inr [final_labels extern_ascii ?row (if att ! 0 then right well else None)]"
    using poll_containers_rows [OF one_container_config(1) refl, of 0 "\<lambda>_. 0" "[nginx]" extern_ascii "\<lambda>_. well"] unfolding nginx_rows by auto
  then show ?thesis using nginx_state [of ?row] by (auto simp: attempts_def label_def final_labels_def map_of_bt_insert)
qed


end
