(* ===== verification/Command_Line.thy ===== *)
theory Command_Line
  imports Desired
begin

text \<open>
  \<^verbatim>\<open>src/src/cli.rs\<close>: the scan that refuses single-dash flags before the argument parser sees them, and the
  checks of parsed values. The parser is a library and a parameter; an argument is its UTF-8 text.
\<close>

section \<open>Definitions\<close>

definition MIN_POLL_DELAY :: nanos where "MIN_POLL_DELAY = secs 1"
definition DEFAULT_POLL_DELAY :: nanos where "DEFAULT_POLL_DELAY = secs 10"

datatype log_format = TextFormat | JsonFormat
datatype log_level = DebugLevel | InfoLevel | WarnLevel | ErrorLevel

record args =
  ar_listen_addr :: string
  ar_poll_delay :: nanos
  ar_containers :: bool
  ar_containers_include_swarm :: bool
  ar_log_format :: log_format
  ar_log_level :: log_level
  ar_log_time :: bool
  ar_healthcheck :: bool
  ar_labels :: "string list"

definition VALUE_FLAGS :: "string list" where
  "VALUE_FLAGS = [''listen-addr'', ''poll-delay'', ''log-format'', ''log-level'', ''label'']"

definition BOOL_FLAGS :: "string list" where
  "BOOL_FLAGS = [''containers'', ''containers-include-swarm'', ''log-time'', ''healthcheck'', ''help'']"

record exit =
  ec_code :: int
  ec_stdout :: bool
  ec_message :: string

text \<open>\<^verbatim>\<open>chars().count()\<close> of UTF-8 text: the bytes that start a character.\<close>

definition char_count :: "string \<Rightarrow> nat" where
  "char_count s = length (filter (\<lambda>c. \<not> (0x80 \<le> byte c \<and> byte c < 0xC0)) s)"

text \<open>The loop, with its flag that the next argument is a value.\<close>

fun scan :: "bool \<Rightarrow> string list \<Rightarrow> string + unit" where
  "scan skip_value [] = Inr ()"
| "scan skip_value (argument # rest_args) =
     (if skip_value then scan False rest_args
      else if argument = ''--'' then Inr ()
      else case strip_prefix ''--'' argument of
             Some rest \<Rightarrow> scan (CHR ''='' \<notin> set rest \<and> rest \<in> set VALUE_FLAGS) rest_args
           | None \<Rightarrow>
               (case strip_prefix ''-'' argument of
                  None \<Rightarrow> scan False rest_args
                | Some rest \<Rightarrow>
                    let name = (case split_once ''='' rest of Some (name, _) \<Rightarrow> name | None \<Rightarrow> rest) in
                    if name \<in> set VALUE_FLAGS \<or> name \<in> set BOOL_FLAGS
                    then Inl (''single-dash long flags are not supported: '' @ CHR 0x27 # ''-'' @ name @ CHR 0x27 # ''; use '' @ CHR 0x27 # ''--'' @ name @ [CHR 0x27])
                    else if char_count rest > 1
                    then Inl (''flag provided but not defined: '' @ CHR 0x27 # ''-'' @ name @ [CHR 0x27])
                    else scan False rest_args))"

definition refuse_single_dash :: "string list \<Rightarrow> string + unit" where
  "refuse_single_dash arguments = scan False (drop 1 arguments)"

definition parse_args :: "(string list \<Rightarrow> exit + args) \<Rightarrow> string list \<Rightarrow> exit + args" where
  "parse_args try_parse_from arguments =
     (case refuse_single_dash arguments of
        Inl message \<Rightarrow> Inl \<lparr>ec_code = 2, ec_stdout = False, ec_message = ''error: '' @ message @ [CHR 0x0A]\<rparr>
      | Inr _ \<Rightarrow> try_parse_from arguments)"

definition parse_label :: "string \<Rightarrow> unit + string" where
  "parse_label value = (if value = [] then Inl () else Inr value)"

definition check_poll_delay :: "nanos \<Rightarrow> unit + unit" where
  "check_poll_delay poll_delay = (if poll_delay < MIN_POLL_DELAY then Inl () else Inr ())"

section \<open>What the scan looks at\<close>

text \<open>An argument that the next one is the value of.\<close>

definition takes_value :: "string \<Rightarrow> bool" where
  "takes_value a \<longleftrightarrow> a \<in> set (map (append ''--'') VALUE_FLAGS)"

text \<open>The arguments up to \<^verbatim>\<open>--\<close>, without the values that follow a flag.\<close>

fun flags_of :: "string list \<Rightarrow> string list" where
  "flags_of [] = []"
| "flags_of (a # as) = (if a = ''--'' then [] else if takes_value a then a # flags_of (tl as) else a # flags_of as)"

definition single_dash :: "string \<Rightarrow> bool" where
  "single_dash a \<longleftrightarrow> starts_with ''-'' a \<and> \<not> starts_with ''--'' a \<and> char_count a > 2"

lemma char_count_Cons [simp]: "char_count (CHR ''-'' # s) = Suc (char_count s)"
  by (simp add: char_count_def)

lemma char_count_append: "char_count (s @ t) = char_count s + char_count t"
  by (simp add: char_count_def)

lemma flags_long: "name \<in> set VALUE_FLAGS \<or> name \<in> set BOOL_FLAGS \<Longrightarrow> char_count name > 1"
proof -
  have "list_all (\<lambda>name. char_count name > 1) (VALUE_FLAGS @ BOOL_FLAGS)" by code_simp
  then show "name \<in> set VALUE_FLAGS \<or> name \<in> set BOOL_FLAGS \<Longrightarrow> char_count name > 1" by (auto simp: list_all_iff)
qed

lemma no_equals: "CHR ''='' \<notin> set name" if "name \<in> set VALUE_FLAGS"
proof -
  have "list_all (\<lambda>name. CHR ''='' \<notin> set name) VALUE_FLAGS" by code_simp
  then show ?thesis using that by (auto simp: list_all_iff)
qed

lemma strip_prefix_Some: "strip_prefix p s = Some r \<longleftrightarrow> s = p @ r"
  by (auto simp: strip_prefix_def starts_with_def) (metis append_take_drop_id)

lemma starts_with_iff: "starts_with p s \<longleftrightarrow> (\<exists>r. s = p @ r)"
  by (auto simp: starts_with_def) (metis append_take_drop_id)

text \<open>The name of a flag is no longer than the argument.\<close>

lemma name_part: "split_once ''='' rest = Some (name, v) \<Longrightarrow> char_count name \<le> char_count rest"
proof -
  assume s: "split_once ''='' rest = Some (name, v)"
  then have "CHR ''='' \<in> set rest" using split_once_absent [of "CHR ''=''" "''=''" rest] by force
  then obtain x y where r: "rest = x @ CHR ''='' # y" "CHR ''='' \<notin> set x" by (metis split_list_first)
  then have "split_once ''='' rest = Some (x, y)" using split_once_first [of "''=''" x y] by simp
  then show ?thesis using s r by (simp add: char_count_append)
qed

lemma scan_flag:
  "\<not> single_dash a \<Longrightarrow> a \<noteq> ''--'' \<Longrightarrow> scan False (a # as) = scan (takes_value a) as"
proof -
  assume n: "\<not> single_dash a" "a \<noteq> ''--''"
  show ?thesis
  proof (cases "strip_prefix ''--'' a")
    case (Some rest)
    then have "takes_value a \<longleftrightarrow> CHR ''='' \<notin> set rest \<and> rest \<in> set VALUE_FLAGS"
      using no_equals by (auto simp: takes_value_def strip_prefix_Some)
    then show ?thesis using Some n(2) by simp
  next
    case None
    then have no: "\<not> starts_with ''--'' a" by (simp add: strip_prefix_def split: if_splits)
    then have t: "\<not> takes_value a" by (auto simp: takes_value_def starts_with_iff)
    show ?thesis
    proof (cases "strip_prefix ''-'' a")
      case (Some rest)
      then have "a = ''-'' @ rest" by (simp add: strip_prefix_Some)
      then have c: "char_count rest \<le> 1" using n(1) no by (auto simp: single_dash_def starts_with_iff)
      define name where "name = (case split_once ''='' rest of Some (name, _) \<Rightarrow> name | None \<Rightarrow> rest)"
      have "char_count name \<le> 1" using c name_part [of rest] by (auto simp: name_def split: option.split intro: order_trans)
      then have "\<not> (name \<in> set VALUE_FLAGS \<or> name \<in> set BOOL_FLAGS)" using flags_long [of name] by linarith
      then show ?thesis using n(2) None Some c t unfolding scan.simps name_def [symmetric] by (simp add: Let_def name_def)
    qed (use n(2) None t in simp)
  qed
qed

lemma scan_refused: "single_dash a \<Longrightarrow> \<exists>e. scan False (a # as) = Inl e"
proof -
  assume s: "single_dash a"
  then obtain rest where a: "a = ''-'' @ rest" by (auto simp: single_dash_def starts_with_iff)
  have n: "\<not> starts_with ''--'' a" "char_count rest > 1" using s a by (auto simp: single_dash_def)
  have "strip_prefix ''--'' a = None" "strip_prefix ''-'' a = Some rest" "a \<noteq> ''--''"
    using n a by (auto simp: strip_prefix_def starts_with_def)
  then show ?thesis using n(2) by (auto simp: Let_def)
qed

section \<open>Properties\<close>

text \<open>
  The scan accepts a command line exactly when none of the arguments it looks at is a single-dash
  flag of more than one character: those before \<^verbatim>\<open>--\<close> that are not the value of the flag before them, so
  a value may start with a dash. A command line it refuses ends with code 2 before anything is parsed.
\<close>

theorem single_dash_refused:
  "(refuse_single_dash (program # as) = Inr () \<longleftrightarrow> (\<forall>a \<in> set (flags_of as). \<not> single_dash a))
   \<and> (if \<exists>a \<in> set (flags_of as). single_dash a
      then \<exists>e. parse_args try_parse_from (program # as) = Inl e \<and> ec_code e = 2 \<and> \<not> ec_stdout e
      else parse_args try_parse_from (program # as) = try_parse_from (program # as))"
proof -
  have "scan False as = Inr () \<longleftrightarrow> (\<forall>a \<in> set (flags_of as). \<not> single_dash a)" for as
  proof (induction as rule: flags_of.induct)
    case (2 a as)
    show ?case
    proof (cases "a = ''--''")
      case False
      show ?thesis
      proof (cases "single_dash a")
        case True
        then show ?thesis using scan_refused [OF True, of as] False by auto
      next
        case ns: False
        note s = scan_flag [OF ns False, of as]
        have tv: "scan True as = scan False (tl as)" by (cases as) simp_all
        show ?thesis using 2 s tv ns False by (simp del: scan.simps)
      qed
    qed simp
  qed simp
  then have iff: "refuse_single_dash (program # as) = Inr () \<longleftrightarrow> (\<forall>a \<in> set (flags_of as). \<not> single_dash a)" by (simp add: refuse_single_dash_def)
  then show ?thesis by (cases "refuse_single_dash (program # as)") (auto simp: parse_args_def)
qed

theorem single_dash_refused_witness:
  "\<exists>e. parse_args (\<lambda>_. Inl \<lparr>ec_code = 0, ec_stdout = True, ec_message = ''usage''\<rparr>) [''exporter'', ''--label'', ''-poll-delay'', ''-containers''] = Inl e \<and> ec_code e = 2"
proof -
  have "\<exists>a \<in> set (flags_of [''--label'', ''-poll-delay'', ''-containers'']). single_dash a" by code_simp
  then show ?thesis using single_dash_refused [of "''exporter''" "[''--label'', ''-poll-delay'', ''-containers'']"
      "\<lambda>_. Inl \<lparr>ec_code = 0, ec_stdout = True, ec_message = ''usage''\<rparr>"] by auto
qed

end
