(* ===== verification/Docker_Query.thy ===== *)
theory Docker_Query
  imports Decimal Desired
begin

text \<open>
  \<^verbatim>\<open>src/src/docker/query.rs\<close>: what a request to the engine is built from: the event filters, the \<^verbatim>\<open>since\<close>
  parameter and the check of a pinned API version; and the filters the listener asks for
  (\<^verbatim>\<open>event_filters\<close> of \<^verbatim>\<open>listener.rs\<close>). A \<^verbatim>\<open>BTreeSet\<close> is a tree with no vs.
\<close>

section \<open>Filters\<close>

type_synonym filters = "(string, (string, unit) btree) btree"

definition filters_add :: "string \<Rightarrow> string list \<Rightarrow> filters \<Rightarrow> filters" where
  "filters_add name vs f =
     (let s = (case map_of f name of Some s \<Rightarrow> s | None \<Rightarrow> [])
      in bt_insert name (fold (\<lambda>v. bt_insert v ()) vs s) f)"

definition filters_is_empty :: "filters \<Rightarrow> bool" where
  "filters_is_empty f \<longleftrightarrow> f = []"

definition filters_to_map :: "filters \<Rightarrow> (string, string list) hmap" where
  "filters_to_map f = map (\<lambda>(name, s). (name, map fst s)) f"

definition event_filters :: filters where
  "event_filters = filters_add ''type'' [''service'', ''node''] []"

lemma event_filters_sent: "filters_to_map event_filters = [(''type'', [''node'', ''service''])]" "\<not> filters_is_empty event_filters"
  by code_simp+

text \<open>Adding vs to a term: the term has the vs it had and the new ones, sorted, each once.\<close>

lemma filters_add_values:
  assumes "bt_ok f" and "\<forall>(n, s) \<in> set f. bt_ok s"
  shows "bt_ok (filters_add name vs f)" "\<forall>(n, s) \<in> set (filters_add name vs f). bt_ok s"
    "map_of (filters_add name vs f) name = Some s \<Longrightarrow> set (map fst s) = set (map fst (unwrap_or (map_of f name) [])) \<union> set vs"
    "n \<noteq> name \<Longrightarrow> map_of (filters_add name vs f) n = map_of f n"
proof -
  let ?s = "unwrap_or (map_of f name) []"
  have ins: "bt_ok s \<Longrightarrow> bt_ok (fold (\<lambda>v. bt_insert v ()) vs s) \<and> set (map fst (fold (\<lambda>v. bt_insert v ()) vs s)) = set (map fst s) \<union> set vs" for s :: "(string, unit) btree"
  proof (induction vs arbitrary: s)
    case (Cons v vs)
    from Cons.IH [OF bt_ok_insert [OF Cons.prems, of v "()"]] show ?case by (simp only: fold_simps keys_bt_insert) auto
  qed simp
  have s: "bt_ok ?s" using assms(2) by (cases "map_of f name") (auto simp: unwrap_or_def dest: map_of_SomeD)
  have a: "filters_add name vs f = bt_insert name (fold (\<lambda>v. bt_insert v ()) vs ?s) f" by (simp add: filters_add_def unwrap_or_def Let_def)
  show ok: "bt_ok (filters_add name vs f)" unfolding a using assms(1) by simp
  show "\<forall>(n, s) \<in> set (filters_add name vs f). bt_ok s"
  proof (intro ballI, clarify)
    fix n x
    assume "(n, x) \<in> set (filters_add name vs f)"
    then have "map_of (filters_add name vs f) n = Some x" using bt_ok_distinct [OF ok] by (simp add: map_of_eq_Some_iff)
    then show "bt_ok x" using ins [OF s] assms(2) unfolding a map_of_bt_insert by (auto split: if_splits dest: map_of_SomeD)
  qed
  show "map_of (filters_add name vs f) name = Some s \<Longrightarrow> set (map fst s) = set (map fst ?s) \<union> set vs"
    using ins [OF s] unfolding a map_of_bt_insert by auto
  show "n \<noteq> name \<Longrightarrow> map_of (filters_add name vs f) n = map_of f n" unfolding a map_of_bt_insert by simp
qed

section \<open>The since parameter\<close>

text \<open>\<^verbatim>\<open>as_second\<close> and \<^verbatim>\<open>subsec_nanosecond\<close> of a timestamp truncate toward zero and carry its sign.\<close>

definition as_second :: "timestamp \<Rightarrow> int" where
  "as_second t = (if t \<ge> 0 then t div 1000000000 else - ((- t) div 1000000000))"

definition subsec_nanosecond :: "timestamp \<Rightarrow> int" where
  "subsec_nanosecond t = t - as_second t * 1000000000"

definition since_parameter :: "timestamp \<Rightarrow> string" where
  "since_parameter since =
     (let seconds = as_second since;
          nanos = subsec_nanosecond since;
          (seconds, nanos) = (if nanos < 0 then (seconds - 1, nanos + 1000000000) else (seconds, nanos))
      in int_text seconds @ ''.'' @ zero_padded 9 (nat nanos))"

section \<open>The API version\<close>

definition MIN_API_VERSION :: "nat \<times> nat" where "MIN_API_VERSION = (1, 40)"
definition MAX_API_VERSION :: "nat \<times> nat" where "MAX_API_VERSION = (1, 56)"

definition version_le :: "nat \<times> nat \<Rightarrow> nat \<times> nat \<Rightarrow> bool" where
  "version_le a b \<longleftrightarrow> fst a < fst b \<or> fst a = fst b \<and> snd a \<le> snd b"

definition validate_client_api_version :: "string \<Rightarrow> string + unit" where
  "validate_client_api_version version =
     (let parsed = (case split_once ''.'' version of
                      None \<Rightarrow> None
                    | Some (major, minor) \<Rightarrow>
                        (case parse_usize major of
                           None \<Rightarrow> None
                         | Some major \<Rightarrow> (case parse_usize minor of None \<Rightarrow> None | Some minor \<Rightarrow> Some (major, minor))))
      in case parsed of
           Some found \<Rightarrow> if version_le MIN_API_VERSION found \<and> version_le found MAX_API_VERSION then Inr () else Inl version
         | None \<Rightarrow> Inl version)"

section \<open>Facts\<close>

lemma seconds_floor:
  "(if subsec_nanosecond t < 0 then (as_second t - 1, subsec_nanosecond t + 1000000000) else (as_second t, subsec_nanosecond t))
     = (t div 1000000000, t mod 1000000000)"
proof (cases "t \<ge> 0")
  case True
  then show ?thesis by (simp add: as_second_def subsec_nanosecond_def minus_div_mult_eq_mod)
next
  case False
  let ?d = "1000000000 :: int"
  define m where "m = (- t) mod ?d"
  define q where "q = (- t) div ?d"
  have t: "- t = q * ?d + m" unfolding q_def m_def by (rule div_mult_mod_eq [symmetric])
  have m: "0 \<le> m" "m < ?d" by (simp_all add: m_def)
  have s: "as_second t = - q" "subsec_nanosecond t = - m" using False t by (simp_all add: as_second_def subsec_nanosecond_def q_def)
  have floor: "t div ?d = k" "t mod ?d = r" if "t = ?d * k + r" "0 \<le> r" "r < ?d" for k r
    using that by (simp_all add: int_div_pos_eq [OF that] int_mod_pos_eq [OF that])
  show ?thesis
  proof (cases "m = 0")
    case True
    then show ?thesis using s t floor [of "- q" 0] by simp
  next
    case nz: False
    then show ?thesis using s m t floor [of "- q - 1" "?d - m"] by simp
  qed
qed

lemma split_dot: "split_once ''.'' v = Some (a, b) \<longleftrightarrow> v = a @ ''.'' @ b \<and> CHR ''.'' \<notin> set a"
proof
  assume s: "split_once ''.'' v = Some (a, b)"
  show "v = a @ ''.'' @ b \<and> CHR ''.'' \<notin> set a"
  proof (cases "CHR ''.'' \<in> set v")
    case True
    then obtain x y where v: "v = x @ CHR ''.'' # y" "CHR ''.'' \<notin> set x" by (metis split_list_first)
    then have "split_once ''.'' v = Some (x, y)" using split_once_first [of "''.''" x y] by simp
    with s v show ?thesis by simp
  qed (use s split_once_absent [of "CHR ''.''" "''.''" v] in simp)
qed (use split_once_first [of "''.''" a b] in simp)

lemma version_in_range: "version_le MIN_API_VERSION (a, b) \<and> version_le (a, b) MAX_API_VERSION \<longleftrightarrow> a = 1 \<and> 40 \<le> b \<and> b \<le> 56"
  by (auto simp: version_le_def MIN_API_VERSION_def MAX_API_VERSION_def)

lemma parse_large: "n > USIZE_MAX \<Longrightarrow> parse_usize (nat_text n) = None"
proof -
  assume n: "n > USIZE_MAX"
  obtain c s where t: "nat_text n = c # s" by (cases "nat_text n") auto
  have "digit_value CHR ''+'' = None" by code_simp
  then have "c \<noteq> CHR ''+''" using nat_text_digits [of c n] t by auto
  then show ?thesis using n t digits_value_nat_text [of n] by (simp add: parse_usize_def)
qed

section \<open>Properties\<close>

text \<open>
  The \<^verbatim>\<open>since\<close> of an event request names its moment exactly, before and after the epoch: the seconds
  rounded down, a point, and nine digits that read as the nanoseconds past that second.
\<close>

theorem since_parameter_exact:
  "\<exists>fraction. since_parameter t = int_text (t div 1000000000) @ ''.'' @ fraction
     \<and> length fraction = 9 \<and> digits_value 0 fraction = Some (nat (t mod 1000000000))"
proof -
  have "nat (t mod 1000000000) < 10 ^ Suc 8" by (simp add: nat_less_iff)
  from zero_padded_value [OF this] show ?thesis
    by (intro exI [of _ "zero_padded 9 (nat (t mod 1000000000))"]) (simp add: since_parameter_def seconds_floor)
qed

text \<open>
  A pinned API version is accepted exactly when it is \<^verbatim>\<open><major>.<minor>\<close> with major 1 and minor from 40
  to 56; any other text is refused and named. Written plainly, 1.40 to 1.56 are the versions accepted.
\<close>

theorem api_version_range:
  "validate_client_api_version v =
     (if \<exists>major minor n. v = major @ ''.'' @ minor \<and> CHR ''.'' \<notin> set major \<and> parse_usize major = Some 1
           \<and> parse_usize minor = Some n \<and> n \<in> {40..56}
      then Inr () else Inl v)
   \<and> validate_client_api_version (''1.'' @ nat_text n) = (if n \<in> {40..56} then Inr () else Inl (''1.'' @ nat_text n))"
proof -
  have valid: "validate_client_api_version v = (if \<exists>major minor n. v = major @ ''.'' @ minor \<and> CHR ''.'' \<notin> set major
      \<and> parse_usize major = Some 1 \<and> parse_usize minor = Some n \<and> n \<in> {40..56} then Inr () else Inl v)" for v
  proof (cases "split_once ''.'' v")
    case None
    have "\<not> (\<exists>major minor. v = major @ ''.'' @ minor \<and> CHR ''.'' \<notin> set major)" using None split_dot [of v] by auto
    then show ?thesis using None by (auto simp: validate_client_api_version_def)
  next
    case (Some p)
    obtain a b where p: "p = (a, b)" by (cases p)
    have u: "v = major @ ''.'' @ minor \<and> CHR ''.'' \<notin> set major \<longleftrightarrow> major = a \<and> minor = b" for major minor
      using Some p split_dot [of v major minor] by auto
    have "(\<exists>major minor n. v = major @ ''.'' @ minor \<and> CHR ''.'' \<notin> set major \<and> parse_usize major = Some 1 \<and> parse_usize minor = Some n \<and> n \<in> {40..56})
        \<longleftrightarrow> (\<exists>n. parse_usize a = Some 1 \<and> parse_usize b = Some n \<and> n \<in> {40..56})"
      using u by metis
    then show ?thesis using Some p by (cases "parse_usize a"; cases "parse_usize b") (simp_all add: validate_client_api_version_def version_in_range)
  qed
  have small: "n \<le> 56 \<Longrightarrow> n \<le> USIZE_MAX" by (simp add: USIZE_MAX_def)
  have one: "parse_usize ''1'' = Some 1" by (simp add: parse_usize_def digit_value_def USIZE_MAX_def)
  have "split_once ''.'' (''1.'' @ nat_text n) = Some (''1'', nat_text n)" using split_dot [of "''1.'' @ nat_text n" "''1''"] by simp
  then have "validate_client_api_version (''1.'' @ nat_text n) = (if n \<in> {40..56} then Inr () else Inl (''1.'' @ nat_text n))"
    using one parse_nat_text [of n] parse_large [of n] small
    by (cases "n \<le> USIZE_MAX") (simp_all only: validate_client_api_version_def Let_def option.case prod.case version_in_range atLeastAtMost_iff simp_thms not_le, auto)
  then show ?thesis using valid by blast
qed

end
