(* ===== verification/Listener.thy ===== *)
theory Listener
  imports Reconciler_Run
begin

text \<open>
  \<^verbatim>\<open>src/src/collector/reconciler/listener.rs\<close>: following the Docker event stream. A connection is what
  Docker answers: refused, or the events it delivers, each with the clock readings at its dispatch,
  and the error the stream ends with. A turn of the loop is a connection and the point, if any, at
  which the cancellation fired; the loop runs over the turns there were, and a list that ends without
  a cancellation is a listener still running. The range of a \<^verbatim>\<open>Timestamp\<close> belongs to the time library
  and is a parameter.
\<close>

section \<open>Streams\<close>

datatype stream_error_kind = Eof | UnexpectedEof | Decode | SourceClosed

record stream_error =
  se_kind :: stream_error_kind
  se_message :: string

definition stream_error_is_eof :: "stream_error \<Rightarrow> bool" where
  "stream_error_is_eof e \<longleftrightarrow> se_kind e = Eof"

text \<open>A refused connection: whether its error is of the cancelled kind, and its message.\<close>

record docker_error =
  de_cancelled :: bool
  de_message :: string

datatype stream_end =
    EndCanceled
  | EndConnect docker_error
  | EndFailed stream_error
  | EndClosed stream_error

definition stream_end_is_eof :: "stream_end \<Rightarrow> bool" where
  "stream_end_is_eof e \<longleftrightarrow> (case e of EndFailed error \<Rightarrow> stream_error_is_eof error | _ \<Rightarrow> False)"

record stream_outcome =
  so_connected :: bool
  so_last_seen :: "timestamp option"
  so_end :: stream_end

record connection =
  cn_refused :: "docker_error option"
  cn_connected_at :: timestamp
  cn_requested_at :: timestamp
  cn_events :: "(event \<times> instant \<times> timestamp) list"
  cn_error :: stream_error

section \<open>Times\<close>

definition EVENTS_SINCE_MARGIN :: nanos where "EVENTS_SINCE_MARGIN = millis 500"

record time_range =
  tr_min :: timestamp
  tr_max :: timestamp

definition with_margin :: "time_range \<Rightarrow> timestamp \<Rightarrow> timestamp" where
  "with_margin tr t = (if tr_min tr \<le> t - int EVENTS_SINCE_MARGIN then t - int EVENTS_SINCE_MARGIN else tr_min tr)"

definition next_backoff :: "nanos \<Rightarrow> nanos" where
  "next_backoff d = min (duration_saturating_mul d BACKOFF_MULTIPLIER) BACKOFF_MAX_DELAY"

definition in_range :: "time_range \<Rightarrow> timestamp \<Rightarrow> timestamp option" where
  "in_range tr t = (if tr_min tr \<le> t \<and> t \<le> tr_max tr then Some t else None)"

definition event_time :: "time_range \<Rightarrow> event \<Rightarrow> timestamp option" where
  "event_time tr ev =
     (if ev_time_nano ev > 0 then in_range tr (ev_time_nano ev)
      else if ev_time ev > 0 then in_range tr (ev_time ev * 1000000000)
      else None)"

section \<open>One connection\<close>

text \<open>\<open>cancelled\<close>: the cancellation fired by the time the stream was over.\<close>

fun dispatch_events :: "time_range \<Rightarrow> bool \<Rightarrow> (event \<times> instant \<times> timestamp) list \<Rightarrow> stream_error \<Rightarrow> timestamp option
    \<Rightarrow> reconciler \<Rightarrow> timestamp option \<times> stream_end \<times> reconciler" where
  "dispatch_events tr cancelled [] error last_seen r =
     (last_seen,
      if cancelled then EndCanceled else if se_kind error = SourceClosed then EndClosed error else EndFailed error, r)"
| "dispatch_events tr cancelled ((ev, now, ts) # events) error last_seen r =
     dispatch_events tr cancelled events error
       (case event_time tr ev of Some seen \<Rightarrow> Some seen | None \<Rightarrow> last_seen) (enqueue_event ev now ts r)"

definition follow_event_stream :: "time_range \<Rightarrow> connection \<Rightarrow> bool \<Rightarrow> bool \<Rightarrow> reconciler \<Rightarrow> stream_outcome \<times> reconciler" where
  "follow_event_stream tr c reconnect cancelled r =
     (case cn_refused c of
        Some error \<Rightarrow>
          (\<lparr>so_connected = False, so_last_seen = None,
            so_end = (if de_cancelled error \<or> cancelled then EndCanceled else EndConnect error)\<rparr>, r)
      | None \<Rightarrow>
          let r = on_metrics (\<lambda>m. m\<lparr>em_timestamps := mark_events_connected (cn_connected_at c) (em_timestamps m)\<rparr>) r;
              r = (if reconnect then request_resync (cn_requested_at c) r else r);
              (last_seen, ending, r) = dispatch_events tr cancelled (cn_events c) (cn_error c) None r
          in (\<lparr>so_connected = True, so_last_seen = last_seen, so_end = ending\<rparr>, r))"

section \<open>The loop\<close>

datatype listener_stopped = ListenerStopping | DuringBackoff nanos

datatype interruption = BeforeConnect | WhileFollowing | WhileSleeping

record turn =
  tu_connection :: connection
  tu_cancelled :: "interruption option"

record listener =
  ls_backoff :: nanos
  ls_since :: timestamp
  ls_reconnect :: bool

text \<open>Why it returned, if it did, the delays it slept, and the state it is in.\<close>

fun listen_loop :: "time_range \<Rightarrow> turn list \<Rightarrow> listener \<Rightarrow> reconciler \<Rightarrow> listener_stopped option \<times> nanos list \<times> listener \<times> reconciler" where
  "listen_loop tr [] l r = (None, [], l, r)"
| "listen_loop tr (t # turns) l r =
     (if tu_cancelled t = Some BeforeConnect then (Some ListenerStopping, [], l, r)
      else let (outcome, r) = follow_event_stream tr (tu_connection t) (ls_reconnect l) (tu_cancelled t = Some WhileFollowing) r;
               l = l\<lparr>ls_reconnect := True\<rparr>;
               l = (if so_connected outcome then l\<lparr>ls_backoff := BACKOFF_INITIAL_DELAY\<rparr> else l);
               l = (case so_last_seen outcome of Some last_seen \<Rightarrow> l\<lparr>ls_since := with_margin tr last_seen\<rparr> | None \<Rightarrow> l)
           in if tu_cancelled t = Some WhileFollowing then (Some ListenerStopping, [], l, r)
              else let r = on_metrics inc_event_reconnect r in
                   if tu_cancelled t = Some WhileSleeping then (Some (DuringBackoff (ls_backoff l)), [], l, r)
                   else let (stopped, sleeps, l', r') = listen_loop tr turns (l\<lparr>ls_backoff := next_backoff (ls_backoff l)\<rparr>) r
                        in (stopped, ls_backoff l # sleeps, l', r'))"

definition listener_new :: "time_range \<Rightarrow> timestamp \<Rightarrow> listener" where
  "listener_new tr anchor = \<lparr>ls_backoff = BACKOFF_INITIAL_DELAY, ls_since = with_margin tr anchor, ls_reconnect = False\<rparr>"

definition listen_swarm_events :: "time_range \<Rightarrow> timestamp \<Rightarrow> turn list \<Rightarrow> reconciler
    \<Rightarrow> listener_stopped option \<times> nanos list \<times> listener \<times> reconciler" where
  "listen_swarm_events tr anchor turns r = listen_loop tr turns (listener_new tr anchor) r"

section \<open>What a turn leaves\<close>

definition accepted :: "turn \<Rightarrow> bool" where
  "accepted t \<longleftrightarrow> cn_refused (tu_connection t) = None"

definition times :: "time_range \<Rightarrow> (event \<times> instant \<times> timestamp) list \<Rightarrow> timestamp list" where
  "times tr events = List.map_filter (\<lambda>e. event_time tr (fst e)) events"

definition seen :: "time_range \<Rightarrow> turn \<Rightarrow> timestamp list" where
  "seen tr t = (if accepted t then times tr (cn_events (tu_connection t)) else [])"

text \<open>The last of a list, or a default.\<close>

definition last_or :: "'a option \<Rightarrow> 'a list \<Rightarrow> 'a option" where
  "last_or d xs = (if xs = [] then d else Some (last xs))"

lemma last_or_simps [simp]:
  "last_or d [] = d" "last_or d (x # xs) = last_or (Some x) xs" "last_or (last_or d xs) ys = last_or d (xs @ ys)"
  by (simp_all add: last_or_def)

lemma dispatch_last: "fst (dispatch_events tr cancelled events error last_seen r) = last_or last_seen (times tr events)"
  by (induction tr cancelled events error last_seen r rule: dispatch_events.induct)
     (auto simp: times_def map_filter_simps split: option.split)

lemma follow_outcome:
  assumes "follow_event_stream tr (tu_connection t) reconnect cancelled r = (outcome, r')"
  shows "so_connected outcome \<longleftrightarrow> accepted t" "so_last_seen outcome = last_or None (seen tr t)"
proof -
  have "so_last_seen outcome = last_or None (seen tr t) \<and> (so_connected outcome \<longleftrightarrow> accepted t)"
  proof (cases "cn_refused (tu_connection t)")
    case None
    then show ?thesis using assms dispatch_last
      by (auto simp: follow_event_stream_def accepted_def seen_def Let_def split_def)
  qed (use assms in \<open>auto simp: follow_event_stream_def accepted_def seen_def\<close>)
  then show "so_connected outcome \<longleftrightarrow> accepted t" "so_last_seen outcome = last_or None (seen tr t)" by simp_all
qed

section \<open>What the listener may do to the reconciler\<close>

text \<open>
  The interface through which the listener touches the reconciler: whatever relation its three
  operations keep, the listener keeps, whatever the streams deliver.
\<close>

locale listener_effects =
  fixes R :: "reconciler \<Rightarrow> reconciler \<Rightarrow> bool"
  assumes refl: "R r r"
    and trans: "R r s \<Longrightarrow> R s t \<Longrightarrow> R r t"
    and event: "R r (enqueue_event ev now ts r)"
    and request: "R r (request_resync ts r)"
    and counters: "R r (on_metrics f r)"
begin

lemma dispatch: "R r (snd (snd (dispatch_events tr cancelled events error last_seen r)))"
  by (induction tr cancelled events error last_seen r rule: dispatch_events.induct) (auto intro: refl trans event)

lemma follow: "R r (snd (follow_event_stream tr c reconnect cancelled r))"
proof (cases "cn_refused c")
  case None
  let ?a = "on_metrics (\<lambda>m. m\<lparr>em_timestamps := mark_events_connected (cn_connected_at c) (em_timestamps m)\<rparr>) r"
  let ?b = "if reconnect then request_resync (cn_requested_at c) ?a else ?a"
  have "R r ?b" by (cases reconnect) (auto intro: counters trans [OF counters request])
  then have "R r (snd (snd (dispatch_events tr cancelled (cn_events c) (cn_error c) None ?b)))" using dispatch trans by blast
  then show ?thesis using None by (simp add: follow_event_stream_def Let_def split_def)
qed (simp add: follow_event_stream_def refl)

lemma listen: "R r (snd (snd (snd (listen_loop tr turns l r))))"
proof (induction turns arbitrary: l r)
  case (Cons t turns)
  have f: "R r (snd (follow_event_stream tr (tu_connection t) (ls_reconnect l) c r))" for c by (rule follow)
  have "R r (on_metrics inc_event_reconnect (snd (follow_event_stream tr (tu_connection t) (ls_reconnect l) c r)))" for c
    using f counters trans by blast
  then show ?case using f refl trans [OF _ Cons.IH] by (auto simp: Let_def split_def)
qed (simp add: refl)

end

text \<open>A run of the machine, from any phase and with any poll under way.\<close>

definition machine_run :: "extern \<Rightarrow> reconciler \<Rightarrow> reconciler \<Rightarrow> bool" where
  "machine_run E r r' \<longleftrightarrow> (\<forall>m. mc_rec m = r \<longrightarrow> (mstep E)\<^sup>*\<^sup>* m (m\<lparr>mc_rec := r'\<rparr>))"

lemma machine_run_step: "(\<And>m. mc_rec m = r \<Longrightarrow> mstep E m (m\<lparr>mc_rec := r'\<rparr>)) \<Longrightarrow> machine_run E r r'"
  by (auto simp: machine_run_def)

lemma machine_run_trans: "machine_run E r s \<Longrightarrow> machine_run E s t \<Longrightarrow> machine_run E r t"
proof -
  assume a: "machine_run E r s" "machine_run E s t"
  show "machine_run E r t" unfolding machine_run_def
  proof (intro allI impI)
    fix m :: machine
    assume "mc_rec m = r"
    then have "(mstep E)\<^sup>*\<^sup>* m (m\<lparr>mc_rec := s\<rparr>)" "(mstep E)\<^sup>*\<^sup>* (m\<lparr>mc_rec := s\<rparr>) (m\<lparr>mc_rec := s, mc_rec := t\<rparr>)"
      using a(1) a(2) [unfolded machine_run_def, rule_format, of "m\<lparr>mc_rec := s\<rparr>"] by (simp_all add: machine_run_def)
    then show "(mstep E)\<^sup>*\<^sup>* m (m\<lparr>mc_rec := t\<rparr>)" by simp
  qed
qed

interpretation listening: listener_effects "machine_run E" for E
proof
  show "machine_run E r r" for r by (auto simp: machine_run_def)
  show "machine_run E r s \<Longrightarrow> machine_run E s t \<Longrightarrow> machine_run E r t" for r s t by (rule machine_run_trans)
  show "machine_run E r (enqueue_event ev now ts r)" for r ev now ts by (rule machine_run_step) (metis mstep.event)
  show "machine_run E r (request_resync ts r)" for r ts by (rule machine_run_step) (metis mstep.request)
  show "machine_run E r (on_metrics f r)" for r f by (rule machine_run_step) (metis mstep.counters)
qed

definition requests_grow :: "reconciler \<Rightarrow> reconciler \<Rightarrow> bool" where
  "requests_grow r r' \<longleftrightarrow> st_resync_requested (rc_state r) \<le> st_resync_requested (rc_state r')"

interpretation growing: listener_effects requests_grow
  by unfold_locales
     (auto simp: requests_grow_def enqueue_event_def request_resync_def on_state_def on_metrics_def signal_def mark_nodes_dirty_def requested_mono)

section \<open>A listener that is not cancelled\<close>

abbreviation undisturbed :: "turn list \<Rightarrow> bool" where
  "undisturbed turns \<equiv> \<forall>t \<in> set turns. tu_cancelled t = None"

text \<open>The listener after a turn that went by without a cancellation.\<close>

definition turned :: "time_range \<Rightarrow> turn \<Rightarrow> listener \<Rightarrow> listener" where
  "turned tr t l =
     (let l = l\<lparr>ls_reconnect := True\<rparr>;
          l = (if accepted t then l\<lparr>ls_backoff := BACKOFF_INITIAL_DELAY\<rparr> else l)
      in case last_or None (seen tr t) of Some last_seen \<Rightarrow> l\<lparr>ls_since := with_margin tr last_seen\<rparr> | None \<Rightarrow> l)"

lemma turned_simps [simp]:
  "ls_backoff (turned tr t l) = (if accepted t then BACKOFF_INITIAL_DELAY else ls_backoff l)"
  "ls_since (turned tr t l) = (case last_or None (seen tr t) of Some last_seen \<Rightarrow> with_margin tr last_seen | None \<Rightarrow> ls_since l)"
  "ls_reconnect (turned tr t l)"
  by (simp_all add: turned_def Let_def split: option.split)

definition next_listener :: "time_range \<Rightarrow> turn \<Rightarrow> listener \<Rightarrow> listener" where
  "next_listener tr t l = (turned tr t l)\<lparr>ls_backoff := next_backoff (ls_backoff (turned tr t l))\<rparr>"

definition next_rec :: "time_range \<Rightarrow> turn \<Rightarrow> listener \<Rightarrow> reconciler \<Rightarrow> reconciler" where
  "next_rec tr t l r = on_metrics inc_event_reconnect (snd (follow_event_stream tr (tu_connection t) (ls_reconnect l) False r))"

lemma listen_turn:
  assumes "tu_cancelled t = None"
  shows "listen_loop tr (t # turns) l r =
    (fst (listen_loop tr turns (next_listener tr t l) (next_rec tr t l r)),
     ls_backoff (turned tr t l) # fst (snd (listen_loop tr turns (next_listener tr t l) (next_rec tr t l r))),
     snd (snd (listen_loop tr turns (next_listener tr t l) (next_rec tr t l r))))"
proof -
  obtain outcome q where f: "follow_event_stream tr (tu_connection t) (ls_reconnect l) False r = (outcome, q)" by force
  show ?thesis using assms
    by (cases "accepted t"; cases "last_or None (seen tr t)")
       (simp_all add: f follow_outcome [OF f] next_rec_def next_listener_def turned_def split_def Let_def)
qed

lemma listen_since:
  "undisturbed turns \<Longrightarrow> fst (listen_loop tr turns l r) = None
   \<and> ls_since (fst (snd (snd (listen_loop tr turns l r)))) =
       (case last_or None (concat (map (seen tr) turns)) of Some t \<Rightarrow> with_margin tr t | None \<Rightarrow> ls_since l)"
proof (induction turns arbitrary: l r)
  case (Cons t turns)
  have "ls_since (next_listener tr t l) = (case last_or None (seen tr t) of Some t \<Rightarrow> with_margin tr t | None \<Rightarrow> ls_since l)"
    by (simp add: next_listener_def)
  moreover have "last_or None (concat (map (seen tr) (t # turns))) =
      (case last_or None (concat (map (seen tr) turns)) of Some s \<Rightarrow> Some s | None \<Rightarrow> last_or None (seen tr t))"
    by (simp add: last_or_def)
  ultimately show ?case using Cons.IH [of "next_listener tr t l" "next_rec tr t l r"] Cons.prems
    by (simp add: listen_turn del: listen_loop.simps split: option.split)
qed simp

subsection \<open>The delays\<close>

definition delay :: "nat \<Rightarrow> nanos" where
  "delay n = min (BACKOFF_INITIAL_DELAY * 2 ^ n) BACKOFF_MAX_DELAY"

lemma delay_0 [simp]: "delay 0 = BACKOFF_INITIAL_DELAY"
  by (simp add: delay_def BACKOFF_INITIAL_DELAY_def BACKOFF_MAX_DELAY_def)

lemma next_backoff_delay: "next_backoff (delay n) = delay (Suc n)"
  by (simp add: next_backoff_def delay_def duration_saturating_mul_def BACKOFF_INITIAL_DELAY_def BACKOFF_MAX_DELAY_def
      BACKOFF_MULTIPLIER_def DURATION_MAX_def min_def)

fun delays :: "nat \<Rightarrow> turn list \<Rightarrow> nanos list" where
  "delays n [] = []"
| "delays n (t # turns) = (let k = (if accepted t then 0 else n) in delay k # delays (Suc k) turns)"

lemma listen_delays:
  "undisturbed turns \<Longrightarrow> ls_backoff l = delay n \<Longrightarrow> fst (snd (listen_loop tr turns l r)) = delays n turns"
proof (induction turns arbitrary: l r n)
  case (Cons t turns)
  let ?k = "if accepted t then 0 else n"
  have "ls_backoff (turned tr t l) = delay ?k" using Cons.prems(2) by simp
  moreover from this have "ls_backoff (next_listener tr t l) = delay (Suc ?k)" by (simp add: next_listener_def next_backoff_delay)
  ultimately show ?case using Cons.IH [of "next_listener tr t l" "Suc ?k"] Cons.prems(1)
    by (simp add: listen_turn Let_def del: listen_loop.simps)
qed simp

text \<open>The connections refused in a row up to and including the \<open>i\<close>-th.\<close>

definition refused_in_a_row :: "turn list \<Rightarrow> nat \<Rightarrow> nat" where
  "refused_in_a_row turns i = length (takeWhile (\<lambda>t. \<not> accepted t) (rev (take (Suc i) turns)))"

lemma delays_nth:
  "i < length turns \<Longrightarrow> delays n turns ! i =
     delay (if \<forall>t \<in> set (take (Suc i) turns). \<not> accepted t then n + i else refused_in_a_row turns i)"
proof (induction turns arbitrary: n i)
  case (Cons t turns)
  show ?case
  proof (cases i)
    case (Suc j)
    let ?all = "\<forall>t \<in> set (take (Suc j) turns). \<not> accepted t"
    have j: "j < length turns" using Cons.prems Suc by simp
    show ?thesis
    proof (cases ?all)
      case True
      then have "takeWhile (\<lambda>t. \<not> accepted t) (rev (take (Suc j) turns)) = rev (take (Suc j) turns)" by simp
      then have "refused_in_a_row (t # turns) i = (if accepted t then Suc j else Suc (Suc j))"
        using j True by (simp add: refused_in_a_row_def Suc takeWhile_append)
      then show ?thesis using Cons.IH [OF j, of "Suc (if accepted t then 0 else n)"] True Suc by (auto simp: Let_def)
    next
      case False
      then have "refused_in_a_row (t # turns) i = refused_in_a_row turns j"
        by (auto simp: refused_in_a_row_def Suc takeWhile_append)
      then show ?thesis using Cons.IH [OF j, of "Suc (if accepted t then 0 else n)"] False Suc by (auto simp: Let_def)
    qed
  qed (simp add: Let_def refused_in_a_row_def)
qed simp

lemma refused_in_a_row_le: "\<not> (\<forall>t \<in> set (take (Suc i) turns). \<not> accepted t) \<Longrightarrow> refused_in_a_row turns i \<le> i"
proof -
  let ?p = "\<lambda>t. \<not> accepted t" and ?xs = "rev (take (Suc i) turns)"
  assume "\<not> (\<forall>t \<in> set (take (Suc i) turns). \<not> accepted t)"
  then have "takeWhile ?p ?xs \<noteq> ?xs" by (metis set_rev set_takeWhileD)
  then have "length (takeWhile ?p ?xs) < length ?xs"
    by (metis length_takeWhile_le le_neq_implies_less takeWhile_eq_take take_all_iff order_refl)
  then show ?thesis by (simp add: refused_in_a_row_def)
qed

subsection \<open>The resyncs requested\<close>

lemma follow_requests:
  "accepted t \<Longrightarrow> Suc (st_resync_requested (rc_state r)) \<le> st_resync_requested (rc_state (snd (follow_event_stream tr (tu_connection t) True c r)))"
proof -
  assume t: "accepted t"
  let ?c = "tu_connection t"
  let ?a = "request_resync (cn_requested_at ?c) (on_metrics (\<lambda>m. m\<lparr>em_timestamps := mark_events_connected (cn_connected_at ?c) (em_timestamps m)\<rparr>) r)"
  have "Suc (st_resync_requested (rc_state r)) = st_resync_requested (rc_state ?a)"
    by (simp add: request_resync_def on_state_def on_metrics_def signal_def)
  also have "\<dots> \<le> st_resync_requested (rc_state (snd (snd (dispatch_events tr c (cn_events ?c) (cn_error ?c) None ?a))))"
    using growing.dispatch by (simp add: requests_grow_def)
  finally show ?thesis using t by (simp add: follow_event_stream_def accepted_def Let_def split_def)
qed

lemma listen_requests:
  "undisturbed turns \<Longrightarrow> ls_reconnect l \<Longrightarrow>
   st_resync_requested (rc_state r) + length (filter accepted turns) \<le> st_resync_requested (rc_state (snd (snd (snd (listen_loop tr turns l r)))))"
proof (induction turns arbitrary: l r)
  case (Cons t turns)
  let ?f = "snd (follow_event_stream tr (tu_connection t) True False r)"
  have "st_resync_requested (rc_state r) + (if accepted t then 1 else 0) \<le> st_resync_requested (rc_state ?f)"
    using follow_requests [of t r tr False] growing.follow [of r tr "tu_connection t" True False] by (simp add: requests_grow_def)
  then have "st_resync_requested (rc_state r) + (if accepted t then 1 else 0) \<le> st_resync_requested (rc_state (next_rec tr t l r))"
    using Cons.prems(2) by (simp add: next_rec_def on_metrics_def)
  moreover have "ls_reconnect (next_listener tr t l)" by (simp add: next_listener_def)
  ultimately show ?case using Cons.IH [of "next_listener tr t l" "next_rec tr t l r"] Cons.prems(1)
    by (auto simp: listen_turn simp del: listen_loop.simps split: if_splits)
qed simp

lemma listen_returns: "fst (listen_loop tr turns l r) = None \<longleftrightarrow> undisturbed turns"
proof (induction turns arbitrary: l r)
  case (Cons t turns)
  show ?case
  proof (cases "tu_cancelled t")
    case None
    then show ?thesis using Cons.IH by (simp add: listen_turn del: listen_loop.simps)
  next
    case (Some at)
    then show ?thesis by (cases at) (simp_all add: split_def Let_def)
  qed
qed simp

lemma length_delays [simp]: "length (delays n turns) = length turns"
  by (induction n turns rule: delays.induct) (simp_all add: Let_def)

section \<open>Properties\<close>

text \<open>
  C23: the listener returns exactly when it is cancelled, and until then sleeps after every connection
  that ended: half a second after one that had been accepted, and twice as long as before after each
  one refused in a row, but never longer than thirty seconds.
\<close>

theorem listener_backoff:
  "(fst (listen_swarm_events tr anchor turns r) = None \<longleftrightarrow> undisturbed turns)
   \<and> (undisturbed turns \<longrightarrow> (let sleeps = fst (snd (listen_swarm_events tr anchor turns r)) in
        length sleeps = length turns
        \<and> (\<forall>i < length turns. sleeps ! i = min (millis 500 * 2 ^ min i (refused_in_a_row turns i)) (secs 30)
             \<and> (accepted (turns ! i) \<longrightarrow> sleeps ! i = millis 500))))"
proof -
  have acc: "refused_in_a_row turns i = 0" if "i < length turns" "accepted (turns ! i)" for i
    using that by (simp add: refused_in_a_row_def take_Suc_conv_app_nth)
  have all: "i \<le> refused_in_a_row turns i" if "i < length turns" "\<forall>t \<in> set (take (Suc i) turns). \<not> accepted t" for i
  proof -
    have "takeWhile (\<lambda>t. \<not> accepted t) (rev (take (Suc i) turns)) = rev (take (Suc i) turns)" using that(2) by (intro takeWhile_eq_all_conv [THEN iffD2]) simp
    then have "refused_in_a_row turns i = length (rev (take (Suc i) turns))" unfolding refused_in_a_row_def by (rule arg_cong)
    then show ?thesis using that(1) by simp
  qed
  have "fst (snd (listen_swarm_events tr anchor turns r)) = delays 0 turns" if "undisturbed turns"
    unfolding listen_swarm_events_def using that by (intro listen_delays) (simp_all add: listener_new_def)
  moreover have "delays 0 turns ! i = delay (min i (refused_in_a_row turns i))" if "i < length turns" for i
    unfolding delays_nth [OF that, of 0] using refused_in_a_row_le [of i turns] all [OF that]
    by (intro arg_cong [where f = delay]) (auto simp: min_def dest: order_antisym)
  ultimately show ?thesis
    using acc unfolding listen_swarm_events_def listen_returns Let_def
    by (simp add: delay_def BACKOFF_INITIAL_DELAY_def BACKOFF_MAX_DELAY_def)
qed

definition quiet :: "docker_error option \<Rightarrow> (event \<times> instant \<times> timestamp) list \<Rightarrow> turn" where
  "quiet refused events = \<lparr>tu_connection = \<lparr>cn_refused = refused, cn_connected_at = 0, cn_requested_at = 0, cn_events = events,
     cn_error = \<lparr>se_kind = Eof, se_message = ''EOF''\<rparr>\<rparr>, tu_cancelled = None\<rparr>"

definition down :: turn where
  "down = quiet (Some \<lparr>de_cancelled = False, de_message = ''connection refused''\<rparr>) []"

theorem listener_backoff_witness:
  "fst (snd (listen_swarm_events \<lparr>tr_min = 0, tr_max = 10 ^ 18\<rparr> 0 [quiet None [], down, down] (mc_rec (machine_init [] 0 policy_default)))) ! 2 = secs 2"
proof -
  let ?turns = "[quiet None [], down, down]"
  have "undisturbed ?turns" by (simp add: quiet_def down_def)
  moreover have "refused_in_a_row ?turns 2 = 2" by (simp add: refused_in_a_row_def accepted_def quiet_def down_def)
  ultimately show ?thesis
    using listener_backoff [of "\<lparr>tr_min = 0, tr_max = 10 ^ 18\<rparr>" 0 ?turns "mc_rec (machine_init [] 0 policy_default)"] by (simp add: Let_def)
qed

text \<open>
  C22: whatever the streams deliver, the listener resumes half a second before the last event time it
  saw, or before the anchor when it saw none, so the replay overlaps what was already read; every
  connection accepted after the first turn asks for a resync; and all it does to the reconciler is a
  run of the machine, whatever cycle or poll is under way, so every invariant of the runs holds while
  it listens.
\<close>

theorem listener_resumes:
  assumes "undisturbed turns"
  shows "let (stopped, sleeps, l, r') = listen_swarm_events tr anchor turns r in
     ls_since l = with_margin tr (last (anchor # concat (map (seen tr) turns)))
     \<and> st_resync_requested (rc_state r) + length (filter accepted (tl turns)) \<le> st_resync_requested (rc_state r')
     \<and> (\<forall>m. mc_rec m = r \<longrightarrow> (mstep E)\<^sup>*\<^sup>* m (m\<lparr>mc_rec := r'\<rparr>))"
proof -
  let ?x = "listen_loop tr turns (listener_new tr anchor) r"
  have "machine_run E r (snd (snd (snd ?x)))" by (rule listening.listen)
  moreover have "ls_since (fst (snd (snd ?x))) = with_margin tr (last (anchor # concat (map (seen tr) turns)))"
    using listen_since [OF assms, of tr "listener_new tr anchor" r] by (simp add: last_or_def listener_new_def)
  moreover have "st_resync_requested (rc_state r) + length (filter accepted (tl turns)) \<le> st_resync_requested (rc_state (snd (snd (snd ?x))))"
  proof (cases turns)
    case (Cons t rest)
    let ?l = "listener_new tr anchor"
    have "st_resync_requested (rc_state r) \<le> st_resync_requested (rc_state (next_rec tr t ?l r))"
      using growing.follow by (simp add: next_rec_def on_metrics_def requests_grow_def)
    then show ?thesis using listen_requests [of rest "next_listener tr t ?l" "next_rec tr t ?l r" tr] assms Cons
      by (simp add: listen_turn next_listener_def del: listen_loop.simps)
  qed simp
  ultimately show ?thesis by (simp add: listen_swarm_events_def machine_run_def split_def)
qed

theorem listener_resumes_witness:
  "ls_since (fst (snd (snd (listen_swarm_events \<lparr>tr_min = 0, tr_max = 10 ^ 18\<rparr> 7
      [quiet None [(\<lparr>ev_kind = ''node'', ev_action = ''update'', ev_actor_id = ''n'', ev_time = 3, ev_time_nano = 0\<rparr>, 0, 0)], down]
      (mc_rec (machine_init [] 0 policy_default)))))) = int (millis 2500)"
proof -
  let ?tr = "\<lparr>tr_min = 0, tr_max = 10 ^ 18\<rparr>"
  let ?turns = "[quiet None [(\<lparr>ev_kind = ''node'', ev_action = ''update'', ev_actor_id = ''n'', ev_time = 3, ev_time_nano = 0\<rparr>, 0, 0)], down]"
  have "undisturbed ?turns" by (simp add: quiet_def down_def)
  moreover have "concat (map (seen ?tr) ?turns) = [3000000000]"
    by (simp add: seen_def accepted_def times_def quiet_def down_def map_filter_simps event_time_def in_range_def)
  ultimately show ?thesis
    using listener_resumes [of ?turns ?tr 7 "mc_rec (machine_init [] 0 policy_default)" extern_ascii, unfolded Let_def split_def]
    by (simp add: with_margin_def EVENTS_SINCE_MARGIN_def)
qed

end
