(* ===== verification/Startup.thy ===== *)
theory Startup
  imports Server Containers Command_Line Docker_Query Listener
begin

text \<open>
  The wiring: \<^verbatim>\<open>src/src/run.rs\<close> (start-up, the workers, the poller) and the client settings of
  \<^verbatim>\<open>src/src/docker/mod.rs\<close>. The argument parser, the HTTP client of the probe, the environment, the Docker
  client's own configuration and connection, and the clock are parameters. Registering families and
  installing the log belong to their libraries.
\<close>

section \<open>The client settings\<close>

definition PROGRAM :: string where "PROGRAM = ''swarm-scheduler-exporter''"
definition RESPONSE_HEADER_TIMEOUT :: nanos where "RESPONSE_HEADER_TIMEOUT = secs 30"

datatype settings_error = ConfigRefused string | VersionRefused string | CertsWithoutVerify

definition http_header_safe :: "string \<Rightarrow> bool" where
  "http_header_safe value \<longleftrightarrow> list_all (\<lambda>c. byte c = 9 \<or> 32 \<le> byte c \<and> byte c \<le> 126) value"

definition user_agent :: "string \<Rightarrow> string" where
  "user_agent version = (let agent = PROGRAM @ ''/'' @ version in if http_header_safe agent then agent else PROGRAM)"

record 'config settings =
  se_config :: 'config
  se_user_agent :: string
  se_header_timeout :: nanos

definition settings_from_env :: "string \<Rightarrow> ((string \<Rightarrow> string option) \<Rightarrow> string + 'config) \<Rightarrow> (string \<Rightarrow> string option)
    \<Rightarrow> settings_error + 'config settings" where
  "settings_from_env version from_env getenv =
     (let is_set = (\<lambda>name. case getenv name of Some v \<Rightarrow> v \<noteq> [] | None \<Rightarrow> False) in
      if is_set ''DOCKER_CERT_PATH'' \<and> \<not> is_set ''DOCKER_TLS_VERIFY''
         \<and> (case getenv ''DOCKER_HOST'' of Some host \<Rightarrow> starts_with ''tcp://'' host | None \<Rightarrow> False)
      then Inl CertsWithoutVerify
      else let pinned = (case getenv ''DOCKER_API_VERSION'' of
                           Some pin \<Rightarrow> if pin \<noteq> [] then validate_client_api_version pin else Inr ()
                         | None \<Rightarrow> Inr ())
           in case pinned of
                Inl v \<Rightarrow> Inl (VersionRefused v)
              | Inr _ \<Rightarrow>
                  (case from_env getenv of
                     Inl e \<Rightarrow> Inl (ConfigRefused e)
                   | Inr config \<Rightarrow> Inr \<lparr>se_config = config, se_user_agent = user_agent version, se_header_timeout = RESPONSE_HEADER_TIMEOUT\<rparr>))"

section \<open>The families\<close>

record metrics_options =
  mo_custom_labels :: "custom_label list"
  mo_poll_delay :: nanos
  mo_containers :: containers_config
  mo_build :: "string \<times> string \<times> string"

record all_metrics =
  am_collectors :: collectors
  am_health :: health
  am_gauges :: health_gauges
  am_containers :: "containers_state option"

definition register_metrics :: "metrics_options \<Rightarrow> panic + all_metrics" where
  "register_metrics options =
     (let (version, commit, date) = mo_build options in
      case health_gauges_new version commit date of
        Inl p \<Rightarrow> Inl p
      | Inr gauges \<Rightarrow>
          Inr \<lparr>am_collectors = collectors_new (mo_custom_labels options), am_health = unbound (mo_poll_delay options),
               am_gauges = gauges,
               am_containers = (if cf_enabled (mo_containers options) then Some (containers_state_new (mo_containers options)) else None)\<rparr>)"

section \<open>The poller\<close>

text \<open>
  The exporter's own metrics are shared with the reconciler and live in its state. One poll is what its
  snapshot request, its task list and its submission were answered with, and what the container poll
  returned, nothing when cancelled.
\<close>

record poll_answers =
  pa_requested :: "poll_error + poll_snapshot"
  pa_listed :: "(call_error + task list) option"
  pa_submitted :: "poll_snapshot \<Rightarrow> service_counter \<Rightarrow> poll_error option"
  pa_now :: timestamp
  pa_elapsed :: nanos
  pa_containers :: "(call_error + container_row list) option"

definition poll_once :: "extern \<Rightarrow> poll_answers \<Rightarrow> reconciler \<times> containers_state option \<Rightarrow> reconciler \<times> containers_state option" where
  "poll_once E answers st =
     (let (r, containers) = st;
          (result, ts) = poll_and_publish_replicas_state E (pa_requested answers) (pa_listed answers) (pa_submitted answers) (pa_now answers)
                           (em_timestamps (co_metrics (rc_collectors r)));
          r = on_metrics (\<lambda>m. m\<lparr>em_timestamps := ts\<rparr>) r;
          r = on_metrics (observe_poll_duration (pa_elapsed answers)) r;
          r = on_metrics inc_polls r;
          r = (case result of Some _ \<Rightarrow> on_metrics inc_poll_errors r | None \<Rightarrow> r)
      in case containers of
           None \<Rightarrow> (r, None)
         | Some cs \<Rightarrow>
             (r, Some (case pa_containers answers of
                         Some (Inr rows) \<Rightarrow> update_containers rows cs
                       | Some (Inl _) \<Rightarrow> cs
                       | None \<Rightarrow> cs)))"

text \<open>
  The loop: nothing before the first resync; then a poll at once and one per tick, until cancelled. Each
  tick comes with what the reconciler and the listener did to the shared state since the last poll.
\<close>

definition poller_run :: "extern \<Rightarrow> bool \<Rightarrow> ((reconciler \<Rightarrow> reconciler) \<times> poll_answers) list
    \<Rightarrow> reconciler \<times> containers_state option \<Rightarrow> reconciler \<times> containers_state option" where
  "poller_run E ready ticks st =
     (if \<not> ready then st
      else fold (\<lambda>(meanwhile, answers) (r, containers). poll_once E answers (meanwhile r, containers)) ticks st)"

section \<open>The workers\<close>

record workers =
  wo_reconciler :: reconciler
  wo_health :: health
  wo_listener :: listener
  wo_containers :: "containers_state option"
  wo_poll_delay :: nanos

text \<open>The reconciler behind handle 0, the one of the process: created, bound to the check, and then the anchor is read.\<close>

definition start_workers :: "time_range \<Rightarrow> all_metrics \<Rightarrow> nanos \<Rightarrow> timestamp \<Rightarrow> timestamp \<Rightarrow> workers" where
  "start_workers tr metrics poll_delay created anchor =
     \<lparr>wo_reconciler = with_policy (am_collectors metrics) created policy_default,
      wo_health = bind_health 0 (am_health metrics),
      wo_listener = listener_new tr anchor,
      wo_containers = am_containers metrics,
      wo_poll_delay = poll_delay\<rparr>"

definition app :: "(handle \<Rightarrow> shared_state) \<Rightarrow> timestamps \<Rightarrow> timestamp \<Rightarrow> health \<Rightarrow> exposition \<Rightarrow> string \<Rightarrow> response option" where
  "app shared ts now health rendered path = router (health_snapshot shared ts now health) rendered path"

section \<open>Starting up and running\<close>

text \<open>The deadline of the shutdown: from the signal, or from the stop when there was none.\<close>

definition shutdown_deadline :: "instant option \<Rightarrow> instant \<Rightarrow> instant" where
  "shutdown_deadline signalled now = unwrap_or signalled now + SHUTDOWN_BUDGET"

record 'config outside =
  os_try_parse :: "string list \<Rightarrow> exit + args"
  os_request :: "string \<Rightarrow> probe"
  os_getenv :: "string \<Rightarrow> string option"
  os_config :: "(string \<Rightarrow> string option) \<Rightarrow> string + 'config"
  os_client :: "'config settings \<Rightarrow> string option"
  os_time_range :: time_range
  os_created :: timestamp
  os_anchor :: timestamp
  os_build :: "string \<times> string \<times> string"
  os_lookup_host :: "string \<Rightarrow> nat \<Rightarrow> string + socket_addr list"
  os_listen_on :: "socket_addr \<Rightarrow> listen_failure option"
  os_serving :: "socket_addr \<Rightarrow> serving"
  os_signalled :: "instant option"
  os_bound_at :: instant
  os_workers_done :: "instant option"

datatype startup =
    ExitEarly int
  | Panicked panic
  | Ran workers "custom_label list" "int \<times> instant \<times> instant"

definition run_with :: "'config outside \<Rightarrow> string list \<Rightarrow> startup" where
  "run_with out arguments =
     (case parse_args (os_try_parse out) arguments of
        Inl e \<Rightarrow> ExitEarly (ec_code e)
      | Inr a \<Rightarrow>
          if ar_healthcheck a then ExitEarly (fst (run_healthcheck (os_request out) (ar_listen_addr a)))
          else case check_poll_delay (ar_poll_delay a) of
                 Inl _ \<Rightarrow> ExitEarly 1
               | Inr _ \<Rightarrow>
                   (case validate_custom_labels (ar_labels a) of
                      Inl _ \<Rightarrow> ExitEarly 1
                    | Inr labels \<Rightarrow>
                        let custom = custom_labels_new (map cl_raw labels) (map cl_sanitized labels);
                            options = \<lparr>mo_custom_labels = custom, mo_poll_delay = ar_poll_delay a,
                                       mo_containers = containers_config_new (ar_containers a) (ar_containers_include_swarm a),
                                       mo_build = os_build out\<rparr>
                        in case register_metrics options of
                             Inl p \<Rightarrow> Panicked p
                           | Inr metrics \<Rightarrow>
                               (case settings_from_env (fst (os_build out)) (os_config out) (os_getenv out) of
                                  Inl _ \<Rightarrow> ExitEarly 1
                                | Inr settings \<Rightarrow>
                                    (case os_client out settings of
                                       Some _ \<Rightarrow> ExitEarly 1
                                     | None \<Rightarrow>
                                         let workers = start_workers (os_time_range out) metrics (ar_poll_delay a) (os_created out) (os_anchor out);
                                             bound = (case bind_listener (os_lookup_host out) (os_listen_on out) (ar_listen_addr a) of
                                                        Inl e \<Rightarrow> Inl e
                                                      | Inr address \<Rightarrow> Inr (os_serving out address))
                                         in Ran workers custom
                                              (serve_until_done (shutdown_deadline (os_signalled out)) bound (os_bound_at out) (os_workers_done out))))))"

section \<open>Facts\<close>

text \<open>A run that got to serve passed every check before it.\<close>

lemma run_with_Ran:
  assumes "run_with out arguments = Ran w custom ended"
  obtains a labels metrics settings where
    "parse_args (os_try_parse out) arguments = Inr a" "\<not> ar_healthcheck a" "check_poll_delay (ar_poll_delay a) = Inr ()"
    "validate_custom_labels (ar_labels a) = Inr labels" "custom = custom_labels_new (map cl_raw labels) (map cl_sanitized labels)"
    "register_metrics \<lparr>mo_custom_labels = custom, mo_poll_delay = ar_poll_delay a,
       mo_containers = containers_config_new (ar_containers a) (ar_containers_include_swarm a), mo_build = os_build out\<rparr> = Inr metrics"
    "settings_from_env (fst (os_build out)) (os_config out) (os_getenv out) = Inr settings" "os_client out settings = None"
    "w = start_workers (os_time_range out) metrics (ar_poll_delay a) (os_created out) (os_anchor out)"
  using assms unfolding run_with_def
  by (auto simp: Let_def split: sum.splits if_splits option.splits)

lemma settings_checked:
  assumes "settings_from_env version from_env getenv = Inr settings"
  shows "\<And>pin. getenv ''DOCKER_API_VERSION'' = Some pin \<Longrightarrow> pin \<noteq> '''' \<Longrightarrow> validate_client_api_version pin = Inr ()"
    and "\<And>certs host. getenv ''DOCKER_CERT_PATH'' = Some certs \<Longrightarrow> certs \<noteq> '''' \<Longrightarrow> getenv ''DOCKER_HOST'' = Some host \<Longrightarrow> starts_with ''tcp://'' host
      \<Longrightarrow> \<exists>v. getenv ''DOCKER_TLS_VERIFY'' = Some v \<and> v \<noteq> ''''"
  using assms by (auto simp: settings_from_env_def Let_def split: sum.splits if_splits option.splits)

lemma custom_labels_again: "custom_labels_new (map cl_raw labels) (map cl_sanitized labels) = labels"
  by (induction labels) (simp_all add: custom_labels_new_def)

lemma registered:
  assumes "register_metrics options = Inr metrics"
  shows "am_collectors metrics = collectors_new (mo_custom_labels options)" "am_health metrics = unbound (mo_poll_delay options)"
    "am_containers metrics = (if cf_enabled (mo_containers options) then Some (containers_state_new (mo_containers options)) else None)"
  using assms by (auto simp: register_metrics_def Let_def split: prod.splits sum.splits)

text \<open>The build information always has its three values.\<close>

lemma health_gauges_exist: "\<exists>g. health_gauges_new version commit date = Inr g"
  by (simp add: health_gauges_new_def gv_set_def gv_new_def must_def)

lemma user_agent_safe: "http_header_safe (user_agent version)"
proof -
  have "http_header_safe PROGRAM" by code_simp
  then show ?thesis by (simp add: user_agent_def Let_def)
qed

lemma policy_default_backoff: "po_backoff_initial policy_default \<le> po_backoff_max policy_default"
  by (simp add: policy_default_def BACKOFF_INITIAL_DELAY_def BACKOFF_MAX_DELAY_def)

text \<open>What one poll leaves of the shared metrics.\<close>

lemma poll_once_metrics:
  assumes "poll_and_publish_replicas_state E (pa_requested answers) (pa_listed answers) (pa_submitted answers) (pa_now answers)
      (em_timestamps (co_metrics (rc_collectors r))) = (result, ts)"
  shows "fst (poll_once E answers (r, containers)) =
    on_metrics (\<lambda>m. m\<lparr>em_timestamps := ts, em_poll_durations := em_poll_durations m @ [pa_elapsed answers], em_polls := Suc (em_polls m),
                       em_poll_errors := em_poll_errors m + (if result = None then 0 else 1)\<rparr>) r"
  using assms by (simp add: poll_once_def on_metrics_def observe_poll_duration_def inc_polls_def inc_poll_errors_def Let_def split: option.split)

lemma deadline_exact:
  "fst (serve_listener deadline s) = deadline (case sv_stop s of ServerReturned _ \<Rightarrow> sv_ended s | _ \<Rightarrow> sv_stop_at s)"
  by (simp add: serve_listener_def Let_def split: stop_cause.split)

text \<open>When the server was told to stop or ended by itself, when it was over, and what it ended with.\<close>

definition stop_moment :: "instant \<Rightarrow> string + serving \<Rightarrow> instant" where
  "stop_moment now bound = (case bound of Inl _ \<Rightarrow> now | Inr s \<Rightarrow> (case sv_stop s of ServerReturned _ \<Rightarrow> sv_ended s | _ \<Rightarrow> sv_stop_at s))"

definition server_over :: "instant \<Rightarrow> string + serving \<Rightarrow> instant" where
  "server_over now bound = (case bound of Inl _ \<Rightarrow> now | Inr s \<Rightarrow> sv_ended s)"

definition final_outcome :: "serving \<Rightarrow> served" where
  "final_outcome s = (case sv_stop s of ServerReturned outcome \<Rightarrow> outcome | _ \<Rightarrow> unwrap_or (sv_in_time s) (sv_when_cut s))"

section \<open>Properties\<close>

text \<open>
  C19: when the process gets as far as serving, everything it runs with is well formed. Its reconciler
  is in a start state of the machine, so every reachable-state property holds of the run that follows;
  the custom labels are those of the command line, in order, at most eight, and usable; the poll delay
  is at least a second; the health check reads that reconciler and answers 503 with the reason until
  its first resync; the container family exists exactly when asked for; a pinned API version is one
  supported; and client certificates on a \<^verbatim>\<open>tcp://\<close> host come with verification.
\<close>

theorem startup_sound:
  assumes "run_with out arguments = Ran w custom ended"
  shows "\<exists>a. parse_args (os_try_parse out) arguments = Inr a
     \<and> initial custom \<lparr>mc_phase = Between, mc_rec = wo_reconciler w, mc_poller = None\<rparr>
     \<and> machine_ok E custom \<lparr>mc_phase = Between, mc_rec = wo_reconciler w, mc_poller = None\<rparr>
     \<and> map cl_raw custom = ar_labels a \<and> length custom \<le> 8
     \<and> wo_poll_delay w = ar_poll_delay a \<and> secs 1 \<le> wo_poll_delay w \<and> he_poll_delay (wo_health w) = wo_poll_delay w
     \<and> app (\<lambda>_. rc_state (wo_reconciler w)) ts now (wo_health w) rendered ''/healthz'' =
         Some \<lparr>re_status = 503, re_content_type = ''text/plain; charset=utf-8'', re_body = ''initial resync not completed'' @ [CHR 0x0A]\<rparr>
     \<and> (wo_containers w \<noteq> None \<longleftrightarrow> ar_containers a)
     \<and> (\<forall>pin. os_getenv out ''DOCKER_API_VERSION'' = Some pin \<and> pin \<noteq> '''' \<longrightarrow> validate_client_api_version pin = Inr ())
     \<and> (\<forall>certs host. os_getenv out ''DOCKER_CERT_PATH'' = Some certs \<and> certs \<noteq> '''' \<and> os_getenv out ''DOCKER_HOST'' = Some (''tcp://'' @ host)
          \<longrightarrow> (\<exists>v. os_getenv out ''DOCKER_TLS_VERIFY'' = Some v \<and> v \<noteq> ''''))"
proof -
  obtain a labels metrics settings where a: "parse_args (os_try_parse out) arguments = Inr a" "check_poll_delay (ar_poll_delay a) = Inr ()"
    "validate_custom_labels (ar_labels a) = Inr labels" "custom = custom_labels_new (map cl_raw labels) (map cl_sanitized labels)"
    and m: "register_metrics \<lparr>mo_custom_labels = custom, mo_poll_delay = ar_poll_delay a,
       mo_containers = containers_config_new (ar_containers a) (ar_containers_include_swarm a), mo_build = os_build out\<rparr> = Inr metrics"
    and s: "settings_from_env (fst (os_build out)) (os_config out) (os_getenv out) = Inr settings"
    and w: "w = start_workers (os_time_range out) metrics (ar_poll_delay a) (os_created out) (os_anchor out)"
    using run_with_Ran [OF assms] by metis
  have c: "custom = labels" using a(4) by (simp add: custom_labels_again)
  have rec: "wo_reconciler w = with_policy (collectors_new custom) (os_created out) policy_default"
    "wo_health w = bind_health 0 (unbound (ar_poll_delay a))" "wo_poll_delay w = ar_poll_delay a"
    "wo_containers w = am_containers metrics"
    using registered [OF m] by (simp_all add: w start_workers_def)
  have i: "initial custom \<lparr>mc_phase = Between, mc_rec = wo_reconciler w, mc_poller = None\<rparr>"
    using validated_custom_ok(1) [OF a(3)] policy_default_backoff unfolding initial_def machine_init_def rec(1) c by blast
  have raw: "map cl_raw custom = ar_labels a"
    using a(3) unfolding c validate_custom_labels_Inr by (simp add: custom_labels_new_def zip_sanitized comp_def)
  have l: "length custom \<le> 8" using validated_custom_ok(2) [OF a(3)] by (simp add: c MAX_CUSTOM_LABEL_COUNT_def)
  have d: "secs 1 \<le> ar_poll_delay a" using a(2) by (simp add: check_poll_delay_def MIN_POLL_DELAY_def split: if_splits)
  have h: "app (\<lambda>_. rc_state (wo_reconciler w)) ts now (wo_health w) rendered ''/healthz'' =
         Some \<lparr>re_status = 503, re_content_type = ''text/plain; charset=utf-8'', re_body = ''initial resync not completed'' @ [CHR 0x0A]\<rparr>"
    by (simp add: app_def router_def METRICS_PATH_def HEALTHZ_PATH_def healthz_def TEXT_PLAIN_def health_snapshot_def rec(1,2) bind_health_def
        unbound_def resync_state_def with_policy_def state_new_def REASON_INITIAL_RESYNC_def)
  have p: "wo_containers w \<noteq> None \<longleftrightarrow> ar_containers a" using registered(3) [OF m] by (simp add: rec(4) containers_config_new_def)
  have e: "starts_with ''tcp://'' (''tcp://'' @ host)" for host by (simp add: starts_with_def)
  show ?thesis
    using a(1) i machine_ok_init [OF i] raw l d rec(2,3) h p settings_checked [OF s] e
    by (intro exI [of _ a]) (simp add: bind_health_def unbound_def)
qed

text \<open>A process started with one custom label on the local socket, and stopped by a signal.\<close>

definition example_args :: args where
  "example_args = \<lparr>ar_listen_addr = ''0.0.0.0:8888'', ar_poll_delay = secs 10, ar_containers = True, ar_containers_include_swarm = False,
     ar_log_format = TextFormat, ar_log_level = InfoLevel, ar_log_time = False, ar_healthcheck = False, ar_labels = [''team'']\<rparr>"

definition example_serving :: serving where
  "example_serving = \<lparr>sv_stop = RootCancelled, sv_stop_at = secs 60, sv_in_time = Some Drained, sv_when_cut = Drained, sv_ended = secs 61\<rparr>"

definition example_outside :: "unit outside" where
  "example_outside = \<lparr>os_try_parse = (\<lambda>_. Inr example_args), os_request = (\<lambda>_. DeadlineExceeded), os_getenv = (\<lambda>_. None), os_config = (\<lambda>_. Inr ()),
     os_client = (\<lambda>_. None), os_time_range = \<lparr>tr_min = 0, tr_max = 1\<rparr>, os_created = 0, os_anchor = 0, os_build = (''1.0'', '''', ''''),
     os_lookup_host = (\<lambda>_ _. Inr []), os_listen_on = (\<lambda>_. None), os_serving = (\<lambda>_. example_serving), os_signalled = Some (secs 60),
     os_bound_at = 0, os_workers_done = Some (secs 61)\<rparr>"

lemma example_runs: "\<exists>w custom ended. run_with example_outside [''exporter''] = Ran w custom ended"
proof -
  have l: "validate_custom_labels [''team''] = Inr [\<lparr>cl_raw = ''team'', cl_sanitized = ''team''\<rparr>]" by code_simp
  obtain g where g: "health_gauges_new ''1.0'' '''' '''' = Inr g" using health_gauges_exist by blast
  have m: "\<exists>metrics. register_metrics \<lparr>mo_custom_labels = c, mo_poll_delay = d, mo_containers = cc, mo_build = (''1.0'', '''', '''')\<rparr> = Inr metrics" for c d cc
    by (simp add: register_metrics_def g)
  have p: "parse_args (os_try_parse example_outside) [''exporter''] = Inr example_args"
    by (simp add: parse_args_def refuse_single_dash_def example_outside_def)
  have s: "settings_from_env ''1.0'' (os_config example_outside) (os_getenv example_outside) =
      Inr \<lparr>se_config = (), se_user_agent = user_agent ''1.0'', se_header_timeout = RESPONSE_HEADER_TIMEOUT\<rparr>"
    by (simp add: settings_from_env_def example_outside_def)
  obtain metrics where "register_metrics \<lparr>mo_custom_labels = [\<lparr>cl_raw = ''team'', cl_sanitized = ''team''\<rparr>], mo_poll_delay = secs 10,
      mo_containers = containers_config_new True False, mo_build = (''1.0'', '''', '''')\<rparr> = Inr metrics" using m by blast
  then have "run_with example_outside [''exporter''] = Ran (start_workers \<lparr>tr_min = 0, tr_max = 1\<rparr> metrics (secs 10) 0 0)
      [\<lparr>cl_raw = ''team'', cl_sanitized = ''team''\<rparr>]
      (serve_until_done (shutdown_deadline (Some (secs 60)))
         (case bind_listener (\<lambda>_ _. Inr []) (\<lambda>_. None) ''0.0.0.0:8888'' of Inl e \<Rightarrow> Inl e | Inr _ \<Rightarrow> Inr example_serving) 0 (Some (secs 61)))"
    using l s p by (simp add: run_with_def check_poll_delay_def MIN_POLL_DELAY_def example_args_def custom_labels_new_def example_outside_def split: sum.split)
  then show ?thesis by blast
qed

theorem startup_sound_witness:
  "\<exists>w custom ended. run_with example_outside [''exporter''] = Ran w custom ended \<and> map cl_raw custom = [''team''] \<and> secs 1 \<le> wo_poll_delay w
     \<and> initial custom \<lparr>mc_phase = Between, mc_rec = wo_reconciler w, mc_poller = None\<rparr>"
proof -
  obtain w custom ended where r: "run_with example_outside [''exporter''] = Ran w custom ended" using example_runs by blast
  have p: "parse_args (os_try_parse example_outside) [''exporter''] = Inr example_args"
    by (simp add: parse_args_def refuse_single_dash_def example_outside_def)
  have "map cl_raw custom = ar_labels example_args" "secs 1 \<le> wo_poll_delay w" "initial custom \<lparr>mc_phase = Between, mc_rec = wo_reconciler w, mc_poller = None\<rparr>"
    using startup_sound [OF r, of extern_ascii timestamps_new 0 undefined] unfolding p by auto
  then show ?thesis using r by (intro exI [of _ w] exI [of _ custom] exI [of _ ended]) (simp add: example_args_def)
qed


text \<open>
  C21: one poll of the poller, put together with the reconciler it talks to. Its snapshot was taken in a
  run of the machine and its counts are submitted later in the same run, whatever happened in between.
  What it leaves is again a reachable state; the poll and its duration are recorded, and if the
  reconciler reported an error so is the error and the success time stays; otherwise the success time is the clock's and the health
  check answers healthy up to the end of its window, as long as the first resync is done and none is
  outstanding.
\<close>

theorem poll_once_is_a_run:
  assumes "reach (initial cls) (mstep E) m" and "mc_phase m = Between" and "mc_poller m = Some sn"
    and "poll_replicas_state E listed sn = Inr counters" and "apply_poll_counts sn counters clock (mc_rec m) = result"
    and "pa_requested answers = Inr sn" and "pa_listed answers = Some listed"
    and "pa_submitted answers sn counters = (case result of Done _ \<Rightarrow> None | Stopped e _ \<Rightarrow> Some e)"
  shows "let before = outcome_state result; after = fst (poll_once E answers (before, containers));
       counted = co_metrics (rc_collectors before); metrics = co_metrics (rc_collectors after) in
     reach (initial cls) (mstep E) (m\<lparr>mc_rec := after, mc_poller := None\<rparr>)
     \<and> em_polls metrics = Suc (em_polls counted) \<and> em_poll_durations metrics = em_poll_durations counted @ [pa_elapsed answers]
     \<and> (case result of
          Stopped e _ \<Rightarrow> em_poll_errors metrics = Suc (em_poll_errors counted) \<and> em_timestamps metrics = em_timestamps counted
        | Done _ \<Rightarrow> em_poll_errors metrics = em_poll_errors counted \<and> ts_poll_success (em_timestamps metrics) = unix_nanos (pa_now answers)
            \<and> (rc_ready after \<and> st_resync_outstanding_since (rc_state after) = None \<and> he_reconciler h = Some a
               \<and> unix_nanos (pa_now answers) \<noteq> 0 \<and> later \<le> unix_nanos (pa_now answers) + window (he_poll_delay h)
               \<longrightarrow> fst (health_snapshot (\<lambda>_. rc_state after) (em_timestamps metrics) later h)))"
proof -
  let ?before = "outcome_state result" and ?after = "fst (poll_once E answers (outcome_state result, containers))"
  let ?ts = "em_timestamps (co_metrics (rc_collectors ?before))"
  have "poll_and_publish_replicas_state E (pa_requested answers) (pa_listed answers) (pa_submitted answers) (pa_now answers) ?ts =
      (case result of Done _ \<Rightarrow> (None, mark_poll_ok (pa_now answers) ?ts) | Stopped e _ \<Rightarrow> (Some e, ?ts))"
    using assms(4,6-8) by (simp add: poll_and_publish_replicas_state_def split: outcome.split)
  then obtain o' ts where after: "?after = on_metrics (\<lambda>m. m\<lparr>em_timestamps := ts, em_poll_durations := em_poll_durations m @ [pa_elapsed answers], em_polls := Suc (em_polls m),
        em_poll_errors := em_poll_errors m + (if o' = None then 0 else 1)\<rparr>) ?before"
    and o: "(o', ts) = (case result of Done _ \<Rightarrow> (None, mark_poll_ok (pa_now answers) ?ts) | Stopped e _ \<Rightarrow> (Some e, ?ts))"
    using poll_once_metrics [of E answers ?before _ _ containers] by (cases result) force+
  have submitted: "mstep E m (m\<lparr>mc_rec := ?before, mc_poller := None\<rparr>)" by (rule mstep.submit [OF assms(2-5)])
  have "mstep E (m\<lparr>mc_rec := ?before, mc_poller := None\<rparr>) (m\<lparr>mc_rec := on_metrics f ?before, mc_poller := None\<rparr>)" for f
    using mstep.counters [of E "m\<lparr>mc_rec := ?before, mc_poller := None\<rparr>" f] by (cases m) simp
  from this [of "\<lambda>m. m\<lparr>em_timestamps := ts, em_poll_durations := em_poll_durations m @ [pa_elapsed answers], em_polls := Suc (em_polls m), em_poll_errors := em_poll_errors m + (if o' = None then 0 else 1)\<rparr>"]
  have "mstep E (m\<lparr>mc_rec := ?before, mc_poller := None\<rparr>) (m\<lparr>mc_rec := ?after, mc_poller := None\<rparr>)" unfolding after .
  then have reached: "reach (initial cls) (mstep E) (m\<lparr>mc_rec := ?after, mc_poller := None\<rparr>)"
    using assms(1) submitted by (blast intro: reach.intros)
  note known = outstanding_known [OF reach_ok [OF reached, THEN conjunct1]]
  have healthy: "fst (health_snapshot (\<lambda>_. rc_state ?after) t later h)"
    if "rc_ready ?after" "st_resync_outstanding_since (rc_state ?after) = None" "he_reconciler h = Some a" "ts_poll_success t \<noteq> 0"
      "later \<le> ts_poll_success t + window (he_poll_delay h)" for t
    using that known by (simp add: health_snapshot_def resync_state_def Let_def)
  show ?thesis
    using reached healthy o after
    by (cases result) (simp_all add: Let_def on_metrics_def mark_poll_ok_def)
qed

theorem poll_once_is_a_run_witness:
  "\<exists>r counters answers. poll_replicas_state extern_ascii (Inr [] :: call_error + task list) (build_poll_snapshot r) = Inr counters
     \<and> pa_now answers = 7
     \<and> (let before = outcome_state (apply_poll_counts (build_poll_snapshot r) counters (\<lambda>_. (0, 0)) r);
            after = fst (poll_once extern_ascii answers (before, None)) in
        reach (initial []) (mstep extern_ascii) (start\<lparr>mc_rec := after, mc_poller := None\<rparr>)
        \<and> em_polls (co_metrics (rc_collectors after)) = Suc (em_polls (co_metrics (rc_collectors before))))"
proof -
  obtain r where r: "reach (initial []) (mstep extern_ascii) (start\<lparr>mc_rec := r, mc_poller := Some (build_poll_snapshot r)\<rparr>)"
    using reach_snapshot [of extern_ascii] unfolding Let_def by blast
  let ?sn = "build_poll_snapshot r"
  obtain counters where c: "poll_replicas_state extern_ascii (Inr [] :: call_error + task list) ?sn = Inr counters" using poll_total by blast
  define result where "result = apply_poll_counts ?sn counters (\<lambda>_. (0, 0)) r"
  define answers where "answers = \<lparr>pa_requested = Inr ?sn, pa_listed = Some (Inr []),
    pa_submitted = (\<lambda>_ _. case result of Done _ \<Rightarrow> None | Stopped e _ \<Rightarrow> Some e), pa_now = 7, pa_elapsed = 1, pa_containers = None\<rparr>"
  let ?m = "start\<lparr>mc_rec := r, mc_poller := Some ?sn\<rparr>"
  have m: "mc_phase ?m = Between" "mc_poller ?m = Some ?sn" "mc_rec ?m = r" by (simp_all add: start_def machine_init_def)
  have a: "apply_poll_counts ?sn counters (\<lambda>_. (0, 0)) (mc_rec ?m) = result" "pa_requested answers = Inr ?sn" "pa_listed answers = Some (Inr [])"
    "pa_submitted answers ?sn counters = (case result of Done _ \<Rightarrow> None | Stopped e _ \<Rightarrow> Some e)" "pa_now answers = 7"
    by (simp_all add: answers_def result_def)
  have "?m\<lparr>mc_rec := x, mc_poller := None\<rparr> = start\<lparr>mc_rec := x, mc_poller := None\<rparr>" for x by simp
  then show ?thesis
    using poll_once_is_a_run [OF r m(1,2) c a(1-4), of None] a(5) c
    by (intro exI [of _ r] exI [of _ counters] exI [of _ answers]) (simp add: Let_def result_def)
qed

end
