(* ===== verification/Metrics_Text.thy ===== *)
theory Metrics_Text
  imports Decimal Desired
begin

text \<open>
  \<^verbatim>\<open>src/testenv/src/metrics_text.rs\<close>: the reader of the exposition the exporter serves, which the tests
  against a real Swarm judge it by. Reading a decimal as a floating point number, and adding two, belong
  to the number type and are parameters; the infinities and not-a-number are told apart here, as in the
  source. An error is a value with what its message names. Text is UTF-8 bytes, and every character the
  reader looks for is ASCII, so it may scan bytes.
\<close>

section \<open>Samples\<close>

datatype 'r number = Finite 'r | PosInf | NegInf | NaN

record 'r sample =
  sa_name :: string
  sa_labels :: "(string, string) btree"
  sa_value :: "'r number"

datatype sample_error =
    InvalidMetricName string
  | NoValue string
  | InvalidValue string
  | InvalidTimestamp string
  | TextAfterValue string
  | InvalidLabelName string
  | ExpectedEquals string
  | DuplicateLabel string
  | ExpectedComma string
  | Unterminated string
  | InvalidEscape string string
  | MalformedType

type_synonym parse_error = "nat \<times> sample_error"

section \<open>Splitting text\<close>

text \<open>\<^verbatim>\<open>split_whitespace\<close>: the pieces between runs of white space.\<close>

definition ws_starts :: "string \<Rightarrow> bool" where
  "ws_starts s \<longleftrightarrow> list_ex (\<lambda>w. starts_with w s) white_space"

fun word_end :: "string \<Rightarrow> string \<times> string" where
  "word_end [] = ([], [])"
| "word_end (c # s) = (if ws_starts (c # s) then ([], c # s) else let (w, rest) = word_end s in (c # w, rest))"

lemma word_end_append: "word_end s = (w, rest) \<Longrightarrow> s = w @ rest"
  by (induction s arbitrary: w rest) (auto split: if_splits prod.splits)

lemma word_end_shorter: "s \<noteq> [] \<Longrightarrow> \<not> ws_starts s \<Longrightarrow> length (snd (word_end s)) < length s"
proof (cases s)
  case (Cons c t)
  assume "\<not> ws_starts s"
  then show ?thesis using word_end_append [of t] by (cases "word_end t") (auto simp: Cons)
qed simp

lemma trim_start_shorter: "length (trim_start s) \<le> length s"
proof -
  obtain u where "s = u @ trim_start s" using strip_leading_suffix unfolding trim_start_def by blast
  then have "length s = length u + length (trim_start s)" by (metis length_append)
  then show ?thesis by simp
qed

lemma trim_start_stops: "\<not> ws_starts (trim_start s)"
proof -
  have "strip_leading white_space (trim_start s) = trim_start s" by (simp add: trim_start_def strip_leading_fixed)
  then have "List.find (\<lambda>p. p \<noteq> [] \<and> starts_with p (trim_start s)) white_space = None" by (simp only: strip_leading_none)
  moreover have "[] \<notin> set white_space" by code_simp
  ultimately show ?thesis by (auto simp: ws_starts_def list_ex_iff find_None_iff)
qed

function split_whitespace :: "string \<Rightarrow> string list" where
  "split_whitespace s =
     (let s = trim_start s in
      if s = [] then []
      else let (w, rest) = word_end s in w # split_whitespace rest)"
  by pat_completeness auto
termination
proof (relation "measure length", goal_cases)
  case (2 s x p w rest)
  then have "length rest < length x" using word_end_shorter [of x] trim_start_stops [of s] by (metis snd_conv)
  then show ?case using trim_start_shorter [of s] 2(1) by simp
qed simp

declare split_whitespace.simps [simp del]

text \<open>\<^verbatim>\<open>lines\<close>: a line ends at a newline, a carriage return before it dropped; a last line needs none.\<close>

fun lines_of :: "string \<Rightarrow> string \<Rightarrow> string list" where
  "lines_of acc [] = (if acc = [] then [] else [acc])"
| "lines_of acc (c # s) =
     (if c = CHR 0x0A then (if acc \<noteq> [] \<and> last acc = CHR 0x0D then butlast acc else acc) # lines_of [] s
      else lines_of (acc @ [c]) s)"

definition trim_blanks :: "string \<Rightarrow> string" where
  "trim_blanks s = rev (dropWhile (\<lambda>c. c = CHR '' '' \<or> c = CHR 0x09) (rev (dropWhile (\<lambda>c. c = CHR '' '' \<or> c = CHR 0x09) s)))"

section \<open>The parts of a sample\<close>

definition is_name_char :: "char \<Rightarrow> bool \<Rightarrow> bool" where
  "is_name_char c first \<longleftrightarrow> is_ascii_alphabetic c \<or> c = CHR ''_'' \<or> c = CHR '':'' \<or> \<not> first \<and> is_ascii_digit c"

definition is_key_char :: "char \<Rightarrow> bool \<Rightarrow> bool" where
  "is_key_char c first \<longleftrightarrow> is_ascii_alphabetic c \<or> c = CHR ''_'' \<or> \<not> first \<and> is_ascii_digit c"

text \<open>The longest prefix of allowed characters.\<close>

definition prefix_of :: "(char \<Rightarrow> bool \<Rightarrow> bool) \<Rightarrow> string \<Rightarrow> string" where
  "prefix_of allowed s =
     (case s of
        [] \<Rightarrow> []
      | c # cs \<Rightarrow> if allowed c True then c # takeWhile (\<lambda>c. allowed c False) cs else [])"

fun parse_label_value :: "string \<Rightarrow> string \<Rightarrow> string \<Rightarrow> sample_error + (string \<times> string)" where
  "parse_label_value key [] val = Inl (Unterminated key)"
| "parse_label_value key (c # rest) val =
     (if c = CHR 0x22 then Inr (val, rest)
      else if c = CHR 0x5C
      then (case rest of
              [] \<Rightarrow> Inl (Unterminated key)
            | d # rest' \<Rightarrow>
                if d = CHR ''n'' then parse_label_value key rest' (val @ [CHR 0x0A])
                else if d = CHR 0x5C then parse_label_value key rest' (val @ [CHR 0x5C])
                else if d = CHR 0x22 then parse_label_value key rest' (val @ [CHR 0x22])
                else Inl (InvalidEscape (take (utf8_char_width d) rest) key))
      else parse_label_value key rest (val @ [c]))"

lemma parse_label_value_shorter: "parse_label_value key rest val = Inr (v, after) \<Longrightarrow> length after < length rest"
  by (induction key rest val rule: parse_label_value.induct) (fastforce split: if_splits list.splits)+

function parse_labels :: "string \<Rightarrow> (string, string) btree \<Rightarrow> sample_error + ((string, string) btree \<times> string)" where
  "parse_labels rest labels =
     (let rest = trim_start rest in
      if starts_with ''}'' rest then Inr (labels, tl rest)
      else let key = prefix_of is_key_char rest in
      if key = [] then Inl (InvalidLabelName rest)
      else let rest = trim_start (drop (length key) rest) in
      if \<not> starts_with [CHR ''='', CHR 0x22] rest then Inl (ExpectedEquals key)
      else case parse_label_value key (drop 2 rest) [] of
             Inl e \<Rightarrow> Inl e
           | Inr (val, after) \<Rightarrow>
               if map_of labels key \<noteq> None then Inl (DuplicateLabel key)
               else let labels = bt_insert key val labels; rest = trim_start after in
                    if starts_with '','' rest then parse_labels (tl rest) labels
                    else if \<not> starts_with ''}'' rest then Inl (ExpectedComma key)
                    else parse_labels rest labels)"
  by pat_completeness auto
termination
proof (relation "measure (\<lambda>(rest, labels). length rest)", goal_cases)
  case (2 rest labels r key r' p val after labels' r'')
  then have "length after < length (drop 2 r')" using parse_label_value_shorter by fastforce
  then show ?case
    using trim_start_shorter [of rest] trim_start_shorter [of "drop (length key) r"] trim_start_shorter [of after] 2 by simp
next
  case (3 rest labels r key r' p val after labels' r'')
  then have "length after < length (drop 2 r')" using parse_label_value_shorter by fastforce
  then show ?case
    using trim_start_shorter [of rest] trim_start_shorter [of "drop (length key) r"] trim_start_shorter [of after] 3 by simp
qed simp

declare parse_labels.simps [simp del]

text \<open>A number: the infinities and not-a-number in any case, or a decimal of digits, signs, points and exponents.\<close>

definition parse_value :: "(string \<Rightarrow> 'r option) \<Rightarrow> string \<Rightarrow> 'r number option" where
  "parse_value decimal s =
     (let unsigned = (case strip_prefix ''+'' s of
                        Some u \<Rightarrow> u
                      | None \<Rightarrow> (case strip_prefix ''-'' s of Some u \<Rightarrow> u | None \<Rightarrow> s)) in
      if eq_ignore_ascii_case unsigned ''inf'' \<or> eq_ignore_ascii_case unsigned ''infinity''
      then Some (if starts_with ''-'' s then NegInf else PosInf)
      else if eq_ignore_ascii_case s ''nan'' then Some NaN
      else if \<not> list_all (\<lambda>c. is_ascii_digit c \<or> c \<in> set ''.eE+-'') s then None
      else map_option Finite (decimal s))"

text \<open>Whether a text is an \<^verbatim>\<open>i64\<close>.\<close>

definition parse_i64 :: "string \<Rightarrow> int option" where
  "parse_i64 s =
     (let (sign, digits) = (case s of
                              c # rest \<Rightarrow> if c = CHR ''-'' then (- 1, rest) else if c = CHR ''+'' then (1, rest) else (1, s)
                            | [] \<Rightarrow> (1, [])) in
      if digits = [] then None
      else case digits_value 0 digits of
             None \<Rightarrow> None
           | Some n \<Rightarrow> (let v = sign * int n in if - (2 ^ 63) \<le> v \<and> v < 2 ^ 63 then Some v else None))"

definition parse_sample :: "(string \<Rightarrow> 'r option) \<Rightarrow> string \<Rightarrow> sample_error + 'r sample" where
  "parse_sample decimal line =
     (let name = prefix_of is_name_char line in
      if name = [] then Inl (InvalidMetricName line)
      else let rest = drop (length name) line;
               labelled = (case strip_prefix ''{'' rest of
                             Some after \<Rightarrow> parse_labels after []
                           | None \<Rightarrow> Inr ([], rest))
           in case labelled of
                Inl e \<Rightarrow> Inl e
              | Inr (labels, rest) \<Rightarrow>
                  (case split_whitespace rest of
                     [] \<Rightarrow> Inl (NoValue line)
                   | value_text # others \<Rightarrow>
                       (case parse_value decimal value_text of
                          None \<Rightarrow> Inl (InvalidValue value_text)
                        | Some v \<Rightarrow>
                            (case others of
                               [] \<Rightarrow> Inr \<lparr>sa_name = name, sa_labels = labels, sa_value = v\<rparr>
                             | stamp # remaining \<Rightarrow>
                                 if parse_i64 stamp = None then Inl (InvalidTimestamp stamp)
                                 else if remaining \<noteq> [] then Inl (TextAfterValue line)
                                 else Inr \<lparr>sa_name = name, sa_labels = labels, sa_value = v\<rparr>))))"

section \<open>A scrape\<close>

definition strip_suffix :: "string \<Rightarrow> string \<Rightarrow> string option" where
  "strip_suffix p s = (if starts_with (rev p) (rev s) then Some (take (length s - length p) s) else None)"

definition is_skipped :: "(string, string) hmap \<Rightarrow> string \<Rightarrow> bool" where
  "is_skipped types name =
     (let complex = (\<lambda>family. hget types family \<in> {Some ''histogram'', Some ''summary''}) in
      if complex name then True
      else list_ex complex (List.map_filter (\<lambda>suffix. strip_suffix suffix name) [''_bucket'', ''_sum'', ''_count'']))"

fun parse_lines :: "(string \<Rightarrow> 'r option) \<Rightarrow> nat \<Rightarrow> (string, string) hmap \<Rightarrow> 'r sample list \<Rightarrow> string list \<Rightarrow> parse_error + 'r sample list" where
  "parse_lines decimal index types samples [] = Inr samples"
| "parse_lines decimal index types samples (raw # remaining) =
     (let line = trim_blanks raw in
      if line = [] then parse_lines decimal (Suc index) types samples remaining
      else case strip_prefix ''#'' line of
             Some comment \<Rightarrow>
               (case split_whitespace comment of
                  first # args \<Rightarrow>
                    if first = ''TYPE''
                    then (case args of
                            [name, kind] \<Rightarrow> parse_lines decimal (Suc index) (hput name kind types) samples remaining
                          | _ \<Rightarrow> Inl (Suc index, MalformedType))
                    else parse_lines decimal (Suc index) types samples remaining
                | [] \<Rightarrow> parse_lines decimal (Suc index) types samples remaining)
           | None \<Rightarrow>
               (case parse_sample decimal line of
                  Inl e \<Rightarrow> Inl (Suc index, e)
                | Inr s \<Rightarrow> parse_lines decimal (Suc index) types (if is_skipped types (sa_name s) then samples else samples @ [s]) remaining))"

definition scrape_parse :: "(string \<Rightarrow> 'r option) \<Rightarrow> string \<Rightarrow> parse_error + 'r sample list" where
  "scrape_parse decimal s = parse_lines decimal 0 [] [] (lines_of [] s)"

definition labels_include :: "(string, string) btree \<Rightarrow> (string, string) btree \<Rightarrow> bool" where
  "labels_include labels matching = list_all (\<lambda>(key, wanted). map_of labels key = Some wanted) matching"

definition scrape_find :: "'r sample list \<Rightarrow> string \<Rightarrow> (string, string) btree \<Rightarrow> 'r sample list" where
  "scrape_find samples name matching = filter (\<lambda>s. sa_name s = name \<and> labels_include (sa_labels s) matching) samples"

definition scrape_value :: "'r sample list \<Rightarrow> string \<Rightarrow> (string, string) btree \<Rightarrow> 'r number option" where
  "scrape_value samples name matching = (case scrape_find samples name matching of [only] \<Rightarrow> Some (sa_value only) | _ \<Rightarrow> None)"

definition scrape_sum :: "('r number \<Rightarrow> 'r number \<Rightarrow> 'r number) \<Rightarrow> 'r number \<Rightarrow> 'r sample list \<Rightarrow> string \<Rightarrow> (string, string) btree \<Rightarrow> 'r number" where
  "scrape_sum add zero samples name matching = fold (\<lambda>s total. add total (sa_value s)) (scrape_find samples name matching) zero"

definition scrape_has :: "'r sample list \<Rightarrow> string \<Rightarrow> (string, string) btree \<Rightarrow> bool" where
  "scrape_has samples name matching \<longleftrightarrow> scrape_find samples name matching \<noteq> []"

section \<open>The text format\<close>

text \<open>
  The OpenMetrics text of a family, which the exposition library writes: the help and type comments, and a
  line per series, label values quoted with backslash, quote and newline escaped. How it prints a float is
  its own: \<open>pr\<close>, of which \<open>reads_back\<close> says that it is a decimal the parser reads as that number.
\<close>

fun escape :: "string \<Rightarrow> string" where
  "escape [] = []"
| "escape (c # s) =
     (if c = CHR 0x5C then [CHR 0x5C, CHR 0x5C] else if c = CHR 0x22 then [CHR 0x5C, CHR 0x22]
      else if c = CHR 0x0A then [CHR 0x5C, CHR ''n''] else [c]) @ escape s"

definition label_text :: "string \<times> string \<Rightarrow> string" where
  "label_text kv = fst kv @ [CHR ''='', CHR 0x22] @ escape (snd kv) @ [CHR 0x22]"

fun labels_text :: "(string \<times> string) list \<Rightarrow> string" where
  "labels_text [] = []"
| "labels_text [kv] = label_text kv"
| "labels_text (kv # kvs) = label_text kv @ '','' @ labels_text kvs"

definition sample_text :: "string \<Rightarrow> (string \<times> string) list \<Rightarrow> string \<Rightarrow> string" where
  "sample_text name labels v = name @ (if labels = [] then [] else ''{'' @ labels_text labels @ ''}'') @ '' '' @ v"

definition is_metric_name :: "string \<Rightarrow> bool" where
  "is_metric_name s \<longleftrightarrow> s \<noteq> [] \<and> prefix_of is_name_char s = s"

text \<open>A byte no white space starts with.\<close>

definition solid :: "char \<Rightarrow> bool" where
  "solid c \<longleftrightarrow> c \<notin> set (map hd white_space)"

lemma ws_starts_solid: "solid c \<Longrightarrow> \<not> ws_starts (c # s)"
proof
  assume c: "solid c" and "ws_starts (c # s)"
  then obtain w where w: "w \<in> set white_space" "starts_with w (c # s)" by (auto simp: ws_starts_def list_ex_iff)
  have "[] \<notin> set white_space" by code_simp
  then have "w \<noteq> []" using w(1) by metis
  then have "hd w = c" using w(2) by (cases w) (auto simp: starts_with_def)
  with w(1) c show False by (auto simp: solid_def)
qed

lemma trim_start_solid: "solid c \<Longrightarrow> trim_start (c # s) = c # s"
proof -
  assume "solid c"
  then have "\<not> ws_starts (c # s)" by (rule ws_starts_solid)
  then show ?thesis unfolding trim_start_def strip_leading_none by (auto simp: find_None_iff ws_starts_def list_ex_iff)
qed

lemma trim_start_blank: "trim_start (CHR '' '' # s) = trim_start s"
proof -
  have "List.find (\<lambda>p. p \<noteq> [] \<and> starts_with p (CHR '' '' # s)) white_space = Some [CHR '' '']"
    by (simp add: white_space_def starts_with_def)
  then show ?thesis unfolding trim_start_def by (subst strip_leading.simps) simp
qed

lemma word_end_solid: "list_all solid w \<Longrightarrow> rest = [] \<or> ws_starts rest \<Longrightarrow> word_end (w @ rest) = (w, rest)"
proof (induction w)
  case Nil
  then show ?case by (cases rest) auto
qed (auto simp: ws_starts_solid)

lemma split_word: "w \<noteq> [] \<Longrightarrow> list_all solid w \<Longrightarrow> split_whitespace (CHR '' '' # w) = [w]"
proof -
  assume w: "w \<noteq> []" "list_all solid w"
  have "trim_start (CHR '' '' # w) = w" using w by (cases w) (simp_all add: trim_start_blank trim_start_solid)
  then have "split_whitespace (CHR '' '' # w) = w # split_whitespace []"
    using w word_end_solid [of w "[]"] by (simp add: split_whitespace.simps [of "CHR '' '' # w"])
  moreover have "trim_start [] = []" by code_simp
  ultimately show ?thesis by (simp add: split_whitespace.simps [of "[]"])
qed

lemma split_words: "w \<noteq> [] \<Longrightarrow> list_all solid w \<Longrightarrow> split_whitespace (CHR '' '' # w @ CHR '' '' # s) = w # split_whitespace (CHR '' '' # s)"
proof -
  assume w: "w \<noteq> []" "list_all solid w"
  have t: "trim_start (CHR '' '' # w @ CHR '' '' # s) = w @ CHR '' '' # s" using w by (cases w) (simp_all add: trim_start_blank trim_start_solid)
  have "ws_starts (CHR '' '' # s)" by (simp add: ws_starts_def white_space_def starts_with_def)
  then show ?thesis using w t word_end_solid [of w "CHR '' '' # s"] by (simp add: split_whitespace.simps [of "CHR '' '' # w @ CHR '' '' # s"])
qed

section \<open>Reading it back\<close>

lemma read_value: "parse_label_value key (escape v @ CHR 0x22 # rest) acc = Inr (acc @ v, rest)"
  by (induction v arbitrary: acc) auto

lemma prefix_of_append: "k \<noteq> [] \<Longrightarrow> prefix_of allowed k = k \<Longrightarrow> s = [] \<or> \<not> allowed (hd s) False \<Longrightarrow> prefix_of allowed (k @ s) = k"
proof -
  assume k: "k \<noteq> []" "prefix_of allowed k = k" and s: "s = [] \<or> \<not> allowed (hd s) False"
  obtain c t where t: "k = c # t" using k(1) by (cases k) auto
  have a: "allowed c True" "takeWhile (\<lambda>c. allowed c False) t = t" using k(2) t by (auto simp: prefix_of_def split: if_splits)
  then have "\<forall>x \<in> set t. allowed x False" by (simp add: takeWhile_eq_all_conv)
  then have "takeWhile (\<lambda>c. allowed c False) (t @ s) = t" using s by (cases s) (auto simp: takeWhile_append2)
  then show ?thesis using a(1) t by (simp add: prefix_of_def)
qed

text \<open>A label name as the exporter validates it is one the reader takes whole.\<close>

lemma valid_key: "is_valid_label_name k \<Longrightarrow> k \<noteq> [] \<and> prefix_of is_key_char k = k"
proof (cases k)
  case (Cons c s)
  assume "is_valid_label_name k"
  then have "is_key_char c True" "\<forall>x \<in> set s. is_key_char x False"
    using Cons by (auto simp: is_key_char_def is_label_name_start_byte_def is_label_name_byte_def list_all_iff)
  then show ?thesis using Cons by (simp add: prefix_of_def takeWhile_eq_all_conv)
qed simp

lemma key_solid: "is_key_char c b \<Longrightarrow> solid c"
  by (auto simp: is_key_char_def solid_def white_space_def is_ascii_alphabetic_def is_ascii_uppercase_def is_ascii_lowercase_def is_ascii_digit_def)

lemma name_solid: "is_name_char c b \<Longrightarrow> solid c"
  by (auto simp: is_name_char_def solid_def white_space_def is_ascii_alphabetic_def is_ascii_uppercase_def is_ascii_lowercase_def is_ascii_digit_def)

lemma solid_chars: "solid CHR ''='' \<and> solid CHR ''}'' \<and> solid CHR '',''" by code_simp

text \<open>One label of the list, up to the comma or brace after it.\<close>

lemma read_label:
  assumes "is_valid_label_name k" and "k \<notin> set (map fst labels)" and "c = CHR '','' \<or> c = CHR ''}''"
  shows "parse_labels (label_text (k, v) @ c # s) labels =
    (if c = CHR '','' then parse_labels s (bt_insert k v labels) else parse_labels (c # s) (bt_insert k v labels))"
proof -
  note key = valid_key [OF assms(1)]
  obtain d t where k: "k = d # t" using key by (cases k) auto
  have d: "is_key_char d True" using key k by (auto simp: prefix_of_def split: if_splits)
  let ?q = "[CHR ''='', CHR 0x22] @ escape v @ CHR 0x22 # c # s"
  have t: "trim_start (k @ ?q) = k @ ?q" using trim_start_solid [OF key_solid [OF d]] k by simp
  have p: "prefix_of is_key_char (k @ ?q) = k" using key by (intro prefix_of_append) (auto simp: is_key_char_def is_ascii_alphabetic_def is_ascii_uppercase_def is_ascii_lowercase_def is_ascii_digit_def)
  have b: "\<not> starts_with ''}'' (k @ ?q)" using d k by (auto simp: starts_with_def is_key_char_def is_ascii_alphabetic_def is_ascii_uppercase_def is_ascii_lowercase_def)
  have q: "trim_start ?q = ?q" using solid_chars by (simp add: trim_start_solid)
  have c: "trim_start (c # s) = c # s" using assms(3) solid_chars by (auto simp: trim_start_solid)
  have m: "map_of labels k = None" using assms(2) by (simp add: map_of_eq_None_iff)
  have "label_text (k, v) @ c # s = k @ ?q" by (simp add: label_text_def)
  then show ?thesis
    using key t p b q c m assms(3) read_value [of k v "c # s" "[]"]
    by (subst parse_labels.simps) (auto simp: Let_def starts_with_def)
qed

lemma read_end: "parse_labels (CHR ''}'' # s) labels = Inr (labels, s)"
  using solid_chars by (subst parse_labels.simps) (simp add: trim_start_solid starts_with_def)

lemma read_labels:
  assumes "kvs \<noteq> []" and "\<forall>kv \<in> set kvs. is_valid_label_name (fst kv)" and "distinct (map fst kvs)" and "set (map fst kvs) \<inter> set (map fst labels) = {}"
  shows "parse_labels (labels_text kvs @ CHR ''}'' # rest) labels = Inr (fold (\<lambda>(k, v). bt_insert k v) kvs labels, rest)"
  using assms
proof (induction kvs arbitrary: labels rule: labels_text.induct)
  case (2 kv)
  obtain k v where "kv = (k, v)" by (cases kv)
  then show ?case using 2 read_label [of k labels "CHR ''}''" v rest] read_end by simp
next
  case (3 kv kv' kvs)
  obtain k v where kv: "kv = (k, v)" by (cases kv)
  have "set (map fst (kv' # kvs)) \<inter> set (map fst (bt_insert k v labels)) = {}"
    unfolding keys_bt_insert using 3(4,5) kv by auto
  then have "parse_labels (labels_text (kv' # kvs) @ CHR ''}'' # rest) (bt_insert k v labels)
      = Inr (fold (\<lambda>(k, v). bt_insert k v) (kv' # kvs) (bt_insert k v labels), rest)"
    using 3(1) [of "bt_insert k v labels"] 3(3,4) by simp
  then show ?case using 3(3,5) kv read_label [of k labels "CHR '',''" v "labels_text (kv' # kvs) @ CHR ''}'' # rest"] by simp
qed simp

lemma read_sample:
  assumes "is_metric_name name" and "bt_ok labels" and "\<forall>kv \<in> set labels. is_valid_label_name (fst kv)"
    and "w \<noteq> []" and "list_all solid w" and "parse_value decimal w = Some v"
  shows "parse_sample decimal (sample_text name labels w) = Inr \<lparr>sa_name = name, sa_labels = labels, sa_value = v\<rparr>"
proof -
  define rest where "rest = (if labels = [] then [] else ''{'' @ labels_text labels @ ''}'') @ '' '' @ w"
  have n: "prefix_of is_name_char (name @ rest) = name" "name \<noteq> []"
    using assms(1) unfolding rest_def by (auto intro!: prefix_of_append simp: is_metric_name_def is_name_char_def is_ascii_alphabetic_def is_ascii_uppercase_def is_ascii_lowercase_def is_ascii_digit_def)
  have d: "distinct (map fst labels)" using assms(2) by (rule bt_ok_distinct)
  have l: "(case strip_prefix ''{'' rest of Some after \<Rightarrow> parse_labels after [] | None \<Rightarrow> Inr ([], rest)) = Inr (labels, '' '' @ w)"
  proof (cases "labels = []")
    case False
    have "fold (\<lambda>(k, v). bt_insert k v) labels [] = labels" using bt_collect_id [OF assms(2)] by (simp add: bt_collect_def)
    then show ?thesis using False read_labels [OF False assms(3) d, of "[]" "'' '' @ w"] by (simp add: rest_def strip_prefix_def starts_with_def)
  qed (simp add: rest_def strip_prefix_def starts_with_def)
  have "sample_text name labels w = name @ rest" by (simp add: sample_text_def rest_def)
  then show ?thesis using n l split_word [OF assms(4,5)] assms(6) by (simp add: parse_sample_def Let_def)
qed

text \<open>A line of the exposition is not changed by trimming, has no newline and is no comment.\<close>

lemma escape_line: "CHR 0x0A \<notin> set (escape v)"
  by (induction v) auto

lemma valid_no_newline: "is_valid_label_name k \<Longrightarrow> CHR 0x0A \<notin> set k"
proof
  assume k: "is_valid_label_name k" and n: "CHR 0x0A \<in> set k"
  have "\<not> is_label_name_byte CHR 0x0A" "\<not> is_label_name_start_byte CHR 0x0A" by code_simp+
  with k n show False by (cases k) (auto simp: list_all_iff)
qed

lemma labels_line: "\<forall>kv \<in> set kvs. is_valid_label_name (fst kv) \<Longrightarrow> CHR 0x0A \<notin> set (labels_text kvs)"
proof (induction kvs rule: labels_text.induct)
  case (2 kv)
  have "CHR 0x0A \<notin> set (fst kv)" using 2 valid_no_newline by simp
  then show ?case using escape_line by (simp add: label_text_def)
next
  case (3 kv kv' kvs)
  have "CHR 0x0A \<notin> set (fst kv)" using 3(2) valid_no_newline by simp
  then show ?case using 3 escape_line by (simp add: label_text_def)
qed simp

section \<open>An exposition\<close>

definition family_lines :: "(int \<Rightarrow> string) \<Rightarrow> encoded_family \<Rightarrow> string list" where
  "family_lines pr f =
     (''# HELP '' @ ef_name f @ '' '' @ escape (ef_help f)) # (''# TYPE '' @ ef_name f @ '' gauge'')
     # map (\<lambda>(pairs, v). sample_text (ef_name f) pairs (pr v)) (ef_series f)"

definition exposition_text :: "(int \<Rightarrow> string) \<Rightarrow> encoded_family list \<Rightarrow> string" where
  "exposition_text pr fs = concat (map (\<lambda>l. l @ [CHR 0x0A]) (concat (map (family_lines pr) fs) @ [''# EOF'']))"

definition samples_of :: "(int \<Rightarrow> 'r) \<Rightarrow> encoded_family \<Rightarrow> 'r sample list" where
  "samples_of num f = map (\<lambda>(pairs, v). \<lparr>sa_name = ef_name f, sa_labels = pairs, sa_value = Finite (num v)\<rparr>) (ef_series f)"

definition family_ok :: "encoded_family \<Rightarrow> bool" where
  "family_ok f \<longleftrightarrow> is_metric_name (ef_name f) \<and> CHR 0x0D \<notin> set (ef_help f)
     \<and> (\<forall>(pairs, v) \<in> set (ef_series f). bt_ok pairs \<and> (\<forall>kv \<in> set pairs. is_valid_label_name (fst kv)))"

lemma lines_of_line: "CHR 0x0A \<notin> set l \<Longrightarrow> lines_of acc (l @ CHR 0x0A # s) =
    (if acc @ l \<noteq> [] \<and> last (acc @ l) = CHR 0x0D then butlast (acc @ l) else acc @ l) # lines_of [] s"
  by (induction l arbitrary: acc) auto

lemma lines_of_lines: "\<forall>l \<in> set ls. CHR 0x0A \<notin> set l \<and> l \<noteq> [] \<and> last l \<noteq> CHR 0x0D \<Longrightarrow> lines_of [] (concat (map (\<lambda>l. l @ [CHR 0x0A]) ls)) = ls"
  by (induction ls) (simp_all add: lines_of_line)

abbreviation blank :: "char \<Rightarrow> bool" where
  "blank c \<equiv> c = CHR '' '' \<or> c = CHR 0x09"

lemma solid_not_blank: "solid c \<Longrightarrow> \<not> blank c \<and> c \<noteq> CHR 0x0A \<and> c \<noteq> CHR 0x0D"
  by (auto simp: solid_def white_space_def)

lemma dropWhile_keeps: "dropWhile P ys = ys \<Longrightarrow> \<exists>z. dropWhile P (xs @ ys) = z @ ys"
  by (induction xs) auto

lemma trim_blanks_keeps: "s \<noteq> [] \<Longrightarrow> \<not> blank (hd s) \<Longrightarrow> \<not> blank (last s) \<Longrightarrow> \<exists>y. trim_blanks (s @ x) = s @ y"
proof -
  assume s: "s \<noteq> []" "\<not> blank (hd s)" "\<not> blank (last s)"
  have d: "dropWhile blank (s @ x) = s @ x" using s(1,2) by (cases s) auto
  have r: "dropWhile blank (rev s) = rev s" using s(1,3) by (simp add: dropWhile_eq_self_iff [THEN iffD2] hd_rev)
  obtain y where "dropWhile blank (rev x @ rev s) = y @ rev s" using dropWhile_keeps [OF r] by blast
  then have "trim_blanks (s @ x) = s @ rev y" using d by (simp add: trim_blanks_def)
  then show ?thesis by blast
qed

lemma trim_blanks_same: "s \<noteq> [] \<Longrightarrow> \<not> blank (hd s) \<Longrightarrow> \<not> blank (last s) \<Longrightarrow> trim_blanks s = s"
  by (simp add: trim_blanks_def dropWhile_eq_self_iff [THEN iffD2] hd_rev)

definition number_char :: "char \<Rightarrow> bool" where
  "number_char c \<longleftrightarrow> is_ascii_digit c \<or> c \<in> set ''.eE+-''"

definition reads_back :: "(string \<Rightarrow> 'r option) \<Rightarrow> (int \<Rightarrow> 'r) \<Rightarrow> (int \<Rightarrow> string) \<Rightarrow> int \<Rightarrow> bool" where
  "reads_back decimal num pr v \<longleftrightarrow> pr v \<noteq> [] \<and> list_all number_char (pr v) \<and> decimal (pr v) = Some (num v)"

lemma number_solid: "number_char c \<Longrightarrow> solid c"
  by (auto simp: number_char_def solid_def white_space_def is_ascii_digit_def)

lemma reads_back_text: "reads_back decimal num pr v \<Longrightarrow> pr v \<noteq> [] \<and> list_all solid (pr v)"
  using number_solid by (auto simp: reads_back_def list_all_iff)

lemma not_named:
  assumes "list_all number_char s" and "d \<in> {CHR ''i'', CHR ''n''}"
  shows "\<not> eq_ignore_ascii_case s (d # t)"
proof (cases s)
  case (Cons c u)
  then have c: "number_char c" using assms(1) by simp
  have e: "to_ascii_lowercase_char CHR ''E'' = CHR ''e''" "to_ascii_lowercase_char CHR ''i'' = CHR ''i''" "to_ascii_lowercase_char CHR ''n'' = CHR ''n''" by code_simp+
  have "c = CHR ''E'' \<or> to_ascii_lowercase_char c = c"
    using c by (auto simp: number_char_def to_ascii_lowercase_char_def is_ascii_digit_def is_ascii_uppercase_def)
  moreover have "c \<noteq> CHR ''i''" "c \<noteq> CHR ''n''" using c by (auto simp: number_char_def is_ascii_digit_def)
  ultimately show ?thesis using Cons assms(2) e by (auto simp: eq_ignore_ascii_case_def to_ascii_lowercase_def)
qed (simp add: eq_ignore_ascii_case_def to_ascii_lowercase_def)

lemma read_number:
  assumes "reads_back decimal num pr v"
  shows "parse_value decimal (pr v) = Some (Finite (num v))"
proof -
  have a: "list_all number_char (pr v)" and d: "decimal (pr v) = Some (num v)" using assms by (simp_all add: reads_back_def)
  define u where "u = (case strip_prefix ''+'' (pr v) of Some u \<Rightarrow> u | None \<Rightarrow> (case strip_prefix ''-'' (pr v) of Some u \<Rightarrow> u | None \<Rightarrow> pr v))"
  have "set u \<subseteq> set (pr v)" by (auto simp: u_def strip_prefix_def split: option.splits if_splits dest: in_set_dropD)
  then have "list_all number_char u" using a by (auto simp: list_all_iff)
  then have "\<not> eq_ignore_ascii_case u ''inf''" "\<not> eq_ignore_ascii_case u ''infinity''" "\<not> eq_ignore_ascii_case (pr v) ''nan''"
    using not_named a by simp_all
  then show ?thesis using a d by (simp add: parse_value_def Let_def u_def [symmetric] number_char_def [abs_def])
qed

lemma name_chars: "is_metric_name s \<Longrightarrow> list_all solid s"
proof -
  assume s: "is_metric_name s"
  then obtain c t where k: "s = c # t" by (cases s) (auto simp: is_metric_name_def)
  then have "is_name_char c True" "\<forall>x \<in> set t. is_name_char x False"
    using s by (auto simp: is_metric_name_def prefix_of_def takeWhile_eq_all_conv split: if_splits)
  then show ?thesis using k name_solid by (auto simp: list_all_iff)
qed

lemma sample_line:
  assumes "is_metric_name name" and "\<forall>kv \<in> set pairs. is_valid_label_name (fst kv)" and "w \<noteq> [] \<and> list_all solid w"
  shows "CHR 0x0A \<notin> set (sample_text name pairs w)" "trim_blanks (sample_text name pairs w) = sample_text name pairs w"
    "strip_prefix ''#'' (sample_text name pairs w) = None" "sample_text name pairs w \<noteq> []" "last (sample_text name pairs w) \<noteq> CHR 0x0D"
proof -
  let ?t = "sample_text name pairs w"
  obtain c s where n: "name = c # s" using assms(1) by (cases name) (auto simp: is_metric_name_def)
  have c: "is_name_char c True" using assms(1) n by (auto simp: is_metric_name_def prefix_of_def split: if_splits)
  have h: "hd ?t = c" "?t \<noteq> []" "last ?t = last w" using n assms(3) by (simp_all add: sample_text_def)
  have l: "solid (last w)" using assms(3) by (simp add: list_all_iff)
  show "CHR 0x0A \<notin> set ?t"
    using name_chars [OF assms(1)] assms(3) labels_line [OF assms(2)] solid_not_blank by (auto simp: sample_text_def list_all_iff)
  show "trim_blanks ?t = ?t" using h l solid_not_blank [OF name_solid [OF c]] solid_not_blank [OF l] by (intro trim_blanks_same) auto
  show "strip_prefix ''#'' ?t = None" using c n by (auto simp: strip_prefix_def starts_with_def sample_text_def is_name_char_def is_ascii_alphabetic_def is_ascii_uppercase_def is_ascii_lowercase_def)
  show "?t \<noteq> []" "last ?t \<noteq> CHR 0x0D" using h solid_not_blank [OF l] by auto
qed

text \<open>The comments of a family: its help is passed over, its type is a gauge.\<close>

lemma help_line:
  assumes "is_metric_name name"
  shows "parse_lines decimal i types samples ((''# HELP '' @ name @ '' '' @ h) # ls) = parse_lines decimal (Suc i) types samples ls"
proof -
  have n: "name \<noteq> []" "list_all solid name" using assms name_chars by (auto simp: is_metric_name_def)
  then have "solid (last name)" by (simp add: list_all_iff)
  then have "\<not> blank (last (''# HELP '' @ name))" using n solid_not_blank by fastforce
  then obtain y where y: "trim_blanks ((''# HELP '' @ name) @ '' '' @ h) = (''# HELP '' @ name) @ y"
    using trim_blanks_keeps [of "''# HELP '' @ name" "'' '' @ h"] by auto
  have s: "list_all solid ''HELP''" by code_simp
  have "split_whitespace ('' HELP '' @ name @ y) = ''HELP'' # split_whitespace ('' '' @ name @ y)"
    using split_words [of "''HELP''" "name @ y"] s by simp
  then show ?thesis using y by (simp add: strip_prefix_def starts_with_def)
qed

lemma type_line:
  assumes "is_metric_name name" and "kind \<noteq> []" and "list_all solid kind"
  shows "parse_lines decimal i types samples ((''# TYPE '' @ name @ '' '' @ kind) # ls) = parse_lines decimal (Suc i) (hput name kind types) samples ls"
proof -
  have n: "name \<noteq> []" "list_all solid name" using assms name_chars by (auto simp: is_metric_name_def)
  have s: "list_all solid ''TYPE''" by code_simp
  have l: "\<not> blank (last kind)" using assms(2,3) solid_not_blank by (auto simp: list_all_iff)
  have "split_whitespace ('' TYPE '' @ name @ '' '' @ kind) = [''TYPE'', name, kind]"
    using split_words [of "''TYPE''" "name @ '' '' @ kind"] split_words [OF n, of kind] split_word [OF assms(2,3)] s by simp
  moreover have "trim_blanks (''# TYPE '' @ name @ '' '' @ kind) = ''# TYPE '' @ name @ '' '' @ kind" using assms(2) l by (intro trim_blanks_same) simp_all
  ultimately show ?thesis by (simp add: strip_prefix_def starts_with_def)
qed

lemma gauge_type_line:
  assumes "is_metric_name name"
  shows "parse_lines decimal i types samples ((''# TYPE '' @ name @ '' gauge'') # ls) = parse_lines decimal (Suc i) (hput name ''gauge'' types) samples ls"
proof -
  have "list_all solid ''gauge''" by code_simp
  then show ?thesis using type_line [OF assms, of "''gauge''"] by (simp del: parse_lines.simps)
qed

lemma eof_line: "parse_lines decimal i types samples [''# EOF''] = Inr samples"
proof -
  have "split_whitespace '' EOF'' = [''EOF'']" using split_word [of "''EOF''"] by (simp add: solid_def white_space_def)
  moreover have "trim_blanks ''# EOF'' = ''# EOF''" by (rule trim_blanks_same) simp_all
  ultimately show ?thesis by (simp add: strip_prefix_def starts_with_def)
qed

lemma gauges_not_skipped: "\<forall>kind \<in> snd ` set types. kind = ''gauge'' \<Longrightarrow> \<not> is_skipped types name"
proof -
  assume g: "\<forall>kind \<in> snd ` set types. kind = ''gauge''"
  have k: "kind = ''gauge''" if "hget types family = Some kind" for family kind using g map_of_SomeD [OF that] by force
  have "hget types family \<notin> {Some ''histogram'', Some ''summary''}" for family using k [of family] by auto
  then show ?thesis by (simp add: is_skipped_def list_ex_iff)
qed

lemma hput_kinds: "snd ` set (hput k v m) \<subseteq> insert v (snd ` set m)"
  by (induction m) auto

lemma series_lines:
  assumes "is_metric_name name" and "\<forall>(pairs, v) \<in> set series. bt_ok pairs \<and> (\<forall>kv \<in> set pairs. is_valid_label_name (fst kv)) \<and> reads_back decimal num pr v"
    and "\<forall>kind \<in> snd ` set types. kind = ''gauge''"
  shows "parse_lines decimal i types samples (map (\<lambda>(pairs, v). sample_text name pairs (pr v)) series @ ls) =
    parse_lines decimal (i + length series) types (samples @ map (\<lambda>(pairs, v). \<lparr>sa_name = name, sa_labels = pairs, sa_value = Finite (num v)\<rparr>) series) ls"
  using assms(2)
proof (induction series arbitrary: i samples)
  case (Cons x series)
  obtain pairs v where x: "x = (pairs, v)" by (cases x)
  have p: "bt_ok pairs" "\<forall>kv \<in> set pairs. is_valid_label_name (fst kv)" "reads_back decimal num pr v" using Cons.prems x by auto
  note line = sample_line [OF assms(1) p(2) reads_back_text [OF p(3)]]
  have "parse_sample decimal (sample_text name pairs (pr v)) = Inr \<lparr>sa_name = name, sa_labels = pairs, sa_value = Finite (num v)\<rparr>"
    using read_sample [OF assms(1) p(1,2) _ _ read_number [OF p(3)]] reads_back_text [OF p(3)] by simp
  then show ?case using Cons line gauges_not_skipped [OF assms(3)] x by simp
qed simp

lemma families_lines:
  assumes "\<forall>f \<in> set fs. family_ok f \<and> (\<forall>(pairs, v) \<in> set (ef_series f). reads_back decimal num pr v)"
    and "\<forall>kind \<in> snd ` set types. kind = ''gauge''"
  shows "parse_lines decimal i types samples (concat (map (family_lines pr) fs) @ [''# EOF'']) = Inr (samples @ concat (map (samples_of num) fs))"
  using assms
proof (induction fs arbitrary: i types samples)
  case Nil
  then show ?case using eof_line by (simp del: parse_lines.simps)
next
  case (Cons f fs)
  have f: "is_metric_name (ef_name f)"
    "\<forall>(pairs, v) \<in> set (ef_series f). bt_ok pairs \<and> (\<forall>kv \<in> set pairs. is_valid_label_name (fst kv)) \<and> reads_back decimal num pr v"
    using Cons.prems(1) by (auto simp: family_ok_def)
  let ?types = "hput (ef_name f) ''gauge'' types"
  have g: "\<forall>kind \<in> snd ` set ?types. kind = ''gauge''" using Cons.prems(2) hput_kinds [of "ef_name f" "''gauge''" types] by blast
  have "parse_lines decimal i types samples (family_lines pr f @ ls) = parse_lines decimal (Suc (Suc i) + length (ef_series f)) ?types (samples @ samples_of num f) ls" for ls
  proof -
    have "family_lines pr f @ ls = (''# HELP '' @ ef_name f @ '' '' @ escape (ef_help f)) # (''# TYPE '' @ ef_name f @ '' gauge'')
        # map (\<lambda>(pairs, v). sample_text (ef_name f) pairs (pr v)) (ef_series f) @ ls" by (simp add: family_lines_def)
    then show ?thesis using series_lines [OF f g] by (simp only: help_line [OF f(1)] gauge_type_line [OF f(1)] samples_of_def)
  qed
  then show ?case using Cons.IH [OF _ g] Cons.prems(1) by (simp del: parse_lines.simps)
qed

lemma escape_last: "CHR 0x0D \<notin> set v \<Longrightarrow> CHR 0x0D \<notin> set (escape v)"
  by (induction v) auto

lemma family_line_ok:
  assumes "family_ok f" and "\<forall>(pairs, v) \<in> set (ef_series f). reads_back decimal num pr v" and "l \<in> set (family_lines pr f)"
  shows "CHR 0x0A \<notin> set l \<and> l \<noteq> [] \<and> last l \<noteq> CHR 0x0D"
proof -
  have n: "is_metric_name (ef_name f)" and h: "CHR 0x0D \<notin> set (escape (ef_help f))" using assms(1) escape_last by (auto simp: family_ok_def)
  have c: "CHR 0x0A \<notin> set (ef_name f)" using name_chars [OF n] solid_not_blank by (auto simp: list_all_iff)
  have e: "last ('' '' @ escape (ef_help f)) \<noteq> CHR 0x0D" using h by (cases "escape (ef_help f) = []") (auto dest: last_in_set)
  consider "l = ''# HELP '' @ ef_name f @ '' '' @ escape (ef_help f)" | "l = ''# TYPE '' @ ef_name f @ '' gauge''"
    | pairs v where "l = sample_text (ef_name f) pairs (pr v)" "\<forall>kv \<in> set pairs. is_valid_label_name (fst kv)" "reads_back decimal num pr v"
    using assms by (fastforce simp: family_lines_def family_ok_def)
  then show ?thesis
  proof cases
    case 1
    then have "last l = last ('' '' @ escape (ef_help f))" by simp
    then show ?thesis using 1 c e escape_line by simp
  next
    case 2
    then show ?thesis using c by simp
  next
    case 3
    then show ?thesis using sample_line [OF n 3(2) reads_back_text [OF 3(3)]] by simp
  qed
qed

section \<open>Properties\<close>

lemma desc_pairs_sorted:
  assumes "distinct (desc_label_names d)"
  shows "bt_ok (desc_pairs d vs)"
proof -
  let ?z = "zip (desc_label_names d) vs"
  have m: "map fst ?z = take (length vs) (desc_label_names d)" by (simp add: map_fst_zip_take min_def)
  have "distinct (map fst ?z)" using assms unfolding m by simp
  then have "distinct (map fst (sort ?z))" by (simp add: distinct_map)
  moreover have "sorted_wrt (\<lambda>x y. fst x \<le> fst y) (sort ?z)"
    by (rule sorted_wrt_mono_rel [OF _ sorted_sort]) (auto simp: less_eq_prod_def)
  then have "sorted (map fst (sort ?z))" by (simp add: sorted_map)
  ultimately show ?thesis by (simp add: bt_ok_def desc_pairs_def strict_sorted_iff)
qed

lemma desc_pairs_valid:
  "list_all is_valid_label_name (desc_label_names d) \<Longrightarrow> \<forall>kv \<in> set (desc_pairs d vs). is_valid_label_name (fst kv)"
  by (auto simp: desc_pairs_def list_all_iff dest: set_zip_leftD)

text \<open>Two series of one family whose labels include each other are one.\<close>

lemma desc_pairs_include:
  assumes "distinct (desc_label_names d)" and "length a = length (desc_label_names d)" and "length b = length (desc_label_names d)"
  shows "labels_include (desc_pairs d a) (desc_pairs d b) \<longleftrightarrow> a = b"
proof
  assume inc: "labels_include (desc_pairs d a) (desc_pairs d b)"
  have "a ! i = b ! i" if i: "i < length a" for i
  proof -
    let ?k = "desc_label_names d ! i"
    have "(?k, b ! i) \<in> set (desc_pairs d b)" using i assms(2,3) by (auto simp: desc_pairs_def in_set_zip)
    then have "map_of (desc_pairs d a) ?k = Some (b ! i)" using inc by (auto simp: labels_include_def list_all_iff)
    then have "(?k, b ! i) \<in> set (zip (desc_label_names d) a)" by (auto simp: desc_pairs_def dest: map_of_SomeD)
    then obtain j where "j < length a" "desc_label_names d ! j = ?k" "a ! j = b ! i" using assms(2) by (auto simp: in_set_zip)
    then show ?thesis using assms(1,2) i by (metis nth_eq_iff_index_eq)
  qed
  then show "a = b" using assms(2,3) by (intro nth_equalityI) auto
next
  assume "a = b"
  moreover have "distinct (map fst (zip (desc_label_names d) b))" using assms(1) by (simp add: map_fst_zip_take)
  then have "distinct (map fst (desc_pairs d b))" by (simp add: desc_pairs_def distinct_map)
  ultimately show "labels_include (desc_pairs d a) (desc_pairs d b)" by (auto simp: labels_include_def list_all_iff)
qed

lemma filter_one: "distinct (map fst m) \<Longrightarrow> (k, v) \<in> set m \<Longrightarrow> filter (\<lambda>x. fst x = k) m = [(k, v)]"
  by (induction m) (auto simp: filter_empty_conv rev_image_eqI)

text \<open>A gauge the format can carry, and what a scrape reads of it.\<close>

definition gauge_readable :: "gauge_vec \<Rightarrow> bool" where
  "gauge_readable g \<longleftrightarrow> is_metric_name (desc_name (gv_desc g)) \<and> CHR 0x0D \<notin> set (desc_help (gv_desc g))
     \<and> distinct (desc_label_names (gv_desc g)) \<and> list_all is_valid_label_name (desc_label_names (gv_desc g)) \<and> bt_ok (gv_children g)
     \<and> (\<forall>(vs, v) \<in> set (gv_children g). length vs = length (desc_label_names (gv_desc g)))"

definition gauge_samples :: "(int \<Rightarrow> 'r) \<Rightarrow> gauge_vec \<Rightarrow> 'r sample list" where
  "gauge_samples num g =
     map (\<lambda>(vs, v). \<lparr>sa_name = desc_name (gv_desc g), sa_labels = desc_pairs (gv_desc g) vs, sa_value = Finite (num v)\<rparr>) (gv_children g)"

definition family_reads :: "(string \<Rightarrow> 'r option) \<Rightarrow> (int \<Rightarrow> 'r) \<Rightarrow> (int \<Rightarrow> string) \<Rightarrow> encoded_family \<Rightarrow> bool" where
  "family_reads decimal num pr f \<longleftrightarrow> family_ok f \<and> (\<forall>(pairs, v) \<in> set (ef_series f). reads_back decimal num pr v)"

lemma exposition_read:
  assumes "\<forall>f \<in> set fs. family_reads decimal num pr f"
  shows "scrape_parse decimal (exposition_text pr fs) = Inr (concat (map (samples_of num) fs))"
proof -
  have ok: "\<forall>f \<in> set fs. family_ok f \<and> (\<forall>(pairs, v) \<in> set (ef_series f). reads_back decimal num pr v)" using assms by (simp add: family_reads_def)
  then have line: "CHR 0x0A \<notin> set l \<and> l \<noteq> [] \<and> last l \<noteq> CHR 0x0D" if "f \<in> set fs" "l \<in> set (family_lines pr f)" for f l
    using family_line_ok [of f decimal num pr l] that by blast
  then have "\<forall>l \<in> set (concat (map (family_lines pr) fs) @ [''# EOF'']). CHR 0x0A \<notin> set l \<and> l \<noteq> [] \<and> last l \<noteq> CHR 0x0D" by auto
  note lines = lines_of_lines [OF this]
  show ?thesis using families_lines [OF ok, of "[]" 0 "[]"] lines by (simp add: scrape_parse_def exposition_text_def)
qed

lemma gauge_encoded:
  assumes "gauge_readable g" and "\<forall>(vs, v) \<in> set (gv_children g). reads_back decimal num pr v"
  shows "\<forall>f \<in> set (gv_encode g). family_reads decimal num pr f" "concat (map (samples_of num) (gv_encode g)) = gauge_samples num g"
proof -
  show "\<forall>f \<in> set (gv_encode g). family_reads decimal num pr f"
    using assms desc_pairs_sorted [of "gv_desc g"] desc_pairs_valid [of "gv_desc g"] by (auto simp: gauge_readable_def gv_encode_def encode_gauge_family_def family_reads_def family_ok_def)
  show "concat (map (samples_of num) (gv_encode g)) = gauge_samples num g"
    by (simp add: gv_encode_def encode_gauge_family_def samples_of_def gauge_samples_def split_def)
qed

lemma other_names: "\<forall>f \<in> set fs. ef_name f \<noteq> name \<Longrightarrow> scrape_find (concat (map (samples_of num) fs)) name l = []"
  by (auto simp: scrape_find_def filter_empty_conv samples_of_def)

lemma gauge_found:
  fixes num :: "int \<Rightarrow> 'r"
  assumes "gauge_readable g" and "\<forall>f \<in> set (pre @ post). ef_name f \<noteq> desc_name (gv_desc g)"
    and samples_def: "samples = concat (map (samples_of num) pre) @ gauge_samples num g @ concat (map (samples_of num) post)"
  shows "scrape_find samples (desc_name (gv_desc g)) [] = gauge_samples num g"
    "(vs, v) \<in> set (gv_children g) \<Longrightarrow> scrape_value samples (desc_name (gv_desc g)) (desc_pairs (gv_desc g) vs) = Some (Finite (num v))"
proof -
  have only: "scrape_find samples (desc_name (gv_desc g)) l = scrape_find (gauge_samples num g) (desc_name (gv_desc g)) l" for l
    using other_names [of pre "desc_name (gv_desc g)" num l] other_names [of post "desc_name (gv_desc g)" num l] assms(2)
    by (simp add: samples_def scrape_find_def)
  show "scrape_find samples (desc_name (gv_desc g)) [] = gauge_samples num g"
    unfolding only by (auto simp: scrape_find_def gauge_samples_def labels_include_def intro!: filter_True)
  assume c: "(vs, v) \<in> set (gv_children g)"
  have len: "length (fst x) = length (desc_label_names (gv_desc g))" if "x \<in> set (gv_children g)" for x using assms(1) that by (auto simp: gauge_readable_def)
  have d: "distinct (desc_label_names (gv_desc g))" "bt_ok (gv_children g)" using assms(1) by (simp_all add: gauge_readable_def)
  have "filter (\<lambda>x. labels_include (desc_pairs (gv_desc g) (fst x)) (desc_pairs (gv_desc g) vs)) (gv_children g) = filter (\<lambda>x. fst x = vs) (gv_children g)"
    using desc_pairs_include [OF d(1) len len] c by (intro filter_cong) force+
  also have "\<dots> = [(vs, v)]" by (rule filter_one [OF bt_ok_distinct [OF d(2)] c])
  finally show "scrape_value samples (desc_name (gv_desc g)) (desc_pairs (gv_desc g) vs) = Some (Finite (num v))"
    unfolding scrape_value_def only by (simp add: scrape_find_def gauge_samples_def filter_map comp_def split_def)
qed

text \<open>The labels a series is looked up by are the ones it is printed with.\<close>

lemma desc_pairs_fits:
  assumes "distinct (desc_label_names d)" and "fits (desc_label_names d) labels"
  shows "desc_pairs d (map (\<lambda>n. the (map_of labels n)) (desc_label_names d)) = labels"
proof -
  let ?p = "desc_pairs d (map (\<lambda>n. the (map_of labels n)) (desc_label_names d))"
  have l: "bt_ok labels" "set (map fst labels) = set (desc_label_names d)" using assms(2) by (simp_all add: fits_def)
  have z: "set ?p = (\<lambda>n. (n, the (map_of labels n))) ` set (desc_label_names d)" by (auto simp: desc_pairs_def zip_map2 zip_same_conv_map)
  have v: "map_of labels (fst kv) = Some (snd kv)" if "kv \<in> set labels" for kv using map_of_is_SomeI [OF bt_ok_distinct [OF l(1)], of "fst kv" "snd kv"] that by simp
  have "set labels = (\<lambda>n. (n, the (map_of labels n))) ` fst ` set labels" using v by (force simp: image_iff)
  then have "set ?p = set labels" unfolding z l(2) [symmetric] by simp
  moreover have "sorted (map fst m)" if "bt_ok m" for m :: "(string, string) btree" using that by (simp add: bt_ok_def strict_sorted_iff)
  moreover have "bt_ok ?p" by (rule desc_pairs_sorted [OF assms(1)])
  ultimately show ?thesis using bt_ok_distinct [OF l(1)] bt_ok_distinct [of ?p] l(1)
    by (intro map_sorted_distinct_set_unique [of fst]) (auto simp: distinct_map)
qed

lemma gauge_series:
  assumes "gauge_ok names g" and "fits names labels" and "gv_get_with g labels = Some v"
  shows "\<exists>vs. (vs, v) \<in> set (gv_children g) \<and> desc_pairs (gv_desc g) vs = labels"
proof -
  have n: "desc_label_names (gv_desc g) = names" "distinct names" using assms(1) by (simp_all add: gauge_ok_def)
  have "values_in_order (gv_desc g) labels = Inr (map (\<lambda>n. the (map_of labels n)) names)" using fits_values [of "gv_desc g" labels] assms(2) n by simp
  then have "(map (\<lambda>n. the (map_of labels n)) names, v) \<in> set (gv_children g)" using assms(3) by (auto simp: gv_get_with_def dest: map_of_SomeD)
  then show ?thesis using desc_pairs_fits [of "gv_desc g" labels] assms(2) n by blast
qed

lemma replica_gauges_readable:
  assumes "custom_ok cls" and "gauges_ok cls g"
  shows "gauge_readable (rg_desired g)" "gauge_readable (rg_schedulable g)"
    "desc_name (gv_desc (rg_desired g)) = ''swarm_service_desired_replicas''" "desc_name (gv_desc (rg_schedulable g)) = ''swarm_service_schedulable_replicas''"
proof -
  have d: "gv_desc (rg_desired g) = gv_desc (rg_desired (replica_gauges_new cls))" "gv_desc (rg_schedulable g) = gv_desc (rg_schedulable (replica_gauges_new cls))"
    using assms(2) by (simp_all add: gauges_ok_def)
  then show n: "desc_name (gv_desc (rg_desired g)) = ''swarm_service_desired_replicas''" "desc_name (gv_desc (rg_schedulable g)) = ''swarm_service_schedulable_replicas''"
    by (simp_all add: replica_gauges_new_def gv_new_def Let_def)
  have h: "CHR 0x0D \<notin> set (desc_help (gv_desc (rg_desired g)))" "CHR 0x0D \<notin> set (desc_help (gv_desc (rg_schedulable g)))"
    using d by (simp_all add: replica_gauges_new_def gv_new_def Let_def DESIRED_REPLICAS_HELP_def SCHEDULABLE_REPLICAS_HELP_def)
  have m: "is_metric_name ''swarm_service_desired_replicas''" "is_metric_name ''swarm_service_schedulable_replicas''" by code_simp+
  have l: "list_all is_valid_label_name (base_label_names cls)" by (rule base_label_names_valid [OF assms(1)])
  show "gauge_readable (rg_desired g)" "gauge_readable (rg_schedulable g)"
    using assms(2) h m l unfolding gauge_readable_def n gauges_ok_def gauge_ok_def by (auto simp: list_all_iff)
qed

text \<open>
  What the tests read is what the exporter encodes. Whatever the label values hold (quotes,
  backslashes, newlines, braces, any Unicode) and among whatever other families, reading the text of a
  gauge family back yields exactly its series, in order: the labels with their names sorted, and the
  value; and asking the scrape for the value of one series by its labels finds it.
\<close>

theorem scrape_reads_gauges:
  assumes "gauge_readable g" and "\<forall>(vs, v) \<in> set (gv_children g). reads_back decimal num pr v"
    and "\<forall>f \<in> set (pre @ post). family_reads decimal num pr f \<and> ef_name f \<noteq> desc_name (gv_desc g)"
  shows "\<exists>samples. scrape_parse decimal (exposition_text pr (pre @ gv_encode g @ post)) = Inr samples
    \<and> scrape_find samples (desc_name (gv_desc g)) [] = gauge_samples num g
    \<and> (\<forall>(vs, v) \<in> set (gv_children g). scrape_value samples (desc_name (gv_desc g)) (desc_pairs (gv_desc g) vs) = Some (Finite (num v)))"
proof -
  have "scrape_parse decimal (exposition_text pr (pre @ gv_encode g @ post)) =
      Inr (concat (map (samples_of num) pre) @ gauge_samples num g @ concat (map (samples_of num) post))"
    using exposition_read [of "pre @ gv_encode g @ post" decimal num pr] gauge_encoded [OF assms(1,2)] assms(3) by auto
  then show ?thesis using gauge_found [OF assms(1) _ refl, where pre = pre and post = post and num = num] assms(3) by auto
qed

definition example_gauge :: gauge_vec where
  "example_gauge = \<lparr>gv_desc = \<lparr>desc_name = ''up'', desc_help = ''Help.'', desc_label_names = [''stack'', ''a'']\<rparr>,
     gv_children = [([''x'', [CHR 0x22, CHR 0x5C, CHR 0x0A]], 2)]\<rparr>"

theorem scrape_reads_gauges_witness:
  "\<exists>samples :: int sample list. scrape_parse (\<lambda>s. if s = ''2.0'' then Some 2 else None) (exposition_text (\<lambda>v. int_text v @ ''.0'') (gv_encode example_gauge)) = Inr samples
     \<and> scrape_value samples ''up'' [(''a'', [CHR 0x22, CHR 0x5C, CHR 0x0A]), (''stack'', ''x'')] = Some (Finite 2)"
proof -
  let ?d = "\<lambda>s. if s = ''2.0'' then Some (2 :: int) else None" and ?pr = "\<lambda>v. int_text v @ ''.0''"
  have n: "is_metric_name (desc_name (gv_desc example_gauge))" by (simp add: is_metric_name_def prefix_of_def is_name_char_def example_gauge_def is_ascii_alphabetic_def is_ascii_lowercase_def)
  have l: "distinct (desc_label_names (gv_desc example_gauge))" "list_all is_valid_label_name (desc_label_names (gv_desc example_gauge))"
    "bt_ok (gv_children example_gauge)" by code_simp+
  have g: "gauge_readable example_gauge" using n l by (simp add: gauge_readable_def example_gauge_def)
  have i: "int_text 2 = ''2''" by code_simp
  have v: "\<forall>(vs, v) \<in> set (gv_children example_gauge). reads_back ?d (\<lambda>v. v) ?pr v"
    using i by (simp add: example_gauge_def reads_back_def number_char_def is_ascii_digit_def)
  have p: "desc_pairs (gv_desc example_gauge) [''x'', [CHR 0x22, CHR 0x5C, CHR 0x0A]] = [(''a'', [CHR 0x22, CHR 0x5C, CHR 0x0A]), (''stack'', ''x'')]" by code_simp
  have c: "gv_children example_gauge = [([''x'', [CHR 0x22, CHR 0x5C, CHR 0x0A]], 2)]" "desc_name (gv_desc example_gauge) = ''up''" by (simp_all add: example_gauge_def)
  from scrape_reads_gauges [OF g v, of "[]" "[]"] show ?thesis unfolding c(2) using p c(1) by auto
qed

end
