(* ===== verification/Registry.thy ===== *)
theory Registry
  imports Startup Metrics_Text
begin

text \<open>
  What the process registers for a scrape: \<^verbatim>\<open>register_metrics\<close> of \<^verbatim>\<open>src/src/run.rs\<close> with the \<^verbatim>\<open>register\<close> of every
  collector, and the exporter's own families of \<^verbatim>\<open>collector/exporter_metrics.rs\<close>. The registry is the client
  library's; it is the list of what it was given, in order. It checks nothing itself, so that two
  families of one name would make an exposition no scraper accepts.
\<close>

section \<open>Definitions\<close>

datatype metric_type = GaugeType | CounterType | HistogramType

record registered_family =
  rf_type :: metric_type
  rf_name :: string
  rf_help :: string
  rf_labels :: "string list"

definition gauge_family :: "desc \<Rightarrow> registered_family" where
  "gauge_family d = \<lparr>rf_type = GaugeType, rf_name = desc_name d, rf_help = desc_help d, rf_labels = desc_label_names d\<rparr>"

definition scrape_gauge_family :: "'env scrape_gauge \<Rightarrow> registered_family" where
  "scrape_gauge_family g = \<lparr>rf_type = GaugeType, rf_name = sg_name g, rf_help = sg_help g, rf_labels = []\<rparr>"

subsection \<open>The exporter's own families\<close>

definition POLL_DURATION_HELP :: string where "POLL_DURATION_HELP = ''Duration of replicas-state polling, in seconds.''"
definition POLLS_HELP :: string where "POLLS_HELP = ''Total number of replicas-state polls attempted.''"
definition POLL_ERRORS_HELP :: string where "POLL_ERRORS_HELP = ''Total number of replicas-state polls that resulted in error.''"
definition EVENTS_RECONNECTS_HELP :: string where "EVENTS_RECONNECTS_HELP = ''Total number of event stream reconnects.''"
definition EVENTS_DROPPED_HELP :: string where
  "EVENTS_DROPPED_HELP = ''Total number of Swarm events dropped because they carried no actor ID.''"
definition POLL_REJECTIONS_HELP :: string where
  "POLL_REJECTIONS_HELP = ''Total number of per-service poll results not published because the service changed while its tasks were being listed.''"
definition RESYNCS_HELP :: string where
  "RESYNCS_HELP = ''Total number of resyncs (service and node list) by result: success or failure.''"
definition LAST_POLL_SUCCESS_HELP :: string where
  "LAST_POLL_SUCCESS_HELP = ''Unix time of the latest successfully published replicas-state poll; 0 if none yet.''"
definition LAST_RESYNC_SUCCESS_HELP :: string where
  "LAST_RESYNC_SUCCESS_HELP = ''Unix time of the latest completed resync (service and node list); 0 if none yet.''"

text \<open>The library ends a registered help with a full stop of its own.\<close>

definition registry_help :: "string \<Rightarrow> string" where
  "registry_help help = unwrap_or (strip_suffix ''.'' help) help"

text \<open>The two timestamp gauges; what they read is divided by a billion when scraped.\<close>

definition unix_nano_timestamp_gauge :: "string \<Rightarrow> string \<Rightarrow> (timestamps \<Rightarrow> int) \<Rightarrow> timestamps scrape_gauge" where
  "unix_nano_timestamp_gauge name help read = \<lparr>sg_name = exporter_name name, sg_help = help, sg_read = read\<rparr>"

definition last_poll_success :: "timestamps scrape_gauge" where
  "last_poll_success = unix_nano_timestamp_gauge ''last_poll_success_timestamp_seconds'' LAST_POLL_SUCCESS_HELP ts_poll_success"

definition last_resync_success :: "timestamps scrape_gauge" where
  "last_resync_success = unix_nano_timestamp_gauge ''last_resync_success_timestamp_seconds'' LAST_RESYNC_SUCCESS_HELP ts_resync_success"

definition exporter_register :: "registered_family list" where
  "exporter_register =
     \<lparr>rf_type = HistogramType, rf_name = exporter_name ''poll_duration_seconds'', rf_help = registry_help POLL_DURATION_HELP, rf_labels = []\<rparr>
     # map (\<lambda>(name, help). \<lparr>rf_type = CounterType, rf_name = exporter_name name, rf_help = registry_help help, rf_labels = []\<rparr>)
         [(''polls'', POLLS_HELP), (''poll_errors'', POLL_ERRORS_HELP), (''events_reconnects'', EVENTS_RECONNECTS_HELP),
          (''events_dropped'', EVENTS_DROPPED_HELP), (''poll_rejections'', POLL_REJECTIONS_HELP)]
     @ [\<lparr>rf_type = CounterType, rf_name = exporter_name ''resyncs'', rf_help = registry_help RESYNCS_HELP, rf_labels = [''result'']\<rparr>,
        scrape_gauge_family last_poll_success, scrape_gauge_family last_resync_success]"

subsection \<open>Every collector\<close>

definition replica_gauges_register :: "replica_gauges \<Rightarrow> registered_family list" where
  "replica_gauges_register g = [gauge_family (gv_desc (rg_desired g)), gauge_family (gv_desc (rg_schedulable g))]"

definition replicas_state_register :: "replicas_state \<Rightarrow> registered_family list" where
  "replicas_state_register rs = map gauge_family (sc_descs (rs_collector rs))"

definition health_gauges_register :: "health_gauges \<Rightarrow> registered_family list" where
  "health_gauges_register g = [scrape_gauge_family (hg_health g), gauge_family (gv_desc (hg_build_info g))]"

definition snapshot_family_register :: "snapshot_family \<Rightarrow> registered_family list" where
  "snapshot_family_register f = [gauge_family (sf_desc f)]"

definition service_update_register :: "service_update_metrics \<Rightarrow> registered_family list" where
  "service_update_register m = map (\<lambda>g. gauge_family (gv_desc g)) [su_state m, su_started m, su_completed m]"

text \<open>The registry after \<^verbatim>\<open>register_metrics\<close> built these.\<close>

definition registry :: "all_metrics \<Rightarrow> registered_family list" where
  "registry m =
     (let co = am_collectors m in
      replica_gauges_register (co_replica_gauges co) @ replicas_state_register (co_replicas_state co) @ health_gauges_register (am_gauges m)
      @ snapshot_family_register (co_nodes_by_state co) @ exporter_register @ service_update_register (co_service_update co)
      @ (case am_containers m of Some cs \<Rightarrow> snapshot_family_register (cst_family cs) | None \<Rightarrow> []))"

section \<open>Properties\<close>

text \<open>The names a family's samples have in the exposition.\<close>

definition sample_names :: "registered_family \<Rightarrow> string list" where
  "sample_names f =
     (case rf_type f of
        GaugeType \<Rightarrow> [rf_name f]
      | CounterType \<Rightarrow> [rf_name f @ ''_total'']
      | HistogramType \<Rightarrow> map (\<lambda>suffix. rf_name f @ suffix) [''_bucket'', ''_sum'', ''_count''])"

definition labels_sound :: "registered_family \<Rightarrow> bool" where
  "labels_sound f \<longleftrightarrow> list_all is_valid_label_name (rf_labels f) \<and> distinct (rf_labels f)"

lemma own_labels_sound:
  "list_all labels_sound exporter_register" "labels_sound (gauge_family nodes_by_state_desc)"
  "list_all is_valid_label_name container_label_names \<and> distinct container_label_names"
  by code_simp+

lemma state_valid: "is_valid_label_name LABEL_STATE"
  by code_simp

lemma build_info_sound:
  assumes "health_gauges_new version commit date = Inr g"
  shows "labels_sound (gauge_family (gv_desc (hg_build_info g)))" "desc_name (gv_desc (hg_build_info g)) = ''swarm_exporter_build_info''"
    "sg_name (hg_health g) = ''swarm_exporter_health''"
proof -
  have l: "list_all is_valid_label_name [''version'', ''commit'', ''date'']" by code_simp
  have g: "gv_desc (hg_build_info g) = \<lparr>desc_name = exporter_name ''build_info'', desc_help = ''Build information for this exporter.'',
      desc_label_names = [''version'', ''commit'', ''date'']\<rparr>" "sg_name (hg_health g) = exporter_name ''health''"
    using assms by (auto simp: health_gauges_new_def gv_set_def gv_new_def must_def split: sum.splits if_splits)
  then show "labels_sound (gauge_family (gv_desc (hg_build_info g)))" "desc_name (gv_desc (hg_build_info g)) = ''swarm_exporter_build_info''"
    "sg_name (hg_health g) = ''swarm_exporter_health''"
    using l by (simp_all add: labels_sound_def gauge_family_def exporter_name_def)
qed

lemma names_constant:
  assumes "register_metrics options = Inr m"
  shows "concat (map sample_names (registry m)) =
    [''swarm_service_desired_replicas'', ''swarm_service_schedulable_replicas'',
     ''swarm_task_replicas_state'', ''swarm_service_running_replicas'', ''swarm_service_at_desired'',
     ''swarm_exporter_health'', ''swarm_exporter_build_info'', ''swarm_cluster_nodes_by_state'',
     ''swarm_exporter_poll_duration_seconds_bucket'', ''swarm_exporter_poll_duration_seconds_sum'', ''swarm_exporter_poll_duration_seconds_count'',
     ''swarm_exporter_polls_total'', ''swarm_exporter_poll_errors_total'', ''swarm_exporter_events_reconnects_total'',
     ''swarm_exporter_events_dropped_total'', ''swarm_exporter_poll_rejections_total'', ''swarm_exporter_resyncs_total'',
     ''swarm_exporter_last_poll_success_timestamp_seconds'', ''swarm_exporter_last_resync_success_timestamp_seconds'',
     ''swarm_service_update_state_info'', ''swarm_service_update_started_timestamp_seconds'', ''swarm_service_update_completed_timestamp_seconds'']
    @ (if cf_enabled (mo_containers options) then [''swarm_container_state''] else [])"
proof -
  obtain v c d where b: "health_gauges_new v c d = Inr (am_gauges m)"
    using assms by (cases "mo_build options") (auto simp: register_metrics_def split: sum.splits)
  show ?thesis
    using build_info_sound(2,3) [OF b]
    by (simp add: registry_def registered [OF assms] collectors_new_def replica_gauges_register_def replicas_state_register_def health_gauges_register_def
        snapshot_family_register_def service_update_register_def exporter_register_def sample_names_def gauge_family_def scrape_gauge_family_def
        replica_gauges_new_def replicas_state_new_def nodes_by_state_new_def nodes_by_state_desc_def service_update_new_def containers_state_new_def
        sf_new_def sc_new_def gv_new_def last_poll_success_def last_resync_success_def unix_nano_timestamp_gauge_def exporter_name_def
        LABEL_CONTAINER_def LABEL_STATE_def Let_def)
qed

lemma labels_constant:
  assumes "register_metrics options = Inr m" and "custom_ok (mo_custom_labels options)"
  shows "list_all labels_sound (registry m)"
proof -
  let ?cls = "mo_custom_labels options"
  obtain v c d where b: "health_gauges_new v c d = Inr (am_gauges m)"
    using assms(1) by (cases "mo_build options") (auto simp: register_metrics_def split: sum.splits)
  have base: "list_all is_valid_label_name (base_label_names ?cls)" "distinct (base_label_names ?cls)" "LABEL_STATE \<notin> set (base_label_names ?cls)"
    using base_label_names_valid base_label_names_distinct state_not_base assms(2) by blast+
  have st: "list_all is_valid_label_name (state_label_names ?cls)" "distinct (state_label_names ?cls)"
    using base state_valid by (auto simp: state_label_names_def base_label_names_def)
  have fixed: "sanitize_label_names (base_label_names ?cls) = base_label_names ?cls" "sanitize_label_names (state_label_names ?cls) = state_label_names ?cls"
    using base(1) st(1) by (simp_all add: sanitize_names_fixed)
  have gauges: "list_all labels_sound (replica_gauges_register (replica_gauges_new ?cls))" "list_all labels_sound (replicas_state_register (replicas_state_new ?cls))"
    using base st by (simp_all add: replica_gauges_register_def replicas_state_register_def replica_gauges_new_def replicas_state_new_def fixed
        gauge_family_def labels_sound_def gv_new_def sc_new_def Let_def)
  have updates: "list_all labels_sound (service_update_register (service_update_new ?cls))"
    using base state_valid by (simp add: service_update_register_def service_update_new_def gauge_family_def labels_sound_def gv_new_def Let_def)
  have health: "list_all labels_sound (health_gauges_register (am_gauges m))"
    using build_info_sound(1) [OF b] by (simp add: health_gauges_register_def scrape_gauge_family_def labels_sound_def)
  have snap: "list_all labels_sound (snapshot_family_register nodes_by_state_new)" "list_all labels_sound (snapshot_family_register (cst_family (containers_state_new config)))" for config
    using own_labels_sound(2,3) by (simp_all add: snapshot_family_register_def nodes_by_state_new_def containers_state_new_def sf_new_def gauge_family_def labels_sound_def)
  show ?thesis
    using gauges updates health snap own_labels_sound(1) by (simp add: registry_def registered [OF assms(1)] collectors_new_def Let_def)
qed

text \<open>
  C20: every exposition is one a scraper accepts. Whatever custom labels the command line was given, once
  they are accepted the families register without a panic, no two of them write samples of one name,
  suffixes included, every name is a metric name, and within a family the label names are valid and
  distinct, whatever the operator called them. The container family is there exactly when enabled.
\<close>

theorem registry_sound:
  assumes "validate_custom_labels raw = Inr (mo_custom_labels options)"
  shows "\<exists>m. register_metrics options = Inr m \<and> distinct (concat (map sample_names (registry m)))
    \<and> list_all is_metric_name (concat (map sample_names (registry m))) \<and> list_all labels_sound (registry m)
    \<and> (''swarm_container_state'' \<in> set (concat (map sample_names (registry m))) \<longleftrightarrow> cf_enabled (mo_containers options))"
proof -
  obtain m where m: "register_metrics options = Inr m"
  proof (cases "mo_build options")
    case (fields v c d)
    then show ?thesis using health_gauges_exist [of v c d] that by (auto simp: register_metrics_def)
  qed
  have names: "list_all is_metric_name (concat (map sample_names (registry m)))"
    unfolding names_constant [OF m] by (simp add: is_metric_name_def prefix_of_def is_name_char_def is_ascii_alphabetic_def is_ascii_lowercase_def)
  have d: "distinct (concat (map sample_names (registry m)))" unfolding names_constant [OF m] by simp
  have c: "''swarm_container_state'' \<in> set (concat (map sample_names (registry m))) \<longleftrightarrow> cf_enabled (mo_containers options)"
    unfolding names_constant [OF m] by simp
  show ?thesis using m names d c labels_constant [OF m validated_custom_ok(1) [OF assms]] by blast
qed

theorem registry_sound_witness:
  "\<exists>custom m. validate_custom_labels [''my.team''] = Inr custom
     \<and> register_metrics \<lparr>mo_custom_labels = custom, mo_poll_delay = secs 10, mo_containers = containers_config_new True False,
         mo_build = (''1.0'', ''abc'', ''today'')\<rparr> = Inr m
     \<and> distinct (concat (map sample_names (registry m))) \<and> list_all labels_sound (registry m)"
proof -
  let ?o = "\<lambda>custom. \<lparr>mo_custom_labels = custom, mo_poll_delay = secs 10, mo_containers = containers_config_new True False, mo_build = (''1.0'', ''abc'', ''today'')\<rparr>"
  have v: "validate_custom_labels [''my.team''] = Inr [\<lparr>cl_raw = ''my.team'', cl_sanitized = ''my_team''\<rparr>]" by code_simp
  then show ?thesis using registry_sound [of "[''my.team'']" "?o [\<lparr>cl_raw = ''my.team'', cl_sanitized = ''my_team''\<rparr>]"] by auto
qed

end
