(* ===== verification/Exposition.thy ===== *)
theory Exposition
  imports Registry "HOL-Library.Multiset"
begin

text \<open>
  The whole exposition: \<^verbatim>\<open>render\<close> of \<^verbatim>\<open>src/src/metrics.rs\<close> over what \<^verbatim>\<open>register_metrics\<close> registered, family after family
  in the order of registration, with counters and the histogram beside the gauges, and what the reader of
  the tests makes of it. How the library prints a float, a time in seconds and the samples of a histogram
  is given.
\<close>

section \<open>Typed families\<close>

text \<open>A family as it is printed: per sample the suffix of its name, its labels and its value's text.\<close>

record typed_family =
  tf_kind :: metric_type
  tf_name :: string
  tf_help :: string
  tf_samples :: "(string \<times> (string \<times> string) list \<times> string) list"

primrec kind_text :: "metric_type \<Rightarrow> string" where
  "kind_text GaugeType = ''gauge''"
| "kind_text CounterType = ''counter''"
| "kind_text HistogramType = ''histogram''"

definition typed_lines :: "typed_family \<Rightarrow> string list" where
  "typed_lines f =
     (''# HELP '' @ tf_name f @ '' '' @ escape (tf_help f)) # (''# TYPE '' @ tf_name f @ '' '' @ kind_text (tf_kind f))
     # map (\<lambda>(suffix, pairs, w). sample_text (tf_name f @ suffix) pairs w) (tf_samples f)"

definition page_text :: "typed_family list \<Rightarrow> string" where
  "page_text fs = concat (map (\<lambda>l. l @ [CHR 0x0A]) (concat (map typed_lines fs) @ [''# EOF'']))"

definition hist_suffixes :: "string list" where
  "hist_suffixes = [''_bucket'', ''_sum'', ''_count'']"

text \<open>What the reader can take: names, labels and numbers of the format.\<close>

definition typed_ok :: "(string \<Rightarrow> 'r option) \<Rightarrow> typed_family \<Rightarrow> bool" where
  "typed_ok decimal f \<longleftrightarrow> is_metric_name (tf_name f) \<and> CHR 0x0D \<notin> set (tf_help f)
     \<and> (\<forall>(suffix, pairs, w) \<in> set (tf_samples f). is_metric_name (tf_name f @ suffix) \<and> bt_ok pairs
          \<and> (\<forall>kv \<in> set pairs. is_valid_label_name (fst kv)) \<and> w \<noteq> [] \<and> list_all solid w \<and> parse_value decimal w \<noteq> None)"

text \<open>With these histograms on the page, only their samples are skipped.\<close>

definition apart :: "string set \<Rightarrow> typed_family \<Rightarrow> bool" where
  "apart H f \<longleftrightarrow> (case tf_kind f of
     HistogramType \<Rightarrow> tf_name f \<in> H \<and> (\<forall>(suffix, _) \<in> set (tf_samples f). suffix \<in> set hist_suffixes)
   | _ \<Rightarrow> \<forall>(suffix, _) \<in> set (tf_samples f). tf_name f @ suffix \<notin> H \<and> (\<forall>h \<in> H. \<forall>x \<in> set hist_suffixes. tf_name f @ suffix \<noteq> h @ x))"

definition family_read :: "(string \<Rightarrow> 'r option) \<Rightarrow> typed_family \<Rightarrow> 'r sample list" where
  "family_read decimal f =
     (if tf_kind f = HistogramType then []
      else map (\<lambda>(suffix, pairs, w). \<lparr>sa_name = tf_name f @ suffix, sa_labels = pairs, sa_value = the (parse_value decimal w)\<rparr>) (tf_samples f))"

section \<open>Reading a page\<close>

lemma strip_suffix_append: "strip_suffix x (s @ x) = Some s"
  by (simp add: strip_suffix_def starts_with_def)

lemma strip_suffix_Some: "strip_suffix x s = Some p \<Longrightarrow> s = p @ x"
proof -
  assume a: "strip_suffix x s = Some p"
  then have "starts_with (rev x) (rev s)" and p: "p = take (length s - length x) s" by (simp_all add: strip_suffix_def split: if_splits)
  then obtain t where "rev s = rev x @ t" by (auto simp: starts_with_def) (metis append_take_drop_id)
  then have "s = rev t @ x" by (metis rev_append rev_rev_ident)
  then show ?thesis using p by simp
qed

text \<open>The types read so far: the histograms among them are on the page.\<close>

definition known_kinds :: "string set \<Rightarrow> (string, string) hmap \<Rightarrow> bool" where
  "known_kinds H types \<longleftrightarrow> (\<forall>n k. hget types n = Some k \<longrightarrow> k \<noteq> ''summary'' \<and> (k = ''histogram'' \<longrightarrow> n \<in> H))"

lemma known_kinds_put: "known_kinds H types \<Longrightarrow> apart H f \<Longrightarrow> known_kinds H (hput (tf_name f) (kind_text (tf_kind f)) types)"
  by (cases "tf_kind f") (auto simp: known_kinds_def update_conv' apart_def)

lemma skipped_iff:
  assumes "known_kinds H types" and "apart H f" and "hget types (tf_name f) = Some (kind_text (tf_kind f))" and "(suffix, pairs, w) \<in> set (tf_samples f)"
  shows "is_skipped types (tf_name f @ suffix) \<longleftrightarrow> tf_kind f = HistogramType"
proof (cases "tf_kind f = HistogramType")
  case True
  then have "suffix \<in> set hist_suffixes" using assms(2,4) by (auto simp: apart_def)
  then have "strip_suffix suffix (tf_name f @ suffix) = Some (tf_name f)" "suffix \<in> {''_bucket'', ''_sum'', ''_count''}"
    by (simp_all add: strip_suffix_append hist_suffixes_def)
  then show ?thesis using True assms(3) by (auto simp: is_skipped_def Let_def List.map_filter_def)
next
  case False
  then have "tf_name f @ suffix \<notin> H \<and> (\<forall>h \<in> H. \<forall>x \<in> set hist_suffixes. tf_name f @ suffix \<noteq> h @ x)"
    using assms(2,4) by (cases "tf_kind f") (auto simp: apart_def)
  then have "hget types (tf_name f @ suffix) \<notin> {Some ''histogram'', Some ''summary''}"
    and "\<forall>x \<in> set hist_suffixes. \<forall>p. strip_suffix x (tf_name f @ suffix) = Some p \<longrightarrow> hget types p \<notin> {Some ''histogram'', Some ''summary''}"
    using assms(1) strip_suffix_Some unfolding known_kinds_def by blast+
  then show ?thesis using False by (auto simp: is_skipped_def Let_def hist_suffixes_def List.map_filter_def split: if_splits)
qed

lemma typed_series_lines:
  assumes "is_metric_name name"
    and "\<forall>(suffix, pairs, w) \<in> set series. is_metric_name (name @ suffix) \<and> bt_ok pairs \<and> (\<forall>kv \<in> set pairs. is_valid_label_name (fst kv))
      \<and> w \<noteq> [] \<and> list_all solid w \<and> parse_value decimal w \<noteq> None \<and> is_skipped types (name @ suffix) = skip"
  shows "parse_lines decimal i types samples (map (\<lambda>(suffix, pairs, w). sample_text (name @ suffix) pairs w) series @ ls) =
    parse_lines decimal (i + length series) types
      (samples @ (if skip then [] else map (\<lambda>(suffix, pairs, w). \<lparr>sa_name = name @ suffix, sa_labels = pairs, sa_value = the (parse_value decimal w)\<rparr>) series)) ls"
  using assms(2)
proof (induction series arbitrary: i samples)
  case (Cons x series)
  obtain suffix pairs w where x: "x = (suffix, pairs, w)" by (cases x)
  have p: "is_metric_name (name @ suffix)" "bt_ok pairs" "\<forall>kv \<in> set pairs. is_valid_label_name (fst kv)" "w \<noteq> []" "list_all solid w"
    "parse_value decimal w = Some (the (parse_value decimal w))" "is_skipped types (name @ suffix) = skip" using Cons.prems x by auto
  note line = sample_line [OF p(1,3) conjI [OF p(4,5)]]
  show ?case using Cons line read_sample [OF p(1-6)] p(7) x by simp
qed simp

lemma kind_solid: "kind_text k \<noteq> []" "list_all solid (kind_text k)"
proof -
  have "list_all solid ''gauge''" "list_all solid ''counter''" "list_all solid ''histogram''" by code_simp+
  then show "kind_text k \<noteq> []" "list_all solid (kind_text k)" by (cases k, simp_all)+
qed

lemma typed_family_lines:
  assumes "typed_ok decimal f" and "apart H f" and "known_kinds H types"
  shows "\<exists>j types'. known_kinds H types' \<and> parse_lines decimal i types samples (typed_lines f @ ls) = parse_lines decimal j types' (samples @ family_read decimal f) ls"
proof -
  let ?types = "hput (tf_name f) (kind_text (tf_kind f)) types"
  have n: "is_metric_name (tf_name f)" using assms(1) by (simp add: typed_ok_def)
  have k: "known_kinds H ?types" by (rule known_kinds_put [OF assms(3,2)])
  have "\<forall>(suffix, pairs, w) \<in> set (tf_samples f). is_metric_name (tf_name f @ suffix) \<and> bt_ok pairs \<and> (\<forall>kv \<in> set pairs. is_valid_label_name (fst kv))
      \<and> w \<noteq> [] \<and> list_all solid w \<and> parse_value decimal w \<noteq> None \<and> is_skipped ?types (tf_name f @ suffix) = (tf_kind f = HistogramType)"
    using assms(1) skipped_iff [OF k assms(2)] by (auto simp: typed_ok_def update_conv')
  note series = typed_series_lines [OF n this]
  have "typed_lines f @ ls = (''# HELP '' @ tf_name f @ '' '' @ escape (tf_help f)) # (''# TYPE '' @ tf_name f @ '' '' @ kind_text (tf_kind f))
      # map (\<lambda>(suffix, pairs, w). sample_text (tf_name f @ suffix) pairs w) (tf_samples f) @ ls" by (simp add: typed_lines_def)
  then have "parse_lines decimal i types samples (typed_lines f @ ls) =
      parse_lines decimal (Suc (Suc i) + length (tf_samples f)) ?types (samples @ family_read decimal f) ls"
    by (simp only: help_line [OF n] type_line [OF n kind_solid] series family_read_def)
  then show ?thesis using k by blast
qed

lemma page_lines:
  assumes "\<forall>f \<in> set fs. typed_ok decimal f \<and> apart H f" and "known_kinds H types"
  shows "parse_lines decimal i types samples (concat (map typed_lines fs) @ [''# EOF'']) = Inr (samples @ concat (map (family_read decimal) fs))"
  using assms
proof (induction fs arbitrary: i types samples)
  case Nil
  then show ?case using eof_line by (simp del: parse_lines.simps)
next
  case (Cons f fs)
  obtain j types' where t: "known_kinds H types'" "parse_lines decimal i types samples (typed_lines f @ concat (map typed_lines fs) @ [''# EOF'']) =
      parse_lines decimal j types' (samples @ family_read decimal f) (concat (map typed_lines fs) @ [''# EOF''])"
    using typed_family_lines [of decimal f H types i samples "concat (map typed_lines fs) @ [''# EOF'']"] Cons.prems by auto
  then show ?case using Cons.IH [OF _ t(1)] Cons.prems(1) by (simp del: parse_lines.simps)
qed

lemma typed_line_ok:
  assumes "typed_ok decimal f" and "l \<in> set (typed_lines f)"
  shows "CHR 0x0A \<notin> set l \<and> l \<noteq> [] \<and> last l \<noteq> CHR 0x0D"
proof -
  have n: "is_metric_name (tf_name f)" and h: "CHR 0x0D \<notin> set (escape (tf_help f))" using assms(1) escape_last by (auto simp: typed_ok_def)
  have c: "CHR 0x0A \<notin> set (tf_name f)" using name_chars [OF n] solid_not_blank by (auto simp: list_all_iff)
  have e: "last ('' '' @ escape (tf_help f)) \<noteq> CHR 0x0D" using h by (cases "escape (tf_help f) = []") (auto dest: last_in_set)
  consider "l = ''# HELP '' @ tf_name f @ '' '' @ escape (tf_help f)" | "l = ''# TYPE '' @ tf_name f @ '' '' @ kind_text (tf_kind f)"
    | suffix pairs w where "l = sample_text (tf_name f @ suffix) pairs w" "(suffix, pairs, w) \<in> set (tf_samples f)"
    using assms(2) by (auto simp: typed_lines_def)
  then show ?thesis
  proof cases
    case 1
    then have "last l = last ('' '' @ escape (tf_help f))" by simp
    then show ?thesis using 1 c e escape_line by simp
  next
    case 2
    have "\<forall>x \<in> set (kind_text (tf_kind f)). x \<noteq> CHR 0x0A \<and> x \<noteq> CHR 0x0D" using kind_solid(2) [of "tf_kind f"] solid_not_blank by (auto simp: list_all_iff)
    then show ?thesis using 2 c kind_solid(1) [of "tf_kind f"] by auto
  next
    case 3
    then have "is_metric_name (tf_name f @ suffix)" "\<forall>kv \<in> set pairs. is_valid_label_name (fst kv)" "w \<noteq> [] \<and> list_all solid w"
      using assms(1) by (auto simp: typed_ok_def)
    then show ?thesis using sample_line 3 by simp
  qed
qed

text \<open>A page of such families reads back as their samples, the histograms' left out.\<close>

lemma page_read:
  assumes "\<forall>f \<in> set fs. typed_ok decimal f \<and> apart H f"
  shows "scrape_parse decimal (page_text fs) = Inr (concat (map (family_read decimal) fs))"
proof -
  have "\<forall>l \<in> set (concat (map typed_lines fs) @ [''# EOF'']). CHR 0x0A \<notin> set l \<and> l \<noteq> [] \<and> last l \<noteq> CHR 0x0D"
    using assms typed_line_ok [of decimal] by fastforce
  note lines = lines_of_lines [OF this]
  have "known_kinds H []" by (simp add: known_kinds_def)
  then show ?thesis using page_lines [OF assms, of "[]" 0 "[]"] lines by (simp add: scrape_parse_def page_text_def)
qed

section \<open>What the exporter prints\<close>

text \<open>How the library prints a float, the seconds of a time in nanoseconds, and the samples of the poll duration histogram.\<close>

record printing =
  pe_value :: "int \<Rightarrow> string"
  pe_seconds :: "int \<Rightarrow> string"
  pe_buckets :: "nanos list \<Rightarrow> (string \<times> (string \<times> string) list \<times> string) list"

definition typed_gauge :: "printing \<Rightarrow> encoded_family \<Rightarrow> typed_family" where
  "typed_gauge pe f = \<lparr>tf_kind = GaugeType, tf_name = ef_name f, tf_help = ef_help f,
     tf_samples = map (\<lambda>(pairs, v). ('''', pairs, pe_value pe v)) (ef_series f)\<rparr>"

text \<open>A family of the library's own types, whose registered help it ends with a full stop.\<close>

definition registered_typed :: "registered_family \<Rightarrow> (string \<times> (string \<times> string) list \<times> string) list \<Rightarrow> typed_family" where
  "registered_typed f samples = \<lparr>tf_kind = rf_type f, tf_name = rf_name f,
     tf_help = (if rf_type f = GaugeType then rf_help f else rf_help f @ ''.''), tf_samples = samples\<rparr>"

definition exporter_page :: "printing \<Rightarrow> exporter_metrics \<Rightarrow> typed_family list" where
  "exporter_page pe m =
     map2 registered_typed exporter_register
       (pe_buckets pe (em_poll_durations m)
        # map (\<lambda>n. [(''_total'', [], nat_text n)]) [em_polls m, em_poll_errors m, em_events_reconnects m, em_events_dropped m, em_poll_rejections m]
        @ [map (\<lambda>(result, n). (''_total'', [(''result'', result)], nat_text n)) (em_resyncs m),
           [('''', [], pe_seconds pe (sg_value last_poll_success (em_timestamps m)))],
           [('''', [], pe_seconds pe (sg_value last_resync_success (em_timestamps m)))]])"

text \<open>
  The families of the page in the order they are registered: the exporter's in the order of
  \<^verbatim>\<open>register_metrics\<close>, then what the process collector prints. A family with no series prints nothing. The
  library prints them in an order of its own, the counters and the histogram apart from the collectors.
\<close>

definition metrics_page :: "printing \<Rightarrow> typed_family list \<Rightarrow> (handle \<Rightarrow> shared_state) \<Rightarrow> timestamp \<Rightarrow> health
    \<Rightarrow> collectors \<Rightarrow> health_gauges \<Rightarrow> containers_state option \<Rightarrow> typed_family list" where
  "metrics_page pe runtime shared now h co hg containers =
     map (typed_gauge pe) (gv_encode (rg_desired (co_replica_gauges co)) @ gv_encode (rg_schedulable (co_replica_gauges co)))
     @ map (typed_gauge pe) (sc_encode (rs_collector (co_replicas_state co)))
     @ [typed_gauge pe (sg_encode (hg_health hg) (shared, em_timestamps (co_metrics co), now, h))]
     @ map (typed_gauge pe) (gv_encode (hg_build_info hg))
     @ map (typed_gauge pe) (sc_encode (sf_collector (co_nodes_by_state co)))
     @ exporter_page pe (co_metrics co)
     @ map (typed_gauge pe) (concat (map gv_encode [su_state (co_service_update co), su_started (co_service_update co), su_completed (co_service_update co)]))
     @ map (typed_gauge pe) (case containers of Some cs \<Rightarrow> sc_encode (sf_collector (cst_family cs)) | None \<Rightarrow> [])
     @ runtime"

section \<open>The gauges on the page\<close>

text \<open>What a collector publishes, as gauges.\<close>

definition collector_gauges :: "snapshot_collector \<Rightarrow> gauge_vec list" where
  "collector_gauges c =
     (case sc_current c of
        None \<Rightarrow> []
      | Some fams \<Rightarrow> map (\<lambda>f. \<lparr>gv_desc = bf_desc f, gv_children = bf_series f\<rparr>) (sort_key (\<lambda>f. desc_name (bf_desc f)) fams))"

abbreviation gname :: "gauge_vec \<Rightarrow> string" where
  "gname g \<equiv> desc_name (gv_desc g)"

definition before_health :: "collectors \<Rightarrow> gauge_vec list" where
  "before_health co = [rg_desired (co_replica_gauges co), rg_schedulable (co_replica_gauges co)] @ collector_gauges (rs_collector (co_replicas_state co))"

definition before_own :: "collectors \<Rightarrow> health_gauges \<Rightarrow> gauge_vec list" where
  "before_own co hg = hg_build_info hg # collector_gauges (sf_collector (co_nodes_by_state co))"

definition after_own :: "collectors \<Rightarrow> containers_state option \<Rightarrow> gauge_vec list" where
  "after_own co containers = [su_state (co_service_update co), su_started (co_service_update co), su_completed (co_service_update co)]
     @ (case containers of Some cs \<Rightarrow> collector_gauges (sf_collector (cst_family cs)) | None \<Rightarrow> [])"

definition page_gauges :: "collectors \<Rightarrow> health_gauges \<Rightarrow> containers_state option \<Rightarrow> gauge_vec list" where
  "page_gauges co hg containers = before_health co @ before_own co hg @ after_own co containers"

definition print_gauges :: "printing \<Rightarrow> gauge_vec list \<Rightarrow> typed_family list" where
  "print_gauges pe gs = map (typed_gauge pe) (concat (map gv_encode gs))"

lemma sc_encode_gauges: "sc_encode c = concat (map gv_encode (collector_gauges c))"
  by (simp add: sc_encode_def collector_gauges_def gv_encode_def comp_def split: option.split)

lemma metrics_page_gauges:
  "metrics_page pe runtime shared now h co hg containers =
     print_gauges pe (before_health co) @ [typed_gauge pe (sg_encode (hg_health hg) (shared, em_timestamps (co_metrics co), now, h))]
     @ print_gauges pe (before_own co hg) @ exporter_page pe (co_metrics co) @ print_gauges pe (after_own co containers) @ runtime"
  by (simp add: metrics_page_def print_gauges_def before_health_def before_own_def after_own_def sc_encode_gauges split: option.split)

definition desc_readable :: "desc \<Rightarrow> bool" where
  "desc_readable d \<longleftrightarrow> is_metric_name (desc_name d) \<and> CHR 0x0D \<notin> set (desc_help d) \<and> distinct (desc_label_names d)
     \<and> list_all is_valid_label_name (desc_label_names d)"

lemma gauge_ok_readable: "gauge_ok names g \<Longrightarrow> desc_readable (gv_desc g) \<Longrightarrow> gauge_readable g"
  by (auto simp: gauge_ok_def desc_readable_def gauge_readable_def list_all_iff)

lemma collector_readable:
  assumes "collector_ok c" and "list_all desc_readable (sc_descs c)"
  shows "list_all gauge_readable (collector_gauges c)" "distinct (map gname (collector_gauges c))"
    "set (map gname (collector_gauges c)) \<subseteq> set (map desc_name (sc_descs c))"
proof -
  have "list_all gauge_readable (collector_gauges c) \<and> distinct (map gname (collector_gauges c))
    \<and> set (map gname (collector_gauges c)) \<subseteq> set (map desc_name (sc_descs c))"
  proof (cases "sc_current c")
    case (Some fams)
    let ?sorted = "sort_key (\<lambda>f. desc_name (bf_desc f)) fams"
    have ok: "list_all (built_ok (sc_descs c)) fams" "distinct (map (\<lambda>f. desc_name (bf_desc f)) fams)" using assms(1) Some by (auto simp: collector_ok_def)
    have "distinct (map (\<lambda>f. desc_name (bf_desc f)) ?sorted)" using ok(2) by (simp add: distinct_map)
    moreover have "gauge_readable \<lparr>gv_desc = bf_desc f, gv_children = bf_series f\<rparr>" if "f \<in> set fams" for f
      using ok(1) assms(2) that by (force simp: list_all_iff built_ok_def desc_readable_def gauge_readable_def)
    ultimately show ?thesis using ok(1) by (auto simp: Some collector_gauges_def list_all_iff comp_def built_ok_def)
  qed (simp add: collector_gauges_def)
  then show "list_all gauge_readable (collector_gauges c)" "distinct (map gname (collector_gauges c))"
    "set (map gname (collector_gauges c)) \<subseteq> set (map desc_name (sc_descs c))" by blast+
qed

lemma gauge_names: "map tf_name (print_gauges pe gs) = map gname (filter (\<lambda>g. gv_children g \<noteq> []) gs)"
  by (induction gs) (simp_all add: print_gauges_def typed_gauge_def gv_encode_def encode_gauge_family_def)

lemma gauge_printed: "g \<in> set gs \<Longrightarrow> gv_children g \<noteq> [] \<Longrightarrow> f \<in> set (gv_encode g) \<Longrightarrow> typed_gauge pe f \<in> set (print_gauges pe gs)"
  by (auto simp: print_gauges_def)

lemma gauge_typed:
  assumes "f \<in> set (print_gauges pe gs)"
  shows "tf_kind f = GaugeType" "\<forall>(suffix, _) \<in> set (tf_samples f). suffix = ''''"
    "\<exists>g \<in> set gs. \<exists>e \<in> set (gv_encode g). f = typed_gauge pe e"
  using assms by (auto simp: print_gauges_def typed_gauge_def)

lemma gauge_typed_ok:
  assumes "gauge_readable g" and "\<forall>v. reads_back decimal as_float (pe_value pe) v" and "e \<in> set (gv_encode g)"
  shows "typed_ok decimal (typed_gauge pe e)" "family_read decimal (typed_gauge pe e) = gauge_samples as_float g"
proof -
  have r: "parse_value decimal (pe_value pe v) = Some (Finite (as_float v))" "pe_value pe v \<noteq> [] \<and> list_all solid (pe_value pe v)" for v
    using read_number reads_back_text assms(2) by blast+
  have d: "distinct (desc_label_names (gv_desc g))" "list_all is_valid_label_name (desc_label_names (gv_desc g))" "is_metric_name (gname g)"
    "CHR 0x0D \<notin> set (desc_help (gv_desc g))" using assms(1) by (simp_all add: gauge_readable_def)
  have e: "e = \<lparr>ef_name = gname g, ef_help = desc_help (gv_desc g), ef_series = map (\<lambda>(vs, v). (desc_pairs (gv_desc g) vs, v)) (gv_children g)\<rparr>"
    using assms(3) by (auto simp: gv_encode_def encode_gauge_family_def split: if_splits)
  show "typed_ok decimal (typed_gauge pe e)"
    using d r desc_pairs_sorted [OF d(1)] desc_pairs_valid [OF d(2)] by (fastforce simp: e typed_gauge_def typed_ok_def)
  show "family_read decimal (typed_gauge pe e) = gauge_samples as_float g"
    using r by (simp add: e typed_gauge_def family_read_def gauge_samples_def split_def)
qed

section \<open>Finding a family\<close>

text \<open>The suffix of a family's samples, and so their name.\<close>

primrec kind_suffix :: "metric_type \<Rightarrow> string" where
  "kind_suffix GaugeType = ''''"
| "kind_suffix CounterType = ''_total''"
| "kind_suffix HistogramType = ''''"

definition printed_name :: "typed_family \<Rightarrow> string" where
  "printed_name f = tf_name f @ kind_suffix (tf_kind f)"

definition named_ok :: "typed_family \<Rightarrow> bool" where
  "named_ok f \<longleftrightarrow> tf_kind f \<noteq> HistogramType \<longrightarrow> (\<forall>(suffix, _) \<in> set (tf_samples f). suffix = kind_suffix (tf_kind f))"

lemma find_append: "scrape_find (xs @ ys) n l = scrape_find xs n l @ scrape_find ys n l"
  by (simp add: scrape_find_def)

lemma read_names: "named_ok f \<Longrightarrow> s \<in> set (family_read decimal f) \<Longrightarrow> sa_name s = printed_name f"
  by (auto simp: named_ok_def family_read_def printed_name_def split: if_splits)

lemma find_none: "\<forall>f \<in> set fs. named_ok f \<and> printed_name f \<noteq> n \<Longrightarrow> scrape_find (concat (map (family_read decimal) fs)) n l = []"
  using read_names by (fastforce simp: scrape_find_def filter_empty_conv)

lemma typed_family_found:
  assumes "distinct (map printed_name fs)" and "\<forall>f \<in> set fs. named_ok f" and "f \<in> set fs"
  shows "scrape_find (concat (map (family_read decimal) fs)) (printed_name f) l = scrape_find (family_read decimal f) (printed_name f) l"
proof -
  obtain pre post where fs: "fs = pre @ f # post" using assms(3) by (meson split_list)
  have "\<forall>g \<in> set pre. named_ok g \<and> printed_name g \<noteq> printed_name f" "\<forall>g \<in> set post. named_ok g \<and> printed_name g \<noteq> printed_name f"
    using assms(2) image_eqI [of "printed_name f" printed_name] assms(1) unfolding fs by (auto dest: sym)
  then show ?thesis using find_none [of pre "printed_name f" decimal l] find_none [of post "printed_name f" decimal l] by (simp add: fs find_append)
qed

text \<open>One sample without labels, as a counter or an unlabelled gauge has.\<close>

lemma single_value:
  assumes "distinct (map printed_name fs)" and "\<forall>f \<in> set fs. named_ok f" and "f \<in> set fs" and "tf_kind f \<noteq> HistogramType"
    and "tf_samples f = [(suffix, [], w)]" and "parse_value decimal w = Some v"
  shows "scrape_value (concat (map (family_read decimal) fs)) (printed_name f) [] = Some v"
proof -
  have "suffix = kind_suffix (tf_kind f)" using assms(2-5) by (auto simp: named_ok_def)
  then have "scrape_find (family_read decimal f) (printed_name f) [] = [\<lparr>sa_name = printed_name f, sa_labels = [], sa_value = v\<rparr>]"
    using assms(4-6) by (simp add: scrape_find_def family_read_def labels_include_def printed_name_def)
  then show ?thesis using typed_family_found [OF assms(1-3), of decimal "[]"] by (simp add: scrape_value_def)
qed

lemma gauge_value:
  assumes "distinct (map printed_name fs)" and "\<forall>f \<in> set fs. named_ok f" and "typed_gauge pe e \<in> set fs" and "e \<in> set (gv_encode g)"
    and "gauge_readable g" and "\<forall>v. reads_back decimal as_float (pe_value pe) v" and "(vs, v) \<in> set (gv_children g)"
  shows "scrape_value (concat (map (family_read decimal) fs)) (gname g) (desc_pairs (gv_desc g) vs) = Some (Finite (as_float v))"
proof -
  have n: "printed_name (typed_gauge pe e) = gname g"
    using assms(4) by (auto simp: printed_name_def typed_gauge_def gv_encode_def encode_gauge_family_def split: if_splits)
  have "scrape_value (gauge_samples as_float g) (gname g) (desc_pairs (gv_desc g) vs) = Some (Finite (as_float v))"
    using gauge_found(2) [OF assms(5) _ refl assms(7), of "[]" "[]" as_float] by simp
  then show ?thesis
    using typed_family_found [OF assms(1-3), of decimal "desc_pairs (gv_desc g) vs"] gauge_typed_ok(2) [OF assms(5,6,4)] n by (simp add: scrape_value_def)
qed

section \<open>The exporter's own page\<close>

text \<open>What is given of the library's printing: numbers the format has, and histogram samples of a histogram.\<close>

definition printing_ok :: "(string \<Rightarrow> 'r option) \<Rightarrow> (int \<Rightarrow> 'r) \<Rightarrow> (int \<Rightarrow> 'r) \<Rightarrow> printing \<Rightarrow> bool" where
  "printing_ok decimal as_float seconds pe \<longleftrightarrow> (\<forall>v. reads_back decimal as_float (pe_value pe) v) \<and> (\<forall>v. reads_back decimal seconds (pe_seconds pe) v)
     \<and> (\<forall>n. decimal (nat_text n) = Some (as_float (int n)))
     \<and> (\<forall>ds. \<forall>(suffix, pairs, w) \<in> set (pe_buckets pe ds). suffix \<in> set hist_suffixes \<and> bt_ok pairs \<and> (\<forall>kv \<in> set pairs. is_valid_label_name (fst kv))
          \<and> w \<noteq> [] \<and> list_all solid w \<and> parse_value decimal w \<noteq> None)"

definition histograms :: "string set" where
  "histograms = {''swarm_exporter_poll_duration_seconds''}"

lemma counter_reads: "(\<forall>n. decimal (nat_text n) = Some (as_float (int n))) \<Longrightarrow> reads_back decimal as_float (\<lambda>v. nat_text (nat v)) (int n)"
proof -
  assume d: "\<forall>n. decimal (nat_text n) = Some (as_float (int n))"
  have "number_char c" if "c \<in> set (nat_text n)" for c
    using nat_text_digits [OF that] by (auto simp: number_char_def digit_value_def is_ascii_digit_def Let_def split: if_splits)
  moreover have "nat_text n \<noteq> []" by (subst nat_text.simps) simp
  ultimately show ?thesis using d by (simp add: reads_back_def list_all_iff)
qed

text \<open>A counter's samples, and a gauge's of one number.\<close>

lemma counter_family_ok:
  assumes "\<forall>n. decimal (nat_text n) = Some (as_float (int n))" and "is_metric_name (name @ ''_total'')" and "is_metric_name name" and "CHR 0x0D \<notin> set help"
    and "\<forall>(suffix, pairs, w) \<in> set samples. suffix = ''_total'' \<and> (\<exists>n. w = nat_text n) \<and> bt_ok pairs \<and> (\<forall>kv \<in> set pairs. is_valid_label_name (fst kv))"
  shows "typed_ok decimal \<lparr>tf_kind = CounterType, tf_name = name, tf_help = help, tf_samples = samples\<rparr>"
proof -
  have "nat_text n \<noteq> [] \<and> list_all solid (nat_text n)" "parse_value decimal (nat_text n) \<noteq> None" for n
    using counter_reads [OF assms(1), of n] reads_back_text [of decimal as_float "\<lambda>v. nat_text (nat v)" "int n"]
      read_number [of decimal as_float "\<lambda>v. nat_text (nat v)" "int n"] by simp_all
  note n = this
  have "is_metric_name (name @ suffix) \<and> bt_ok pairs \<and> (\<forall>kv \<in> set pairs. is_valid_label_name (fst kv)) \<and> w \<noteq> [] \<and> list_all solid w \<and> parse_value decimal w \<noteq> None"
    if x: "(suffix, pairs, w) \<in> set samples" for suffix pairs w
  proof -
    obtain k where "suffix = ''_total''" "w = nat_text k" "bt_ok pairs" "\<forall>kv \<in> set pairs. is_valid_label_name (fst kv)" using bspec [OF assms(5) x] by auto
    then show ?thesis using n [of k] assms(2) by simp
  qed
  then show ?thesis using assms(3,4) unfolding typed_ok_def by auto
qed

lemma exporter_page_list:
  "exporter_page pe m =
     [\<lparr>tf_kind = HistogramType, tf_name = ''swarm_exporter_poll_duration_seconds'', tf_help = registry_help POLL_DURATION_HELP @ ''.'', tf_samples = pe_buckets pe (em_poll_durations m)\<rparr>,
      \<lparr>tf_kind = CounterType, tf_name = ''swarm_exporter_polls'', tf_help = registry_help POLLS_HELP @ ''.'', tf_samples = [(''_total'', [], nat_text (em_polls m))]\<rparr>,
      \<lparr>tf_kind = CounterType, tf_name = ''swarm_exporter_poll_errors'', tf_help = registry_help POLL_ERRORS_HELP @ ''.'', tf_samples = [(''_total'', [], nat_text (em_poll_errors m))]\<rparr>,
      \<lparr>tf_kind = CounterType, tf_name = ''swarm_exporter_events_reconnects'', tf_help = registry_help EVENTS_RECONNECTS_HELP @ ''.'', tf_samples = [(''_total'', [], nat_text (em_events_reconnects m))]\<rparr>,
      \<lparr>tf_kind = CounterType, tf_name = ''swarm_exporter_events_dropped'', tf_help = registry_help EVENTS_DROPPED_HELP @ ''.'', tf_samples = [(''_total'', [], nat_text (em_events_dropped m))]\<rparr>,
      \<lparr>tf_kind = CounterType, tf_name = ''swarm_exporter_poll_rejections'', tf_help = registry_help POLL_REJECTIONS_HELP @ ''.'', tf_samples = [(''_total'', [], nat_text (em_poll_rejections m))]\<rparr>,
      \<lparr>tf_kind = CounterType, tf_name = ''swarm_exporter_resyncs'', tf_help = registry_help RESYNCS_HELP @ ''.'',
        tf_samples = map (\<lambda>(result, n). (''_total'', [(''result'', result)], nat_text n)) (em_resyncs m)\<rparr>,
      \<lparr>tf_kind = GaugeType, tf_name = ''swarm_exporter_last_poll_success_timestamp_seconds'', tf_help = LAST_POLL_SUCCESS_HELP,
        tf_samples = [('''', [], pe_seconds pe (ts_poll_success (em_timestamps m)))]\<rparr>,
      \<lparr>tf_kind = GaugeType, tf_name = ''swarm_exporter_last_resync_success_timestamp_seconds'', tf_help = LAST_RESYNC_SUCCESS_HELP,
        tf_samples = [('''', [], pe_seconds pe (ts_resync_success (em_timestamps m)))]\<rparr>]"
  by (simp add: exporter_page_def exporter_register_def registered_typed_def exporter_name_def scrape_gauge_family_def last_poll_success_def
      last_resync_success_def unix_nano_timestamp_gauge_def sg_value_def)

lemma own_names:
  "\<forall>n \<in> set [''swarm_exporter_polls'', ''swarm_exporter_poll_errors'', ''swarm_exporter_events_reconnects'', ''swarm_exporter_events_dropped'',
     ''swarm_exporter_poll_rejections'', ''swarm_exporter_resyncs'']. is_metric_name n \<and> is_metric_name (n @ ''_total'')"
  "\<forall>n \<in> set [''swarm_exporter_poll_duration_seconds'', ''swarm_exporter_last_poll_success_timestamp_seconds'', ''swarm_exporter_last_resync_success_timestamp_seconds'',
     ''swarm_exporter_poll_duration_seconds_bucket'', ''swarm_exporter_poll_duration_seconds_sum'', ''swarm_exporter_poll_duration_seconds_count'']. is_metric_name n"
  by (simp_all add: is_metric_name_def prefix_of_def is_name_char_def is_ascii_alphabetic_def is_ascii_lowercase_def)

lemma own_helps:
  "\<forall>help \<in> set [POLL_DURATION_HELP, POLLS_HELP, POLL_ERRORS_HELP, EVENTS_RECONNECTS_HELP, EVENTS_DROPPED_HELP, POLL_REJECTIONS_HELP, RESYNCS_HELP].
     CHR 0x0D \<notin> set (registry_help help @ ''.'')"
  "CHR 0x0D \<notin> set LAST_POLL_SUCCESS_HELP" "CHR 0x0D \<notin> set LAST_RESYNC_SUCCESS_HELP"
  by (simp_all add: registry_help_def unwrap_or_def strip_suffix_def starts_with_def POLL_DURATION_HELP_def POLLS_HELP_def POLL_ERRORS_HELP_def EVENTS_RECONNECTS_HELP_def
      EVENTS_DROPPED_HELP_def POLL_REJECTIONS_HELP_def RESYNCS_HELP_def LAST_POLL_SUCCESS_HELP_def LAST_RESYNC_SUCCESS_HELP_def)

lemma dot_char: "CHR 0x0D \<notin> {CHR ''.''}"
  by simp

lemma exporter_page_ok:
  assumes "printing_ok decimal as_float seconds pe"
  shows "\<forall>f \<in> set (exporter_page pe m). typed_ok decimal f"
proof -
  have c: "\<forall>n. decimal (nat_text n) = Some (as_float (int n))" using assms by (simp add: printing_ok_def)
  have s: "pe_seconds pe v \<noteq> [] \<and> list_all solid (pe_seconds pe v)" "parse_value decimal (pe_seconds pe v) \<noteq> None" for v
    using assms reads_back_text [of decimal seconds "pe_seconds pe" v] read_number [of decimal seconds "pe_seconds pe" v] by (simp_all add: printing_ok_def)
  have r: "is_valid_label_name ''result''" "bt_ok ([] :: (string, string) btree)" "bt_ok [(''result'', x)]" for x :: string by (simp_all add: bt_ok_def) code_simp
  have h: "typed_ok decimal \<lparr>tf_kind = HistogramType, tf_name = ''swarm_exporter_poll_duration_seconds'', tf_help = registry_help POLL_DURATION_HELP @ ''.'',
      tf_samples = pe_buckets pe (em_poll_durations m)\<rparr>"
    using assms own_names(2) own_helps(1) unfolding typed_ok_def printing_ok_def hist_suffixes_def by fastforce
  have single: "typed_ok decimal \<lparr>tf_kind = CounterType, tf_name = name, tf_help = doc, tf_samples = [(''_total'', [], nat_text n)]\<rparr>"
    if "is_metric_name name \<and> is_metric_name (name @ ''_total'')" "CHR 0x0D \<notin> set doc" for name doc n
    using that r(2) by (intro counter_family_ok [OF c]) auto
  have resyncs: "typed_ok decimal \<lparr>tf_kind = CounterType, tf_name = ''swarm_exporter_resyncs'', tf_help = registry_help RESYNCS_HELP @ ''.'',
      tf_samples = map (\<lambda>(result, n). (''_total'', [(''result'', result)], nat_text n)) (em_resyncs m)\<rparr>"
    using own_names(1) own_helps(1) r by (intro counter_family_ok [OF c]) fastforce+
  have gauge: "typed_ok decimal \<lparr>tf_kind = GaugeType, tf_name = name, tf_help = doc, tf_samples = [('''', [], pe_seconds pe v)]\<rparr>"
    if "is_metric_name name" "CHR 0x0D \<notin> set doc" for name doc v
    using that s r(2) by (simp add: typed_ok_def)
  show ?thesis
    unfolding exporter_page_list list.set ball_simps
    by (intro conjI h single resyncs gauge own_helps(2,3) TrueI) (simp_all only: own_names [simplified] own_helps(1) [simplified] append.simps set_append Un_iff list.set dot_char simp_thms)
qed

lemma exporter_page_apart:
  assumes "printing_ok decimal as_float seconds pe"
  shows "\<forall>f \<in> set (exporter_page pe m). apart histograms f \<and> named_ok f"
proof -
  have "\<forall>(suffix, _) \<in> set (pe_buckets pe (em_poll_durations m)). suffix \<in> set hist_suffixes" using assms by (fastforce simp: printing_ok_def)
  then show ?thesis unfolding exporter_page_list list.set ball_simps by (auto simp: apart_def named_ok_def histograms_def hist_suffixes_def)
qed

definition own_printed :: "string list" where
  "own_printed = [''swarm_exporter_poll_duration_seconds'', ''swarm_exporter_polls_total'', ''swarm_exporter_poll_errors_total'', ''swarm_exporter_events_reconnects_total'',
     ''swarm_exporter_events_dropped_total'', ''swarm_exporter_poll_rejections_total'', ''swarm_exporter_resyncs_total'',
     ''swarm_exporter_last_poll_success_timestamp_seconds'', ''swarm_exporter_last_resync_success_timestamp_seconds'']"

lemma exporter_page_names: "map printed_name (exporter_page pe m) = own_printed"
  by (simp add: exporter_page_list printed_name_def own_printed_def)

section \<open>The families of a running exporter\<close>

definition containers_ok :: "containers_state \<Rightarrow> bool" where
  "containers_ok cs \<longleftrightarrow> sf_desc (cst_family cs) = \<lparr>desc_name = ''swarm_container_state'', desc_help = CONTAINER_STATE_HELP, desc_label_names = container_label_names\<rparr>
     \<and> sc_descs (sf_collector (cst_family cs)) = [sf_desc (cst_family cs)] \<and> collector_ok (sf_collector (cst_family cs))"

lemma containers_ok_new: "containers_ok (containers_state_new config)"
  by (simp add: containers_ok_def containers_state_new_def sf_new_def LABEL_CONTAINER_def LABEL_STATE_def) (simp add: sc_new_def)

lemma containers_ok_update:
  assumes "containers_ok cs"
  shows "containers_ok (update_containers rows cs)"
proof (cases "sb_build (build_containers_state (cst_family cs) rows)")
  case (Inr families)
  let ?f = "cst_family cs"
  have states: "builder_ok [sf_desc ?f] (fold (state_series ?f base) states b)" if "builder_ok [sf_desc ?f] b" for base states b
    using that by (induction states arbitrary: b) (auto simp: state_series_def Let_def builder_ok_set)
  have "builder_ok [sf_desc ?f] (fold (\<lambda>base. fold (state_series ?f base) KNOWN_CONTAINER_STATES) rows b)" if "builder_ok [sf_desc ?f] b" for b
    using that states by (induction rows arbitrary: b) auto
  then have "builder_ok (sc_descs (sf_collector ?f)) (build_containers_state ?f rows)"
    using assms by (simp add: containers_ok_def build_containers_state_def)
  then show ?thesis using assms collector_ok_publish Inr by (simp add: containers_ok_def update_containers_def)
qed (use assms in \<open>simp add: update_containers_def\<close>)

lemma containers_ok_polls: "containers_ok cs \<Longrightarrow> containers_ok (fold update_containers polls cs)"
  by (induction polls arbitrary: cs) (simp_all add: containers_ok_update)

lemma update_descs_readable:
  assumes "custom_ok cls"
  shows "desc_readable (gv_desc (su_state (service_update_new cls)))" "desc_readable (gv_desc (su_started (service_update_new cls)))"
    "desc_readable (gv_desc (su_completed (service_update_new cls)))"
    "gname (su_state (service_update_new cls)) = ''swarm_service_update_state_info''"
    "gname (su_started (service_update_new cls)) = ''swarm_service_update_started_timestamp_seconds''"
    "gname (su_completed (service_update_new cls)) = ''swarm_service_update_completed_timestamp_seconds''"
  using base_label_names_valid [OF assms] base_label_names_distinct [OF assms] state_not_base [OF assms] state_valid
  by (simp_all add: desc_readable_def service_update_new_def gv_new_def Let_def is_metric_name_def prefix_of_def is_name_char_def is_ascii_alphabetic_def
      is_ascii_lowercase_def)

lemma rs_descs_readable:
  assumes "custom_ok cls"
  shows "list_all desc_readable [rs_state_desc (replicas_state_new cls), rs_running_desc (replicas_state_new cls), rs_at_desired_desc (replicas_state_new cls)]"
    "map desc_name [rs_state_desc (replicas_state_new cls), rs_running_desc (replicas_state_new cls), rs_at_desired_desc (replicas_state_new cls)] =
       [''swarm_task_replicas_state'', ''swarm_service_running_replicas'', ''swarm_service_at_desired'']"
proof -
  have l: "list_all is_valid_label_name (base_label_names cls)" "distinct (base_label_names cls)" "LABEL_STATE \<notin> set (base_label_names cls)"
    using base_label_names_valid base_label_names_distinct state_not_base assms by blast+
  have st: "list_all is_valid_label_name (state_label_names cls)" "distinct (state_label_names cls)"
    using l state_valid by (auto simp: state_label_names_def base_label_names_def)
  note fixed = sanitize_names_fixed [OF l(1)] sanitize_names_fixed [OF st(1)]
  show "list_all desc_readable [rs_state_desc (replicas_state_new cls), rs_running_desc (replicas_state_new cls), rs_at_desired_desc (replicas_state_new cls)]"
    using l st by (simp add: desc_readable_def replicas_state_new_def Let_def fixed REPLICAS_STATE_HELP_def RUNNING_REPLICAS_HELP_def AT_DESIRED_HELP_def is_metric_name_def prefix_of_def is_name_char_def is_ascii_alphabetic_def is_ascii_lowercase_def)
  show "map desc_name [rs_state_desc (replicas_state_new cls), rs_running_desc (replicas_state_new cls), rs_at_desired_desc (replicas_state_new cls)] =
       [''swarm_task_replicas_state'', ''swarm_service_running_replicas'', ''swarm_service_at_desired'']"
    by (simp add: replicas_state_new_def Let_def)
qed

lemma fixed_descs_readable:
  "desc_readable nodes_by_state_desc" "desc_name nodes_by_state_desc = ''swarm_cluster_nodes_by_state''"
  "desc_readable \<lparr>desc_name = ''swarm_container_state'', desc_help = CONTAINER_STATE_HELP, desc_label_names = container_label_names\<rparr>"
  "desc_readable \<lparr>desc_name = ''swarm_exporter_build_info'', desc_help = ''Build information for this exporter.'', desc_label_names = [''version'', ''commit'', ''date'']\<rparr>"
  by code_simp+

text \<open>The process collector's families, of which only this is given.\<close>

definition runtime_ok :: "(string \<Rightarrow> 'r option) \<Rightarrow> typed_family list \<Rightarrow> bool" where
  "runtime_ok decimal runtime \<longleftrightarrow> distinct (map printed_name runtime)
     \<and> (\<forall>f \<in> set runtime. typed_ok decimal f \<and> named_ok f \<and> tf_kind f \<noteq> HistogramType \<and> starts_with ''process_'' (tf_name f))"

definition gauge_set_ok :: "string list \<Rightarrow> gauge_vec list \<Rightarrow> bool" where
  "gauge_set_ok names gs \<longleftrightarrow> list_all gauge_readable gs \<and> distinct (map gname gs) \<and> set (map gname gs) \<subseteq> set names"

lemma gauge_set_ok_append: "gauge_set_ok ns gs \<Longrightarrow> gauge_set_ok ms hs \<Longrightarrow> set ns \<inter> set ms = {} \<Longrightarrow> gauge_set_ok (ns @ ms) (gs @ hs)"
  by (auto simp: gauge_set_ok_def)

lemma gauge_set_ok_collector: "collector_ok c \<Longrightarrow> list_all desc_readable (sc_descs c) \<Longrightarrow> gauge_set_ok (map desc_name (sc_descs c)) (collector_gauges c)"
  using collector_readable by (simp add: gauge_set_ok_def)

lemma before_health_ok:
  assumes "families_ok cls r"
  shows "gauge_set_ok ([''swarm_service_desired_replicas'', ''swarm_service_schedulable_replicas'']
    @ [''swarm_task_replicas_state'', ''swarm_service_running_replicas'', ''swarm_service_at_desired'']) (before_health (rc_collectors r))"
proof -
  let ?co = "rc_collectors r"
  have fam: "custom_ok cls" "gauges_ok cls (co_replica_gauges ?co)" "rs_descs_ok cls (co_replicas_state ?co)" using assms by (simp_all add: families_ok_def)
  note g = replica_gauges_readable [OF fam(1,2)] and d = rs_descs_readable [OF fam(1)]
  have c: "collector_ok (rs_collector (co_replicas_state ?co))" "sc_descs (rs_collector (co_replicas_state ?co)) =
      [rs_state_desc (replicas_state_new cls), rs_running_desc (replicas_state_new cls), rs_at_desired_desc (replicas_state_new cls)]"
    using fam(3) by (simp_all add: rs_descs_ok_def)
  have "gauge_set_ok [''swarm_service_desired_replicas'', ''swarm_service_schedulable_replicas''] [rg_desired (co_replica_gauges ?co), rg_schedulable (co_replica_gauges ?co)]"
    using g by (simp add: gauge_set_ok_def)
  moreover have "gauge_set_ok [''swarm_task_replicas_state'', ''swarm_service_running_replicas'', ''swarm_service_at_desired''] (collector_gauges (rs_collector (co_replicas_state ?co)))"
    using gauge_set_ok_collector [OF c(1)] d unfolding c(2) by simp
  ultimately show ?thesis unfolding before_health_def by (intro gauge_set_ok_append) simp_all
qed

lemma build_info_gauge:
  assumes "health_gauges_new version commit date = Inr hg"
  shows "gauge_readable (hg_build_info hg)" "gname (hg_build_info hg) = ''swarm_exporter_build_info''"
proof -
  have g: "hg_build_info hg = \<lparr>gv_desc = \<lparr>desc_name = exporter_name ''build_info'', desc_help = ''Build information for this exporter.'',
      desc_label_names = [''version'', ''commit'', ''date'']\<rparr>, gv_children = bt_insert [version, commit, date] 1 []\<rparr>"
    using assms by (auto simp: health_gauges_new_def gv_set_def gv_new_def must_def split: sum.splits if_splits)
  then show "gname (hg_build_info hg) = ''swarm_exporter_build_info''" by (simp add: exporter_name_def)
  have "bt_ok (bt_insert [version, commit, date] (1 :: int) [])" by (simp add: bt_ok_def)
  then show "gauge_readable (hg_build_info hg)"
    using fixed_descs_readable(4) by (simp add: g gauge_readable_def desc_readable_def exporter_name_def)
qed

lemma before_own_ok:
  assumes "families_ok cls r" and "health_gauges_new version commit date = Inr hg"
  shows "gauge_set_ok ([''swarm_exporter_build_info''] @ [''swarm_cluster_nodes_by_state'']) (before_own (rc_collectors r) hg)"
proof -
  let ?c = "sf_collector (co_nodes_by_state (rc_collectors r))"
  have c: "collector_ok ?c" "sc_descs ?c = [nodes_by_state_desc]" using assms(1) by (simp_all add: families_ok_def nodes_ok_def)
  have "gauge_set_ok [''swarm_cluster_nodes_by_state''] (collector_gauges ?c)" using gauge_set_ok_collector [OF c(1)] fixed_descs_readable(1,2) by (simp add: c(2))
  moreover have "gauge_set_ok [''swarm_exporter_build_info''] [hg_build_info hg]" using build_info_gauge [OF assms(2)] by (simp add: gauge_set_ok_def)
  ultimately have "gauge_set_ok ([''swarm_exporter_build_info''] @ [''swarm_cluster_nodes_by_state'']) ([hg_build_info hg] @ collector_gauges ?c)"
    by (intro gauge_set_ok_append) simp_all
  then show ?thesis by (simp add: before_own_def)
qed

lemma after_own_ok:
  assumes "families_ok cls r" and "\<forall>cs. containers = Some cs \<longrightarrow> containers_ok cs"
  shows "gauge_set_ok ([''swarm_service_update_state_info'', ''swarm_service_update_started_timestamp_seconds'', ''swarm_service_update_completed_timestamp_seconds'']
    @ [''swarm_container_state'']) (after_own (rc_collectors r) containers)"
proof -
  let ?su = "co_service_update (rc_collectors r)"
  have c: "custom_ok cls" "updates_ok cls ?su" using assms(1) by (simp_all add: families_ok_def)
  note d = update_descs_readable [OF c(1)]
  have "gauge_readable (su_state ?su)" "gauge_readable (su_started ?su)" "gauge_readable (su_completed ?su)"
    using c(2) d gauge_ok_readable unfolding updates_ok_def by metis+
  then have "gauge_set_ok [''swarm_service_update_state_info'', ''swarm_service_update_started_timestamp_seconds'', ''swarm_service_update_completed_timestamp_seconds'']
      [su_state ?su, su_started ?su, su_completed ?su]" using c(2) d by (simp add: gauge_set_ok_def updates_ok_def)
  moreover have "gauge_set_ok [''swarm_container_state''] (case containers of Some cs \<Rightarrow> collector_gauges (sf_collector (cst_family cs)) | None \<Rightarrow> [])"
  proof (cases containers)
    case (Some cs)
    then have "collector_ok (sf_collector (cst_family cs))" "sc_descs (sf_collector (cst_family cs)) =
        [\<lparr>desc_name = ''swarm_container_state'', desc_help = CONTAINER_STATE_HELP, desc_label_names = container_label_names\<rparr>]"
      using assms(2) by (simp_all add: containers_ok_def)
    then show ?thesis using gauge_set_ok_collector [of "sf_collector (cst_family cs)"] fixed_descs_readable(3) by (simp add: Some)
  qed (simp add: gauge_set_ok_def)
  ultimately show ?thesis unfolding after_own_def by (intro gauge_set_ok_append) simp_all
qed

text \<open>A parser of integers, for an example.\<close>

definition plain_decimal :: "string \<Rightarrow> int option" where
  "plain_decimal s =
     (case s of
        [] \<Rightarrow> None
      | c # digits \<Rightarrow> if c = CHR ''-'' then map_option (\<lambda>n. - int n) (digits_value 0 digits) else map_option int (digits_value 0 s))"

lemma plain_reads_back: "reads_back plain_decimal (\<lambda>v. v) int_text v"
proof -
  have d: "number_char c" if "c \<in> set (nat_text n)" for c n
    using nat_text_digits [OF that] by (auto simp: number_char_def digit_value_def is_ascii_digit_def Let_def split: if_splits)
  have t: "nat_text n \<noteq> []" "hd (nat_text n) \<noteq> CHR ''-''" for n
    using nat_text_digits [of "hd (nat_text n)" n] by (auto simp: digit_value_def)
  have "plain_decimal (int_text v) = Some v"
  proof (cases "v < 0")
    case False
    obtain c s where n: "nat_text (nat v) = c # s" "c \<noteq> CHR ''-''" using t [of "nat v"] by (cases "nat_text (nat v)") auto
    then have "digits_value 0 (c # s) = Some (nat v)" using digits_value_nat_text [of "nat v"] by simp
    then show ?thesis using False n by (simp add: plain_decimal_def int_text_def del: digits_value.simps)
  qed (simp add: plain_decimal_def int_text_def digits_value_nat_text)
  moreover have "list_all number_char (int_text v)" using d by (auto simp: int_text_def list_all_iff number_char_def)
  moreover have "int_text v \<noteq> []" using t by (simp add: int_text_def)
  ultimately show ?thesis by (simp add: reads_back_def)
qed

section \<open>The whole page\<close>

definition plain_names :: "string list \<Rightarrow> bool" where
  "plain_names names \<longleftrightarrow> (\<forall>n \<in> set names. n \<notin> histograms \<and> (\<forall>h \<in> histograms. \<forall>x \<in> set hist_suffixes. n \<noteq> h @ x))"

definition family_fine :: "(string \<Rightarrow> 'r option) \<Rightarrow> typed_family \<Rightarrow> bool" where
  "family_fine decimal f \<longleftrightarrow> typed_ok decimal f \<and> apart histograms f \<and> named_ok f"

lemma gauge_fine:
  assumes "typed_ok decimal f" and "tf_kind f \<noteq> HistogramType" and "named_ok f" and "plain_names [printed_name f]"
  shows "family_fine decimal f"
proof -
  have "tf_name f @ fst x = printed_name f" if "x \<in> set (tf_samples f)" for x
    using assms(2,3) that by (auto simp: named_ok_def printed_name_def)
  then have "apart histograms f" using assms(2,4) by (cases "tf_kind f") (simp_all add: apart_def plain_names_def split_def)
  then show ?thesis using assms(1,3) by (simp add: family_fine_def)
qed

lemma printed_gauges:
  assumes "gauge_set_ok names gs" and "\<forall>v. reads_back decimal as_float (pe_value pe) v" and "plain_names names"
  shows "\<forall>f \<in> set (print_gauges pe gs). family_fine decimal f" "distinct (map printed_name (print_gauges pe gs))"
    "set (map printed_name (print_gauges pe gs)) \<subseteq> set names"
proof -
  have n: "map printed_name (print_gauges pe gs) = map gname (filter (\<lambda>g. gv_children g \<noteq> []) gs)"
    unfolding gauge_names [of pe gs, symmetric] using gauge_typed(1) [of _ pe gs] by (simp add: printed_name_def)
  show s: "set (map printed_name (print_gauges pe gs)) \<subseteq> set names" unfolding n using assms(1) by (auto simp: gauge_set_ok_def)
  show "distinct (map printed_name (print_gauges pe gs))" unfolding n using assms(1) by (simp add: gauge_set_ok_def distinct_map inj_on_filter_key_eq inj_on_def)
  show "\<forall>f \<in> set (print_gauges pe gs). family_fine decimal f"
  proof
    fix f
    assume f: "f \<in> set (print_gauges pe gs)"
    note k = gauge_typed [OF f]
    obtain g e where "g \<in> set gs" "e \<in> set (gv_encode g)" "f = typed_gauge pe e" using k(3) by blast
    then have "typed_ok decimal f" using gauge_typed_ok(1) [OF _ assms(2)] assms(1) by (auto simp: gauge_set_ok_def list_all_iff)
    moreover have "named_ok f" using k(1,2) by (simp add: named_ok_def)
    moreover have "plain_names [printed_name f]" using s f assms(3) by (auto simp: plain_names_def)
    ultimately show "family_fine decimal f" using k(1) by (intro gauge_fine) simp_all
  qed
qed

abbreviation page_names :: "string list" where
  "page_names \<equiv> ([''swarm_service_desired_replicas'', ''swarm_service_schedulable_replicas''] @ [''swarm_task_replicas_state'', ''swarm_service_running_replicas'', ''swarm_service_at_desired''])
     @ [''swarm_exporter_health''] @ ([''swarm_exporter_build_info''] @ [''swarm_cluster_nodes_by_state'']) @ own_printed
     @ ([''swarm_service_update_state_info'', ''swarm_service_update_started_timestamp_seconds'', ''swarm_service_update_completed_timestamp_seconds''] @ [''swarm_container_state''])"

lemma page_names_apart: "distinct page_names" "plain_names (filter (\<lambda>n. n \<notin> histograms) page_names)"
  "\<forall>n \<in> set page_names. \<not> starts_with ''process_'' n" "\<forall>n \<in> set page_names \<union> histograms. starts_with ''swarm_'' n"
  by (simp_all add: own_printed_def plain_names_def histograms_def hist_suffixes_def starts_with_def)

lemma plain_names_sub: "plain_names (filter (\<lambda>n. n \<notin> histograms) ns) \<Longrightarrow> set names \<subseteq> set ns - histograms \<Longrightarrow> plain_names names"
  by (auto simp: plain_names_def)

lemma prefix_disjoint: "\<forall>n \<in> A. \<not> starts_with p n \<Longrightarrow> \<forall>f \<in> set fs. starts_with p (g f) \<Longrightarrow> N \<subseteq> A \<Longrightarrow> N \<inter> set (map g fs) = {}"
  by auto

lemma distinct_parts:
  "distinct (a' @ b' @ c' @ d' @ e') \<Longrightarrow> distinct a \<Longrightarrow> distinct b \<Longrightarrow> distinct c \<Longrightarrow> distinct d \<Longrightarrow> distinct e
    \<Longrightarrow> set a \<subseteq> set a' \<Longrightarrow> set b \<subseteq> set b' \<Longrightarrow> set c \<subseteq> set c' \<Longrightarrow> set d \<subseteq> set d' \<Longrightarrow> set e \<subseteq> set e' \<Longrightarrow> distinct (a @ b @ c @ d @ e)"
  by auto

lemma health_family_fine:
  assumes "health_gauges_new version commit date = Inr hg" and "\<forall>v. reads_back decimal as_float (pe_value pe) v"
  defines "f \<equiv> \<lambda>env. typed_gauge pe (sg_encode (hg_health hg) env)"
  shows "family_fine decimal (f env)" "printed_name (f env) = ''swarm_exporter_health''" "tf_kind (f env) = GaugeType"
    "tf_samples (f env) = [('''', [], pe_value pe (sg_value (hg_health hg) env))]"
proof -
  have g: "sg_name (hg_health hg) = exporter_name ''health''" "sg_help (hg_health hg) = ''Exporter health status: 1=healthy, 0=unhealthy.''"
    using assms(1) by (auto simp: health_gauges_new_def must_def gv_set_def gv_new_def)
  show n: "printed_name (f env) = ''swarm_exporter_health''" and k: "tf_kind (f env) = GaugeType"
    and s: "tf_samples (f env) = [('''', [], pe_value pe (sg_value (hg_health hg) env))]"
    by (simp_all add: f_def printed_name_def typed_gauge_def sg_encode_def g(1) exporter_name_def)
  have v: "pe_value pe v \<noteq> [] \<and> list_all solid (pe_value pe v)" "parse_value decimal (pe_value pe v) \<noteq> None" for v
    using assms(2) reads_back_text [of decimal as_float "pe_value pe" v] read_number [of decimal as_float "pe_value pe" v] by simp_all
  have "is_metric_name ''swarm_exporter_health''" "bt_ok ([] :: (string, string) btree)" by code_simp+
  then have "typed_ok decimal (f env)" using v by (simp add: f_def typed_ok_def typed_gauge_def sg_encode_def g exporter_name_def)
  moreover have "plain_names [printed_name (f env)]" unfolding n by (simp add: plain_names_def histograms_def hist_suffixes_def)
  moreover have "named_ok (f env)" by (simp add: named_ok_def k s)
  ultimately show "family_fine decimal (f env)" using k by (intro gauge_fine) simp_all
qed

lemma runtime_fine:
  assumes "runtime_ok decimal runtime" and "f \<in> set runtime"
  shows "family_fine decimal f" "starts_with ''process_'' (printed_name f)"
proof -
  have f: "typed_ok decimal f" "named_ok f" "tf_kind f \<noteq> HistogramType" "starts_with ''process_'' (tf_name f)" using assms by (simp_all add: runtime_ok_def)
  then obtain rest where r: "tf_name f = ''process_'' @ rest" using starts_with_iff by blast
  then show "starts_with ''process_'' (printed_name f)" by (simp add: printed_name_def starts_with_def)
  have "plain_names [printed_name f]" using r by (simp add: plain_names_def printed_name_def histograms_def)
  then show "family_fine decimal f" using f by (intro gauge_fine)
qed

lemma metrics_page_fine:
  assumes "families_ok cls r" and "health_gauges_new version commit date = Inr hg" and "\<forall>cs. containers = Some cs \<longrightarrow> containers_ok cs"
    and "printing_ok decimal as_float seconds pe" and "runtime_ok decimal runtime"
    and page_def: "page = metrics_page pe runtime shared now h (rc_collectors r) hg containers"
  shows "\<forall>f \<in> set page. family_fine decimal f" "distinct (map printed_name page)"
proof -
  let ?co = "rc_collectors r" and ?hf = "typed_gauge pe (sg_encode (hg_health hg) (shared, em_timestamps (co_metrics (rc_collectors r)), now, h))"
  have v: "\<forall>v. reads_back decimal as_float (pe_value pe) v" using assms(4) by (simp add: printing_ok_def)
  have plain: "plain_names names" if "set names \<subseteq> set page_names - histograms" for names
    by (rule plain_names_sub [OF page_names_apart(2) that])
  note b = printed_gauges [OF before_health_ok [OF assms(1)] v plain] and o = printed_gauges [OF before_own_ok [OF assms(1,2)] v plain]
    and a = printed_gauges [OF after_own_ok [OF assms(1,3)] v plain] and hf = health_family_fine [OF assms(2) v]
  note x = exporter_page_ok [OF assms(4)] exporter_page_apart [OF assms(4)]
  have page: "page = (print_gauges pe (before_health ?co) @ [?hf] @ print_gauges pe (before_own ?co hg) @ exporter_page pe (co_metrics ?co) @ print_gauges pe (after_own ?co containers)) @ runtime"
    by (simp add: page_def metrics_page_gauges)
  show "\<forall>f \<in> set page. family_fine decimal f"
    unfolding page using b(1) o(1) a(1) hf(1) x runtime_fine(1) [OF assms(5)] by (auto simp: family_fine_def histograms_def)
  let ?names = "map printed_name (print_gauges pe (before_health ?co)) @ [''swarm_exporter_health''] @ map printed_name (print_gauges pe (before_own ?co hg)) @ own_printed
    @ map printed_name (print_gauges pe (after_own ?co containers))"
  have "distinct ?names"
    using b(2,3) o(2,3) a(2,3) page_names_apart(1) by (intro distinct_parts [OF page_names_apart(1)]) (simp_all add: histograms_def)
  moreover have "set ?names \<subseteq> set page_names" using b(3) o(3) a(3) by (auto simp: histograms_def)
  then have "set ?names \<inter> set (map printed_name runtime) = {}" using runtime_fine(2) [OF assms(5)] by (intro prefix_disjoint [OF page_names_apart(3)] ballI)
  moreover have "map printed_name page = ?names @ map printed_name runtime" unfolding page using hf(2) exporter_page_names by simp
  moreover have "distinct (map printed_name runtime)" using assms(5) by (simp add: runtime_ok_def)
  ultimately show "distinct (map printed_name page)" by (simp only: distinct_append)
qed

lemma printed_member:
  assumes "g \<in> set gs" and "(vs, v) \<in> set (gv_children g)"
  shows "\<exists>e \<in> set (gv_encode g). typed_gauge pe e \<in> set (print_gauges pe gs)"
  using assms by (force simp: print_gauges_def gv_encode_def encode_gauge_family_def)

lemma own_values:
  assumes "distinct (map printed_name page)" and "\<forall>f \<in> set page. named_ok f" and "set (exporter_page pe em) \<subseteq> set page" and "printing_ok decimal as_float seconds pe"
    and "samples = concat (map (family_read decimal) page)"
  shows "scrape_value samples ''swarm_exporter_polls_total'' [] = Some (Finite (as_float (int (em_polls em))))"
    "scrape_value samples ''swarm_exporter_poll_errors_total'' [] = Some (Finite (as_float (int (em_poll_errors em))))"
    "scrape_value samples ''swarm_exporter_events_reconnects_total'' [] = Some (Finite (as_float (int (em_events_reconnects em))))"
    "scrape_value samples ''swarm_exporter_events_dropped_total'' [] = Some (Finite (as_float (int (em_events_dropped em))))"
    "scrape_value samples ''swarm_exporter_poll_rejections_total'' [] = Some (Finite (as_float (int (em_poll_rejections em))))"
    "scrape_value samples ''swarm_exporter_last_poll_success_timestamp_seconds'' [] = Some (Finite (seconds (ts_poll_success (em_timestamps em))))"
    "scrape_value samples ''swarm_exporter_last_resync_success_timestamp_seconds'' [] = Some (Finite (seconds (ts_resync_success (em_timestamps em))))"
proof -
  have s: "reads_back decimal seconds (pe_seconds pe) v" and c: "\<forall>n. decimal (nat_text n) = Some (as_float (int n))" for v using assms(4) by (simp_all add: printing_ok_def)
  have count: "parse_value decimal (nat_text n) = Some (Finite (as_float (int n)))" for n using read_number [OF counter_reads [OF c, of n]] by simp
  note one = single_value [OF assms(1,2) subsetD [OF assms(3)]]
  have counters: "scrape_value samples (n @ ''_total'') [] = Some (Finite (as_float (int k)))"
    if "\<lparr>tf_kind = CounterType, tf_name = n, tf_help = t, tf_samples = [(''_total'', [], nat_text k)]\<rparr> \<in> set (exporter_page pe em)" for n t k
    using one [OF that _ _ count, of "''_total''" k] by (simp add: printed_name_def assms(5))
  have times: "scrape_value samples n [] = Some (Finite (seconds x))"
    if "\<lparr>tf_kind = GaugeType, tf_name = n, tf_help = t, tf_samples = [('''', [], pe_seconds pe x)]\<rparr> \<in> set (exporter_page pe em)" for n t x
    using one [OF that _ _ read_number [OF s], of "''''" x] by (simp add: printed_name_def assms(5))
  note page = exporter_page_list [of pe em]
  show "scrape_value samples ''swarm_exporter_polls_total'' [] = Some (Finite (as_float (int (em_polls em))))"
    using counters [of "''swarm_exporter_polls''" "registry_help POLLS_HELP @ ''.''" "em_polls em"] by (simp add: page)
  show "scrape_value samples ''swarm_exporter_poll_errors_total'' [] = Some (Finite (as_float (int (em_poll_errors em))))"
    using counters [of "''swarm_exporter_poll_errors''" "registry_help POLL_ERRORS_HELP @ ''.''" "em_poll_errors em"] by (simp add: page)
  show "scrape_value samples ''swarm_exporter_events_reconnects_total'' [] = Some (Finite (as_float (int (em_events_reconnects em))))"
    using counters [of "''swarm_exporter_events_reconnects''" "registry_help EVENTS_RECONNECTS_HELP @ ''.''" "em_events_reconnects em"] by (simp add: page)
  show "scrape_value samples ''swarm_exporter_events_dropped_total'' [] = Some (Finite (as_float (int (em_events_dropped em))))"
    using counters [of "''swarm_exporter_events_dropped''" "registry_help EVENTS_DROPPED_HELP @ ''.''" "em_events_dropped em"] by (simp add: page)
  show "scrape_value samples ''swarm_exporter_poll_rejections_total'' [] = Some (Finite (as_float (int (em_poll_rejections em))))"
    using counters [of "''swarm_exporter_poll_rejections''" "registry_help POLL_REJECTIONS_HELP @ ''.''" "em_poll_rejections em"] by (simp add: page)
  show "scrape_value samples ''swarm_exporter_last_poll_success_timestamp_seconds'' [] = Some (Finite (seconds (ts_poll_success (em_timestamps em))))"
    using times [of "''swarm_exporter_last_poll_success_timestamp_seconds''" LAST_POLL_SUCCESS_HELP "ts_poll_success (em_timestamps em)"] by (simp add: page)
  show "scrape_value samples ''swarm_exporter_last_resync_success_timestamp_seconds'' [] = Some (Finite (seconds (ts_resync_success (em_timestamps em))))"
    using times [of "''swarm_exporter_last_resync_success_timestamp_seconds''" LAST_RESYNC_SUCCESS_HELP "ts_resync_success (em_timestamps em)"] by (simp add: page)
qed

lemma health_value:
  assumes "distinct (map printed_name page)" and "\<forall>f \<in> set page. named_ok f" and "typed_gauge pe (sg_encode (hg_health hg) (shared, ts, now, h)) \<in> set page"
    and "health_gauges_new version commit date = Inr hg" and "\<forall>v. reads_back decimal as_float (pe_value pe) v"
  shows "scrape_value (concat (map (family_read decimal) page)) ''swarm_exporter_health'' [] =
    Some (Finite (as_float (if fst (health_snapshot shared ts now h) then 1 else 0)))"
proof -
  have g: "sg_value (hg_health hg) (shared, ts, now, h) = (if fst (health_snapshot shared ts now h) then 1 else 0)"
    using assms(4) by (auto simp: health_gauges_new_def must_def gv_set_def gv_new_def sg_value_def)
  note f = health_family_fine [OF assms(4,5)]
  have "parse_value decimal (pe_value pe v) = Some (Finite (as_float v))" for v using read_number assms(5) by blast
  from single_value [OF assms(1-3) _ f(4) this] show ?thesis unfolding f(2) g using f(3) by simp
qed


definition plain_printing :: printing where
  "plain_printing = \<lparr>pe_value = int_text, pe_seconds = int_text, pe_buckets = (\<lambda>ds. [(''_count'', [], nat_text (length ds))])\<rparr>"

lemma plain_printing_ok: "printing_ok plain_decimal (\<lambda>v. v) (\<lambda>v. v) plain_printing"
proof -
  have i: "int_text (int n) = nat_text n" for n by (simp add: int_text_def)
  have r: "reads_back plain_decimal (\<lambda>v. v) int_text v" for v by (rule plain_reads_back)
  have c: "plain_decimal (nat_text n) = Some (int n)" for n using r [of "int n"] by (simp add: reads_back_def i)
  have t: "nat_text n \<noteq> [] \<and> list_all solid (nat_text n)" "parse_value plain_decimal (nat_text n) \<noteq> None" for n
    using reads_back_text [OF r [of "int n"]] read_number [OF r [of "int n"]] by (simp_all add: i)
  show ?thesis using r c t by (simp add: printing_ok_def plain_printing_def hist_suffixes_def bt_ok_def)
qed


end
