(* ===== verification/Test_Cluster.thy ===== *)
theory Test_Cluster
  imports Net_Addr Decimal Command_Line
begin

text \<open>
  The harness of the end-to-end tests, \<^verbatim>\<open>src/testenv/src\<close>: a throwaway Swarm of Docker-in-Docker nodes
  (\<^verbatim>\<open>cluster.rs\<close>, \<^verbatim>\<open>dind.rs\<close>), the workload image loaded on every node (\<^verbatim>\<open>images.rs\<close>), and the names a run
  goes by (\<^verbatim>\<open>config.rs\<close>). A step is a function of the outside world, which it may change, to its result or
  error; a step that does not return has none. The Docker client and the \<^verbatim>\<open>testenv-core\<close> library are given:
  the engine record holds what each of their calls answers and does to the world, the time allowed included.
\<close>

section \<open>Names\<close>

record env_ids =
  ei_bytes :: nat
  ei_label :: string
  ei_prefix :: string

definition ENV_IDS :: env_ids where
  "ENV_IDS = \<lparr>ei_bytes = 4, ei_label = ''swarm-scheduler-exporter.it.envid'', ei_prefix = ''sse-it''\<rparr>"

record label_keys =
  lk_env_id :: string
  lk_owner :: string
  lk_started :: string
  lk_pid_namespace :: string

definition LABELS :: label_keys where
  "LABELS = \<lparr>lk_env_id = ei_label ENV_IDS, lk_owner = ''swarm-scheduler-exporter.it.owner'',
     lk_started = ''swarm-scheduler-exporter.it.started'', lk_pid_namespace = ''swarm-scheduler-exporter.it.pidns''\<rparr>"

record run_resources =
  rr_remove_volumes :: bool
  rr_networks :: bool
  rr_images :: bool

definition RESOURCES :: run_resources where
  "RESOURCES = \<lparr>rr_remove_volumes = True, rr_networks = True, rr_images = False\<rparr>"

definition ENV_STALE_AFTER :: string where "ENV_STALE_AFTER = ''SSE_IT_STALE_AFTER''"
definition ENV_BINARY :: string where "ENV_BINARY = ''SSE_IT_BINARY''"
definition ENV_DIND_IMAGE :: string where "ENV_DIND_IMAGE = ''SSE_IT_DIND_IMAGE''"
definition ENV_WORKERS :: string where "ENV_WORKERS = ''SSE_IT_WORKERS''"
definition ENV_KEEP_ON_FAILURE :: string where "ENV_KEEP_ON_FAILURE = ''SSE_IT_KEEP_ON_FAILURE''"

definition DEFAULT_WORKER_COUNT :: nat where "DEFAULT_WORKER_COUNT = 2"
definition DEFAULT_DIND_IMAGE :: string where "DEFAULT_DIND_IMAGE = ''docker:29.8.1-dind''"
definition WORKLOAD_IMAGE :: string where
  "WORKLOAD_IMAGE = ''busybox:1.37.0@sha256:bdf57e528e45e4433820e045b29b4597825a1c9e38353532d90a01445013f82e''"
definition LOADED_IMAGE_ID_PREFIX :: string where "LOADED_IMAGE_ID_PREFIX = ''Loaded image ID: ''"
definition LOADED_IMAGE_REF_PREFIX :: string where "LOADED_IMAGE_REF_PREFIX = ''Loaded image: ''"
definition DIND_DAEMON_PORT :: string where "DIND_DAEMON_PORT = ''2375/tcp''"
definition SWARM_MANAGE_PORT :: string where "SWARM_MANAGE_PORT = ''2377''"
definition DAEMON_READY_WAIT :: nanos where "DAEMON_READY_WAIT = secs 60"
definition SWARM_READY_WAIT :: nanos where "SWARM_READY_WAIT = secs 90"
definition POLL_INTERVAL :: nanos where "POLL_INTERVAL = millis 500"
definition SWARM_OP_TIMEOUT :: nanos where "SWARM_OP_TIMEOUT = secs 90"
definition IMAGE_TRANSFER_TIMEOUT :: nanos where "IMAGE_TRANSFER_TIMEOUT = secs (5 * 60)"
definition TEARDOWN_TIMEOUT :: nanos where "TEARDOWN_TIMEOUT = secs (2 * 60)"

section \<open>Errors\<close>

text \<open>A failed call of the client, or the end of its time or of the run.\<close>

record op_error =
  oe_not_found :: bool
  oe_text :: string

text \<open>Every message of the harness, with what it names.\<close>

datatype spec_error = WorkersOutOfRange string | WorkersSyntax string | WorkersNegative int | KeepSyntax string

datatype operation =
    PauseNode string
  | UnpauseNode string
  | InspectNode string
  | InspectHostImage string
  | PullHostImage string
  | CreateNetwork string
  | CreateNode string
  | StartNode string
  | Ping
  | SwarmInit string
  | SwarmInspect string
  | SwarmJoin string
  | NodeList
  | NodeInfo string
  | ImageLoad
  | InspectLoaded string

datatype node_error = NotAttached string string | PortMissing string | HostPort string string

datatype archive_error = CreateArchive string | SaveImage string string | WriteArchive string string | CloseArchive string | OpenArchive string

datatype load_error = LoadReported string | NotLoaded | ImageIdsDiffer string string string string

datatype harness_error =
    SpecError spec_error
  | OpError operation op_error
  | NodeError node_error
  | ArchiveError archive_error
  | LoadError load_error
  | CoreFailed string
  | NotInCluster string
  | ConnectHost string
  | ConnectNode string string
  | NodesReady nat nat
  | NotInTime string nanos harness_error
  | RunEnded string string harness_error
  | OnNode string harness_error
  | BringUp string harness_error

section \<open>The settings of a run\<close>

record cluster_spec =
  sp_env_id :: string
  sp_binary :: string
  sp_dind_image :: string
  sp_workers :: nat
  sp_keep_on_failure :: bool

text \<open>\<^verbatim>\<open>parse::<i64>\<close>: left to right, so the first digit that is none, or that overflows, decides; which of them, when it fails.\<close>

definition i64_fits :: "int \<Rightarrow> bool" where
  "i64_fits v \<longleftrightarrow> - (2 ^ 63) \<le> v \<and> v < 2 ^ 63"

fun i64_digits :: "int \<Rightarrow> int \<Rightarrow> string \<Rightarrow> bool + int" where
  "i64_digits sign acc [] = Inr acc"
| "i64_digits sign acc (c # s) =
     (case digit_value c of
        None \<Rightarrow> Inl False
      | Some d \<Rightarrow> if \<not> i64_fits (acc * 10) then Inl True
                  else if \<not> i64_fits (acc * 10 + sign * int d) then Inl True
                  else i64_digits sign (acc * 10 + sign * int d) s)"

definition i64_from_str :: "string \<Rightarrow> bool + int" where
  "i64_from_str s =
     (case s of
        [] \<Rightarrow> Inl False
      | c # rest \<Rightarrow>
          if (c = CHR ''+'' \<or> c = CHR ''-'') \<and> rest = [] then Inl False
          else if c = CHR ''-'' then i64_digits (- 1) 0 rest
          else if c = CHR ''+'' then i64_digits 1 0 rest
          else i64_digits 1 0 s)"

definition parse_bool :: "string \<Rightarrow> bool option" where
  "parse_bool s =
     (if s \<in> set [''1'', ''t'', ''T'', ''TRUE'', ''true'', ''True''] then Some True
      else if s \<in> set [''0'', ''f'', ''F'', ''FALSE'', ''false'', ''False''] then Some False
      else None)"

definition parse_workers :: "string \<Rightarrow> harness_error + nat" where
  "parse_workers raw =
     (if raw = [] then Inr DEFAULT_WORKER_COUNT
      else case i64_from_str raw of
             Inl overflow \<Rightarrow> Inl (SpecError (if overflow then WorkersOutOfRange raw else WorkersSyntax raw))
           | Inr parsed \<Rightarrow> if parsed < 0 then Inl (SpecError (WorkersNegative parsed)) else Inr (nat parsed))"

definition parse_keep :: "string \<Rightarrow> harness_error + bool" where
  "parse_keep raw =
     (if raw = [] then Inr False
      else case parse_bool raw of Some b \<Rightarrow> Inr b | None \<Rightarrow> Inl (SpecError (KeepSyntax raw)))"

definition spec_from_env :: "(env_ids \<Rightarrow> string + string) \<Rightarrow> (string \<Rightarrow> string option) \<Rightarrow> harness_error + cluster_spec" where
  "spec_from_env generate getenv =
     (let get = (\<lambda>key. case getenv key of Some v \<Rightarrow> v | None \<Rightarrow> '''') in
      case parse_workers (get ENV_WORKERS) of
        Inl e \<Rightarrow> Inl e
      | Inr workers \<Rightarrow>
          (case parse_keep (get ENV_KEEP_ON_FAILURE) of
             Inl e \<Rightarrow> Inl e
           | Inr keep \<Rightarrow>
               (let dind_image = (if get ENV_DIND_IMAGE = [] then DEFAULT_DIND_IMAGE else get ENV_DIND_IMAGE) in
                case generate ENV_IDS of
                  Inl e \<Rightarrow> Inl (CoreFailed e)
                | Inr env_id \<Rightarrow>
                    Inr \<lparr>sp_env_id = env_id, sp_binary = get ENV_BINARY, sp_dind_image = dind_image,
                         sp_workers = workers, sp_keep_on_failure = keep\<rparr>)))"

section \<open>The cluster\<close>

datatype node_role = Manager | Worker

record cluster_node =
  nd_name :: string
  nd_container_id :: string
  nd_hostname :: string
  nd_role :: node_role
  nd_swarm_node_id :: string
  nd_host_port :: nat
  nd_docker_host :: string
  nd_bridge_ip :: string

record cluster =
  cl_spec :: cluster_spec
  cl_manager :: cluster_node
  cl_nodes :: "cluster_node list"
  cl_workload_image_id :: string
  cl_started_at :: timestamp
  cl_owner :: string

definition cluster_workers :: "cluster \<Rightarrow> cluster_node list" where
  "cluster_workers c = filter (\<lambda>n. nd_role n = Worker) (cl_nodes c)"

definition node_by_swarm_id :: "cluster \<Rightarrow> string \<Rightarrow> harness_error + cluster_node" where
  "node_by_swarm_id c swarm_id =
     (case List.find (\<lambda>n. nd_swarm_node_id n = swarm_id) (cl_nodes c) of
        Some n \<Rightarrow> Inr n
      | None \<Rightarrow> Inl (NotInCluster swarm_id))"

section \<open>The engine\<close>

datatype daemon = Host | NodeAt string

record network_request =
  nr_name :: string
  nr_driver :: string
  nr_labels :: "(string \<times> string) list"

record container_body =
  cb_image :: string
  cb_hostname :: string
  cb_env :: "string list"
  cb_cmd :: "string list"
  cb_labels :: "(string \<times> string) list"
  cb_exposed_ports :: "string list"
  cb_privileged :: bool
  cb_port_bindings :: "(string \<times> (string \<times> string) list) list"
  cb_networks :: "string list"

text \<open>What an inspect tells of a container: whether it is paused, its address on each network, and per port the host ports bound.\<close>

record network_view =
  nv_networks :: "(string, string option) hmap option"
  nv_ports :: "(string, string option list option) hmap option"

record container_view =
  cv_paused :: "bool option option"
  cv_network_settings :: "network_view option"

record join_request =
  jr_listen_addr :: string
  jr_advertise_addr :: string
  jr_remote_addrs :: "string list"
  jr_join_token :: string

datatype swarm_node_state = ReadyState | OtherState string

datatype load_message = LoadInfo "string option" | LoadStreamError string | LoadFailed op_error

text \<open>The sweep and the cleanup a run asks for: the labels it goes by, what it leaves, and the time of one call.\<close>

record host_sweep =
  hs_labels :: label_keys
  hs_resources :: run_resources
  hs_op_timeout :: nanos

record sweep_rules =
  sr_now :: timestamp
  sr_stale_after :: nanos
  sr_self_id :: string
  sr_owner :: string

text \<open>The clock, the log and \<^verbatim>\<open>testenv-core\<close>; the daemons' images and containers; their Swarm, and the files.\<close>

record 'w core_calls =
  en_now :: "'w \<Rightarrow> nanos"
  en_wall :: "'w \<Rightarrow> timestamp"
  en_tick :: "nanos \<Rightarrow> nat \<Rightarrow> 'w \<Rightarrow> (string + unit) \<times> 'w"
  en_log :: "string \<Rightarrow> (string \<times> string) list \<Rightarrow> 'w \<Rightarrow> 'w"
  en_op_timeout :: nanos
  en_owner :: "string + string"
  en_stale_after :: "string \<Rightarrow> string + nanos"
  en_run_labels :: "label_keys \<Rightarrow> string \<Rightarrow> string \<Rightarrow> timestamp \<Rightarrow> (string \<times> string) list"
  en_resource_name :: "env_ids \<Rightarrow> string \<Rightarrow> string \<Rightarrow> string"
  en_cleanup_command :: "run_resources \<Rightarrow> string \<Rightarrow> string"
  en_cli_filter :: "env_ids \<Rightarrow> string \<Rightarrow> string"
  en_sweep :: "host_sweep \<Rightarrow> sweep_rules \<Rightarrow> 'w \<Rightarrow> 'w"
  en_cleanup :: "host_sweep \<Rightarrow> nanos option \<Rightarrow> string \<Rightarrow> 'w \<Rightarrow> (string + unit) \<times> 'w"

record 'w daemon_calls = "'w core_calls" +
  en_connect_host :: "nanos \<Rightarrow> string + unit"
  en_connect :: "string \<Rightarrow> nat \<Rightarrow> string + unit"
  en_inspect_image :: "daemon \<Rightarrow> nanos \<Rightarrow> string \<Rightarrow> 'w \<Rightarrow> (op_error + string option) \<times> 'w"
  en_create_image :: "nanos \<Rightarrow> string \<Rightarrow> 'w \<Rightarrow> ((op_error + unit) list \<times> op_error option) \<times> 'w"
  en_create_network :: "nanos \<Rightarrow> network_request \<Rightarrow> 'w \<Rightarrow> (op_error + unit) \<times> 'w"
  en_create_container :: "nanos \<Rightarrow> string \<Rightarrow> container_body \<Rightarrow> 'w \<Rightarrow> (op_error + string) \<times> 'w"
  en_start_container :: "nanos \<Rightarrow> string \<Rightarrow> 'w \<Rightarrow> (op_error + unit) \<times> 'w"
  en_inspect_container :: "nanos \<Rightarrow> string \<Rightarrow> 'w \<Rightarrow> (op_error + container_view) \<times> 'w"
  en_pause_container :: "nanos \<Rightarrow> string \<Rightarrow> 'w \<Rightarrow> (op_error + unit) \<times> 'w"
  en_unpause_container :: "nanos \<Rightarrow> string \<Rightarrow> 'w \<Rightarrow> (op_error + unit) \<times> 'w"
  en_export_images :: "nanos \<Rightarrow> string \<Rightarrow> 'w \<Rightarrow> ((string + string) list \<times> string option) \<times> 'w"
  en_import_image :: "daemon \<Rightarrow> nanos \<Rightarrow> string \<Rightarrow> 'w \<Rightarrow> (load_message list \<times> op_error option) \<times> 'w"

record 'w engine = "'w daemon_calls" +
  en_ping :: "daemon \<Rightarrow> nanos \<Rightarrow> 'w \<Rightarrow> (op_error + unit) \<times> 'w"
  en_init_swarm :: "daemon \<Rightarrow> nanos \<Rightarrow> string \<Rightarrow> string \<Rightarrow> 'w \<Rightarrow> (op_error + unit) \<times> 'w"
  en_inspect_swarm :: "daemon \<Rightarrow> nanos \<Rightarrow> 'w \<Rightarrow> (op_error + string option option) \<times> 'w"
  en_join_swarm :: "daemon \<Rightarrow> nanos \<Rightarrow> join_request \<Rightarrow> 'w \<Rightarrow> (op_error + unit) \<times> 'w"
  en_list_nodes :: "daemon \<Rightarrow> nanos \<Rightarrow> 'w \<Rightarrow> (op_error + swarm_node_state option option list) \<times> 'w"
  en_info :: "daemon \<Rightarrow> nanos \<Rightarrow> 'w \<Rightarrow> (op_error + string option option) \<times> 'w"
  en_tempfile :: "string \<Rightarrow> string \<Rightarrow> 'w \<Rightarrow> (string + string) \<times> 'w"
  en_remove_file :: "string \<Rightarrow> 'w \<Rightarrow> 'w"
  en_write :: "string \<Rightarrow> string \<Rightarrow> 'w \<Rightarrow> (string + unit) \<times> 'w"
  en_flush :: "string \<Rightarrow> 'w \<Rightarrow> (string + unit) \<times> 'w"
  en_open :: "string \<Rightarrow> 'w \<Rightarrow> (string + unit) \<times> 'w"

section \<open>Steps\<close>

type_synonym ('w, 'a) step = "'w \<Rightarrow> ((harness_error + 'a) \<times> 'w) option"

definition pure_step :: "'a \<Rightarrow> ('w, 'a) step" where
  "pure_step a w = Some (Inr a, w)"

definition fail_step :: "harness_error \<Rightarrow> ('w, 'a) step" where
  "fail_step e w = Some (Inl e, w)"

definition bind_step :: "('w, 'a) step \<Rightarrow> ('a \<Rightarrow> ('w, 'b) step) \<Rightarrow> ('w, 'b) step" where
  "bind_step m f w =
     (case m w of
        None \<Rightarrow> None
      | Some (Inl e, w) \<Rightarrow> Some (Inl e, w)
      | Some (Inr a, w) \<Rightarrow> f a w)"

text \<open>A call, its error put in words.\<close>

definition call_step :: "('e \<Rightarrow> harness_error) \<Rightarrow> ('w \<Rightarrow> ('e + 'a) \<times> 'w) \<Rightarrow> ('w, 'a) step" where
  "call_step f m w = (case m w of (Inl e, w) \<Rightarrow> Some (Inl (f e), w) | (Inr a, w) \<Rightarrow> Some (Inr a, w))"

text \<open>A call whose answer is taken as it comes.\<close>

definition ask :: "('w \<Rightarrow> 'a \<times> 'w) \<Rightarrow> ('w, 'a) step" where
  "ask m w = (case m w of (a, w) \<Rightarrow> Some (Inr a, w))"

definition result_of :: "harness_error + 'a \<Rightarrow> ('w, 'a) step" where
  "result_of r w = Some (r, w)"

definition effect_step :: "('w \<Rightarrow> 'w) \<Rightarrow> ('w, unit) step" where
  "effect_step f w = Some (Inr (), f w)"

definition in_words :: "(harness_error \<Rightarrow> harness_error) \<Rightarrow> ('w, 'a) step \<Rightarrow> ('w, 'a) step" where
  "in_words f m w = map_option (\<lambda>(r, w). (case r of Inl e \<Rightarrow> Inl (f e) | Inr a \<Rightarrow> Inr a, w)) (m w)"

text \<open>What is done on every path out of a step.\<close>

definition afterwards :: "('w, 'a) step \<Rightarrow> ('w \<Rightarrow> 'w) \<Rightarrow> ('w, 'a) step" where
  "afterwards m f w = map_option (\<lambda>(r, w). (r, f w)) (m w)"

definition on_error :: "('w \<Rightarrow> 'w) \<Rightarrow> ('w, 'a) step \<Rightarrow> ('w, 'a) step" where
  "on_error f m w = map_option (\<lambda>(r, w). (r, case r of Inl _ \<Rightarrow> f w | Inr _ \<Rightarrow> w)) (m w)"

primrec map_steps :: "('a \<Rightarrow> ('w, 'b) step) \<Rightarrow> 'a list \<Rightarrow> ('w, 'b list) step" where
  "map_steps f [] = pure_step []"
| "map_steps f (x # xs) = bind_step (f x) (\<lambda>y. bind_step (map_steps f xs) (\<lambda>ys. pure_step (y # ys)))"

section \<open>Waiting\<close>

text \<open>
  \<open>en_tick start k\<close> waits for the tick number \<open>k\<close> of the ticker started at \<open>start\<close>, or for the end of the run.
  The loop checks, gives up once past the deadline, and otherwise waits for the next tick.
\<close>

partial_function (option) poll_loop :: "'w engine \<Rightarrow> nanos \<Rightarrow> nanos \<Rightarrow> nanos \<Rightarrow> string \<Rightarrow> ('w, unit) step \<Rightarrow> nat \<Rightarrow> 'w \<Rightarrow> ((harness_error + unit) \<times> 'w) option" where
  "poll_loop E start deadline timeout what check k w =
     (case check w of
        None \<Rightarrow> None
      | Some (Inr _, w) \<Rightarrow> Some (Inr (), w)
      | Some (Inl last_error, w) \<Rightarrow>
          if en_now E w > deadline then Some (Inl (NotInTime what timeout last_error), w)
          else case en_tick E start k w of
                 (Inl ended, w) \<Rightarrow> Some (Inl (RunEnded what ended last_error), w)
               | (Inr _, w) \<Rightarrow> poll_loop E start deadline timeout what check (Suc k) w)"

text \<open>The first tick is immediate.\<close>

definition poll_until :: "'w engine \<Rightarrow> nanos \<Rightarrow> string \<Rightarrow> ('w, unit) step \<Rightarrow> ('w, unit) step" where
  "poll_until E timeout what check w =
     (let start = en_now E w in
      poll_loop E start (start + timeout) timeout what check 1 (snd (en_tick E start 0 w)))"

section \<open>Images\<close>

definition log_info :: "'w engine \<Rightarrow> (string \<times> string) list \<Rightarrow> string \<Rightarrow> (string \<times> string) list \<Rightarrow> ('w, unit) step" where
  "log_info E context message details = effect_step (en_log E message (context @ details))"

fun first_failure :: "('e + unit) list \<Rightarrow> 'e option" where
  "first_failure [] = None"
| "first_failure (Inl e # ms) = Some e"
| "first_failure (Inr _ # ms) = first_failure ms"

definition pull_image :: "'w engine \<Rightarrow> string \<Rightarrow> ('w, unit) step" where
  "pull_image E image_ref =
     bind_step (ask (en_create_image E IMAGE_TRANSFER_TIMEOUT image_ref)) (\<lambda>(messages, ended).
       case first_failure messages of
         Some e \<Rightarrow> fail_step (OpError (PullHostImage image_ref) e)
       | None \<Rightarrow> (case ended of
                    Some e \<Rightarrow> fail_step (OpError (PullHostImage image_ref) e)
                  | None \<Rightarrow> pure_step ()))"

definition ensure_host_image :: "'w engine \<Rightarrow> (string \<times> string) list \<Rightarrow> string \<Rightarrow> ('w, unit) step" where
  "ensure_host_image E context image_ref =
     bind_step (ask (en_inspect_image E Host (en_op_timeout E) image_ref)) (\<lambda>inspected.
       case inspected of
         Inr _ \<Rightarrow> pure_step ()
       | Inl e \<Rightarrow>
           if \<not> oe_not_found e then fail_step (OpError (InspectHostImage image_ref) e)
           else bind_step (log_info E context ''pulling image on host'' [(''image'', image_ref)]) (\<lambda>_. pull_image E image_ref))"

definition node_client :: "'w engine \<Rightarrow> cluster_node \<Rightarrow> harness_error + daemon" where
  "node_client E n =
     (case en_connect E (nd_docker_host n) (IMAGE_TRANSFER_TIMEOUT div secs 1) of
        Inl e \<Rightarrow> Inl (ConnectNode (nd_name n) e)
      | Inr _ \<Rightarrow> Inr (NodeAt (nd_docker_host n)))"

record loaded =
  ld_id :: string
  ld_reference :: string

definition loaded_default :: loaded where
  "loaded_default = \<lparr>ld_id = '''', ld_reference = ''''\<rparr>"

definition observe :: "string \<Rightarrow> loaded \<Rightarrow> loaded" where
  "observe stream l =
     (let line = trim_space stream in
      case strip_prefix LOADED_IMAGE_ID_PREFIX line of
        Some i \<Rightarrow> l\<lparr>ld_id := i\<rparr>
      | None \<Rightarrow> (case strip_prefix LOADED_IMAGE_REF_PREFIX line of
                   Some r \<Rightarrow> l\<lparr>ld_reference := r\<rparr>
                 | None \<Rightarrow> l))"

definition finish :: "loaded \<Rightarrow> harness_error + string" where
  "finish l =
     (if ld_id l \<noteq> [] then Inr (ld_id l)
      else if ld_reference l \<noteq> [] then Inr (ld_reference l)
      else Inl (LoadError NotLoaded))"

text \<open>The messages of a load, up to the first that fails; then the end of the stream, or of the time.\<close>

fun read_messages :: "op_error option \<Rightarrow> loaded \<Rightarrow> load_message list \<Rightarrow> op_error + (harness_error + string)" where
  "read_messages ended l [] = (case ended of Some e \<Rightarrow> Inl e | None \<Rightarrow> Inr (finish l))"
| "read_messages ended l (LoadInfo stream # ms) = read_messages ended (observe (case stream of Some s \<Rightarrow> s | None \<Rightarrow> '''') l) ms"
| "read_messages ended l (LoadStreamError e # ms) = Inr (Inl (LoadError (LoadReported e)))"
| "read_messages ended l (LoadFailed e # ms) = Inl e"

definition load_archive :: "'w engine \<Rightarrow> daemon \<Rightarrow> string \<Rightarrow> ('w, string) step" where
  "load_archive E client archive =
     bind_step (ask (en_import_image E client IMAGE_TRANSFER_TIMEOUT archive)) (\<lambda>(messages, ended).
       case read_messages ended loaded_default messages of
         Inl e \<Rightarrow> fail_step (OpError ImageLoad e)
       | Inr loaded_ref \<Rightarrow> result_of loaded_ref)"

fun write_chunks :: "'w engine \<Rightarrow> string \<Rightarrow> string \<Rightarrow> string option \<Rightarrow> (string + string) list \<Rightarrow> ('w, unit) step" where
  "write_chunks E image_ref path ended [] =
     (case ended of
        Some e \<Rightarrow> fail_step (ArchiveError (SaveImage image_ref e))
      | None \<Rightarrow> call_step (ArchiveError \<circ> CloseArchive) (en_flush E path))"
| "write_chunks E image_ref path ended (Inl e # chunks) = fail_step (ArchiveError (SaveImage image_ref e))"
| "write_chunks E image_ref path ended (Inr chunk # chunks) =
     bind_step (call_step (ArchiveError \<circ> WriteArchive image_ref) (en_write E path chunk)) (\<lambda>_. write_chunks E image_ref path ended chunks)"

text \<open>The file goes when the save fails.\<close>

definition save_image_to_file :: "'w engine \<Rightarrow> string \<Rightarrow> ('w, string) step" where
  "save_image_to_file E image_ref =
     bind_step (call_step (ArchiveError \<circ> CreateArchive) (en_tempfile E ''sse-it-workload-'' ''.tar'')) (\<lambda>path.
     on_error (en_remove_file E path)
       (bind_step (ask (en_export_images E IMAGE_TRANSFER_TIMEOUT image_ref)) (\<lambda>(chunks, ended).
        bind_step (write_chunks E image_ref path ended chunks) (\<lambda>_.
        pure_step path))))"

definition load_image_on_node :: "'w engine \<Rightarrow> string \<Rightarrow> cluster_node \<Rightarrow> ('w, string) step" where
  "load_image_on_node E archive n =
     bind_step (call_step (ArchiveError \<circ> OpenArchive) (en_open E archive)) (\<lambda>_.
       in_words (OnNode (nd_name n))
         (bind_step (result_of (node_client E n)) (\<lambda>client.
          bind_step (load_archive E client archive) (\<lambda>loaded_ref.
          bind_step (call_step (OpError (InspectLoaded loaded_ref)) (en_inspect_image E client (en_op_timeout E) loaded_ref)) (\<lambda>inspected.
          pure_step (case inspected of Some i \<Rightarrow> i | None \<Rightarrow> ''''))))))"

fun load_on_nodes :: "'w engine \<Rightarrow> string \<Rightarrow> string \<Rightarrow> string \<Rightarrow> cluster_node list \<Rightarrow> ('w, string) step" where
  "load_on_nodes E archive first image_id [] = pure_step image_id"
| "load_on_nodes E archive first image_id (n # nodes) =
     bind_step (load_image_on_node E archive n) (\<lambda>node_image_id.
       if image_id \<noteq> [] \<and> node_image_id \<noteq> image_id
       then fail_step (LoadError (ImageIdsDiffer first image_id (nd_name n) node_image_id))
       else load_on_nodes E archive first node_image_id nodes)"

definition load_workload_image :: "'w engine \<Rightarrow> (string \<times> string) list \<Rightarrow> cluster_node list \<Rightarrow> ('w, string) step" where
  "load_workload_image E context nodes =
     bind_step (ensure_host_image E context WORKLOAD_IMAGE) (\<lambda>_.
     bind_step (save_image_to_file E WORKLOAD_IMAGE) (\<lambda>archive.
     afterwards
       (bind_step (load_on_nodes E archive (case nodes of n # _ \<Rightarrow> nd_name n | [] \<Rightarrow> '''') '''' nodes) (\<lambda>image_id.
        bind_step (log_info E context ''workload image loaded on every node'' [(''image'', WORKLOAD_IMAGE), (''id'', image_id)]) (\<lambda>_.
        pure_step image_id)))
       (en_remove_file E archive)))"

section \<open>Bring-up\<close>

definition host_client :: "'w engine \<Rightarrow> harness_error + unit" where
  "host_client E = map_sum ConnectHost id (en_connect_host E IMAGE_TRANSFER_TIMEOUT)"

definition create_bridge_network :: "'w engine \<Rightarrow> string \<Rightarrow> (string \<times> string) list \<Rightarrow> ('w, unit) step" where
  "create_bridge_network E name run_labels =
     call_step (OpError (CreateNetwork name)) (en_create_network E (en_op_timeout E) \<lparr>nr_name = name, nr_driver = ''bridge'', nr_labels = run_labels\<rparr>)"

text \<open>\<^verbatim>\<open>parse::<u16>\<close>.\<close>

definition parse_u16 :: "string \<Rightarrow> nat option" where
  "parse_u16 s = (case parse_usize s of Some n \<Rightarrow> if n < 2 ^ 16 then Some n else None | None \<Rightarrow> None)"

definition bridge_address :: "string \<Rightarrow> network_view \<Rightarrow> string option" where
  "bridge_address network settings =
     (case nv_networks settings of
        None \<Rightarrow> None
      | Some networks \<Rightarrow>
          (case hget networks network of
             Some (Some address) \<Rightarrow> if parse_ip_addr address \<noteq> None then Some address else None
           | _ \<Rightarrow> None))"

definition bound_port :: "network_view \<Rightarrow> string option" where
  "bound_port settings =
     (case nv_ports settings of
        None \<Rightarrow> None
      | Some ports \<Rightarrow>
          (case hget ports DIND_DAEMON_PORT of
             Some (Some (binding # _)) \<Rightarrow> Some (case binding of Some p \<Rightarrow> p | None \<Rightarrow> '''')
           | _ \<Rightarrow> None))"

definition node_from_view :: "string \<Rightarrow> string \<Rightarrow> string \<Rightarrow> node_role \<Rightarrow> string \<Rightarrow> container_view \<Rightarrow> harness_error + cluster_node" where
  "node_from_view container_id name hostname role network view =
     (case cv_network_settings view of
        None \<Rightarrow> Inl (NodeError (NotAttached name network))
      | Some settings \<Rightarrow>
          (case bridge_address network settings of
             None \<Rightarrow> Inl (NodeError (NotAttached name network))
           | Some bridge_ip \<Rightarrow>
               (case bound_port settings of
                  None \<Rightarrow> Inl (NodeError (PortMissing name))
                | Some port_text \<Rightarrow>
                    (case parse_u16 port_text of
                       None \<Rightarrow> Inl (NodeError (HostPort name port_text))
                     | Some port \<Rightarrow>
                         Inr \<lparr>nd_name = name, nd_container_id = container_id, nd_hostname = hostname, nd_role = role,
                              nd_swarm_node_id = '''', nd_host_port = port, nd_docker_host = ''tcp://127.0.0.1:'' @ nat_text port,
                              nd_bridge_ip = bridge_ip\<rparr>))))"

definition inspect_node :: "'w engine \<Rightarrow> string \<Rightarrow> string \<Rightarrow> string \<Rightarrow> node_role \<Rightarrow> string \<Rightarrow> ('w, cluster_node) step" where
  "inspect_node E container_id name hostname role network =
     bind_step (call_step (OpError (InspectNode name)) (en_inspect_container E (en_op_timeout E) container_id))
       (\<lambda>view. result_of (node_from_view container_id name hostname role network view))"

definition node_body :: "cluster_spec \<Rightarrow> (string \<times> string) list \<Rightarrow> string \<Rightarrow> string \<Rightarrow> container_body" where
  "node_body spec run_labels network hostname =
     \<lparr>cb_image = sp_dind_image spec, cb_hostname = hostname, cb_env = [''DOCKER_TLS_CERTDIR=''], cb_cmd = [''--tls=false''],
      cb_labels = run_labels, cb_exposed_ports = [DIND_DAEMON_PORT], cb_privileged = True,
      cb_port_bindings = [(DIND_DAEMON_PORT, [(''127.0.0.1'', ''0'')])], cb_networks = [network]\<rparr>"

definition start_node :: "'w engine \<Rightarrow> cluster_spec \<Rightarrow> (string \<times> string) list \<Rightarrow> string \<Rightarrow> string \<times> node_role \<Rightarrow> ('w, cluster_node) step" where
  "start_node E spec run_labels network member =
     (let (hostname, role) = member; name = en_resource_name E ENV_IDS (sp_env_id spec) hostname in
      bind_step (call_step (OpError (CreateNode name)) (en_create_container E (en_op_timeout E) name (node_body spec run_labels network hostname)))
        (\<lambda>container_id.
      bind_step (call_step (OpError (StartNode name)) (en_start_container E (en_op_timeout E) container_id)) (\<lambda>_.
      inspect_node E container_id name hostname role network)))"

definition members :: "nat \<Rightarrow> (string \<times> node_role) list" where
  "members workers = (''manager-0'', Manager) # map (\<lambda>i. (''worker-'' @ nat_text i, Worker)) [0..<workers]"

definition provision_nodes :: "'w engine \<Rightarrow> cluster_spec \<Rightarrow> (string \<times> string) list \<Rightarrow> string \<Rightarrow> ('w, cluster_node list) step" where
  "provision_nodes E spec run_labels network = map_steps (start_node E spec run_labels network) (members (sp_workers spec))"

definition wait_for_daemon :: "'w engine \<Rightarrow> cluster_node \<Rightarrow> ('w, unit) step" where
  "wait_for_daemon E n =
     bind_step (result_of (node_client E n)) (\<lambda>client.
     poll_until E DAEMON_READY_WAIT (''daemon on '' @ nd_name n @ '' answers ping'') (call_step (OpError Ping) (en_ping E client (en_op_timeout E))))"

definition wait_for_daemons :: "'w engine \<Rightarrow> cluster_node list \<Rightarrow> ('w, unit list) step" where
  "wait_for_daemons E nodes = map_steps (wait_for_daemon E) nodes"

definition init_swarm :: "'w engine \<Rightarrow> cluster_node \<Rightarrow> ('w, string) step" where
  "init_swarm E manager =
     bind_step (result_of (node_client E manager)) (\<lambda>client.
     bind_step (call_step (OpError (SwarmInit (nd_name manager)))
                  (en_init_swarm E client SWARM_OP_TIMEOUT (''0.0.0.0:'' @ SWARM_MANAGE_PORT) (nd_bridge_ip manager))) (\<lambda>_.
     bind_step (call_step (OpError (SwarmInspect (nd_name manager))) (en_inspect_swarm E client (en_op_timeout E))) (\<lambda>tokens.
     pure_step (case tokens of Some (Some worker) \<Rightarrow> worker | _ \<Rightarrow> ''''))))"

definition join_worker :: "'w engine \<Rightarrow> string \<Rightarrow> string \<Rightarrow> cluster_node \<Rightarrow> ('w, unit) step" where
  "join_worker E remote_addr token worker =
     bind_step (result_of (node_client E worker)) (\<lambda>client.
     call_step (OpError (SwarmJoin (nd_name worker))) (en_join_swarm E client SWARM_OP_TIMEOUT
       \<lparr>jr_listen_addr = ''0.0.0.0:'' @ SWARM_MANAGE_PORT, jr_advertise_addr = nd_bridge_ip worker,
        jr_remote_addrs = [remote_addr], jr_join_token = token\<rparr>))"

definition join_workers :: "'w engine \<Rightarrow> string \<Rightarrow> cluster_node list \<Rightarrow> string \<Rightarrow> ('w, unit list) step" where
  "join_workers E manager_bridge_ip workers token =
     map_steps (join_worker E (manager_bridge_ip @ '':'' @ SWARM_MANAGE_PORT) token) workers"

definition ready_count :: "swarm_node_state option option list \<Rightarrow> nat" where
  "ready_count listed = length (filter (\<lambda>s. s = Some (Some ReadyState)) listed)"

definition check_ready :: "'w engine \<Rightarrow> daemon \<Rightarrow> nat \<Rightarrow> ('w, unit) step" where
  "check_ready E client total_nodes =
     bind_step (call_step (OpError NodeList) (en_list_nodes E client (en_op_timeout E))) (\<lambda>listed.
       if ready_count listed = total_nodes then pure_step () else fail_step (NodesReady (ready_count listed) total_nodes))"

definition wait_for_swarm_ready :: "'w engine \<Rightarrow> cluster_node \<Rightarrow> nat \<Rightarrow> ('w, unit) step" where
  "wait_for_swarm_ready E manager total_nodes =
     bind_step (result_of (node_client E manager)) (\<lambda>client.
     poll_until E SWARM_READY_WAIT (nat_text total_nodes @ '' swarm nodes Ready'') (check_ready E client total_nodes))"

definition record_swarm_node_id :: "'w engine \<Rightarrow> cluster_node \<Rightarrow> ('w, cluster_node) step" where
  "record_swarm_node_id E n =
     bind_step (result_of (node_client E n)) (\<lambda>client.
     bind_step (call_step (OpError (NodeInfo (nd_name n))) (en_info E client (en_op_timeout E))) (\<lambda>swarm.
     pure_step (n\<lparr>nd_swarm_node_id := (case swarm of Some (Some swarm_id) \<Rightarrow> swarm_id | _ \<Rightarrow> '''')\<rparr>)))"

definition record_swarm_node_ids :: "'w engine \<Rightarrow> cluster_node list \<Rightarrow> ('w, cluster_node list) step" where
  "record_swarm_node_ids E nodes = map_steps (record_swarm_node_id E) nodes"

definition bring_up :: "'w engine \<Rightarrow> cluster_spec \<Rightarrow> string \<Rightarrow> timestamp \<Rightarrow> ('w, cluster_node list \<times> string) step" where
  "bring_up E spec owner started_at =
     (let context = [(''envid'', sp_env_id spec)];
          run_labels = en_run_labels E LABELS (sp_env_id spec) owner started_at;
          network = en_resource_name E ENV_IDS (sp_env_id spec) ''net'' in
      bind_step (ensure_host_image E context (sp_dind_image spec)) (\<lambda>_.
      bind_step (create_bridge_network E network run_labels) (\<lambda>_.
      bind_step (provision_nodes E spec run_labels network) (\<lambda>nodes.
      bind_step (log_info E context ''DinD containers started'' [(''count'', nat_text (length nodes))]) (\<lambda>_.
      bind_step (wait_for_daemons E nodes) (\<lambda>_.
      bind_step (log_info E context ''inner daemons ready'' []) (\<lambda>_.
      bind_step (load_workload_image E context nodes) (\<lambda>workload_image_id.
      bind_step (init_swarm E (hd nodes)) (\<lambda>worker_token.
      bind_step (join_workers E (nd_bridge_ip (hd nodes)) (tl nodes) worker_token) (\<lambda>_.
      bind_step (wait_for_swarm_ready E (hd nodes) (length nodes)) (\<lambda>_.
      bind_step (record_swarm_node_ids E nodes) (\<lambda>nodes.
      bind_step (log_info E context ''all swarm nodes ready'' [(''nodes'', nat_text (length nodes))]) (\<lambda>_.
      pure_step (nodes, workload_image_id))))))))))))))"

definition HOST_SWEEP :: "'w engine \<Rightarrow> host_sweep" where
  "HOST_SWEEP E = \<lparr>hs_labels = LABELS, hs_resources = RESOURCES, hs_op_timeout = en_op_timeout E\<rparr>"

definition cleanup_command :: "'w engine \<Rightarrow> string \<Rightarrow> string" where
  "cleanup_command E env_id = en_cleanup_command E RESOURCES (en_cli_filter E ENV_IDS env_id)"

text \<open>What follows a bring-up that failed.\<close>

definition failed_bring_up :: "'w engine \<Rightarrow> cluster_spec \<Rightarrow> 'w \<Rightarrow> 'w" where
  "failed_bring_up E spec w =
     (let context = [(''envid'', sp_env_id spec)] in
      if sp_keep_on_failure spec
      then en_log E ''bring-up failed; keeping the environment'' (context @ [(''cmd'', cleanup_command E (sp_env_id spec))]) w
      else case en_cleanup E (HOST_SWEEP E) (Some TEARDOWN_TIMEOUT) (sp_env_id spec) w of
             (Inl e, w) \<Rightarrow> en_log E ''bring-up failed and cleanup was incomplete'' (context @ [(''err'', e)]) w
           | (Inr _, w) \<Rightarrow> w)"

definition default_sweep_rules :: "'w engine \<Rightarrow> string \<Rightarrow> string \<Rightarrow> ('w, sweep_rules) step" where
  "default_sweep_rules E self_id owner w =
     (let now = en_wall E w in
      Some (case en_stale_after E ENV_STALE_AFTER of
              Inl e \<Rightarrow> Inl (CoreFailed e)
            | Inr stale_after \<Rightarrow> Inr \<lparr>sr_now = now, sr_stale_after = stale_after, sr_self_id = self_id, sr_owner = owner\<rparr>, w))"

definition up :: "'w engine \<Rightarrow> cluster_spec \<Rightarrow> ('w, cluster) step" where
  "up E spec =
     (let spec = (if sp_dind_image spec = [] then spec\<lparr>sp_dind_image := DEFAULT_DIND_IMAGE\<rparr> else spec);
          context = [(''envid'', sp_env_id spec)] in
      bind_step (log_info E context ''bringing up test swarm; manual cleanup'' [(''cmd'', cleanup_command E (sp_env_id spec))]) (\<lambda>_.
      bind_step (result_of (map_sum CoreFailed id (en_owner E))) (\<lambda>owner.
      bind_step (default_sweep_rules E (sp_env_id spec) owner) (\<lambda>rules.
      bind_step (result_of (host_client E)) (\<lambda>_.
      bind_step (\<lambda>w. Some (Inr (en_wall E w), w)) (\<lambda>started_at.
      bind_step (effect_step (en_sweep E (HOST_SWEEP E) rules)) (\<lambda>_ w.
        case bring_up E spec owner started_at w of
          None \<Rightarrow> None
        | Some (Inr (nodes, workload_image_id), w) \<Rightarrow>
            Some (Inr \<lparr>cl_spec = spec, cl_manager = hd nodes, cl_nodes = nodes, cl_workload_image_id = workload_image_id,
                       cl_started_at = started_at, cl_owner = owner\<rparr>, w)
        | Some (Inl e, w) \<Rightarrow> Some (Inl (BringUp (sp_env_id spec) e), failed_bring_up E spec w))))))))"

section \<open>A running cluster\<close>

definition cluster_down :: "'w engine \<Rightarrow> cluster \<Rightarrow> ('w, unit) step" where
  "cluster_down E c = call_step CoreFailed (en_cleanup E (HOST_SWEEP E) None (sp_env_id (cl_spec c)))"

definition cluster_ensure_host_image :: "'w engine \<Rightarrow> string \<Rightarrow> ('w, unit) step" where
  "cluster_ensure_host_image E image_ref = ensure_host_image E [] image_ref"

definition cluster_labels :: "'w engine \<Rightarrow> cluster \<Rightarrow> (string \<times> string) list" where
  "cluster_labels E c = en_run_labels E LABELS (sp_env_id (cl_spec c)) (cl_owner c) (cl_started_at c)"

definition pause_node :: "'w engine \<Rightarrow> cluster_node \<Rightarrow> ('w, unit) step" where
  "pause_node E n = call_step (OpError (PauseNode (nd_name n))) (en_pause_container E (en_op_timeout E) (nd_container_id n))"

definition unpause_node :: "'w engine \<Rightarrow> cluster_node \<Rightarrow> ('w, unit) step" where
  "unpause_node E n =
     bind_step (call_step (OpError (InspectNode (nd_name n))) (en_inspect_container E (en_op_timeout E) (nd_container_id n))) (\<lambda>inspected.
       case cv_paused inspected of
         Some (Some True) \<Rightarrow> call_step (OpError (UnpauseNode (nd_name n))) (en_unpause_container E (en_op_timeout E) (nd_container_id n))
       | _ \<Rightarrow> pure_step ())"

end
