(* ===== verification/Cluster_Facts.thy ===== *)
theory Cluster_Facts
  imports Test_Cluster
begin

text \<open>
  What a bring-up of \<open>Test_Cluster\<close> guarantees: it returns, a cluster it returns has the shape asked for, with
  every node ready and the workload image loaded, and what it leaves on the host can be found and removed.
\<close>

section \<open>Steps\<close>

definition returns :: "('w, 'a) step \<Rightarrow> bool" where
  "returns m \<longleftrightarrow> (\<forall>w. m w \<noteq> None)"

definition keeps :: "('w \<Rightarrow> bool) \<Rightarrow> ('w, 'a) step \<Rightarrow> bool" where
  "keeps I m \<longleftrightarrow> (\<forall>w r w'. I w \<longrightarrow> m w = Some (r, w') \<longrightarrow> I w')"

named_theorems step_intros

lemma bind_step_Some: "bind_step m f w = Some (r, w') \<longleftrightarrow>
    (\<exists>e. m w = Some (Inl e, w') \<and> r = Inl e) \<or> (\<exists>a w1. m w = Some (Inr a, w1) \<and> f a w1 = Some (r, w'))"
  by (auto simp: bind_step_def split: option.splits sum.splits)

lemma bind_step_Inr: "bind_step m f w = Some (Inr b, w') \<longleftrightarrow> (\<exists>a w1. m w = Some (Inr a, w1) \<and> f a w1 = Some (Inr b, w'))"
  by (simp add: bind_step_Some)

lemma call_step_Inr: "call_step f m w = Some (Inr a, w') \<longleftrightarrow> m w = (Inr a, w')"
  by (auto simp: call_step_def split: prod.splits sum.splits)

lemma result_of_Inr: "result_of r w = Some (Inr a, w') \<longleftrightarrow> r = Inr a \<and> w' = w"
  by (auto simp: result_of_def)

lemma pure_step_Inr: "pure_step a w = Some (Inr b, w') \<longleftrightarrow> b = a \<and> w' = w"
  by (auto simp: pure_step_def)

lemma in_words_Inr: "in_words f m w = Some (Inr a, w') \<longleftrightarrow> m w = Some (Inr a, w')"
  by (cases "m w") (auto simp: in_words_def split: sum.splits)

lemma afterwards_Inr: "afterwards m f w = Some (Inr a, w') \<longleftrightarrow> (\<exists>w1. m w = Some (Inr a, w1) \<and> w' = f w1)"
  by (cases "m w") (auto simp: afterwards_def)

lemma log_info_Inr: "log_info E context message details w = Some (Inr a, w') \<longleftrightarrow> w' = en_log E message (context @ details) w"
  by (auto simp: log_info_def effect_step_def)

lemma ask_Inr: "ask m w = Some (Inr a, w') \<longleftrightarrow> m w = (a, w')"
  by (auto simp: ask_def split: prod.splits)

lemma on_error_Inr: "on_error f m w = Some (Inr a, w') \<longleftrightarrow> m w = Some (Inr a, w')"
  by (cases "m w") (auto simp: on_error_def)

lemmas step_results = ask_Inr on_error_Inr bind_step_Inr call_step_Inr result_of_Inr pure_step_Inr in_words_Inr afterwards_Inr log_info_Inr

lemma map_steps_Inr:
  "map_steps f xs w = Some (Inr ys, w') \<Longrightarrow> list_all2 (\<lambda>x y. \<exists>w1 w2. f x w1 = Some (Inr y, w2)) xs ys"
  by (induction xs arbitrary: w ys) (auto simp: bind_step_Inr pure_step_Inr)

lemma returns_intros [step_intros]:
  "returns (pure_step a)" "returns (fail_step e)" "returns (result_of x)" "returns (effect_step f)" "returns (call_step g c)" "returns (log_info E context message details)"
  "returns m \<Longrightarrow> (\<And>a. returns (k a)) \<Longrightarrow> returns (bind_step m k)" "returns m \<Longrightarrow> returns (in_words h m)" "returns m \<Longrightarrow> returns (afterwards m j)"
  "returns (ask q)" "returns m \<Longrightarrow> returns (on_error j m)"
  by (auto simp: returns_def ask_def on_error_def pure_step_def fail_step_def result_of_def effect_step_def call_step_def log_info_def bind_step_def in_words_def afterwards_def
      split: option.splits sum.splits prod.splits)

lemma returns_map_steps [step_intros]: "(\<And>x. returns (f x)) \<Longrightarrow> returns (map_steps f xs)"
  by (induction xs) (auto intro!: step_intros)

lemma keeps_intros [step_intros]:
  "keeps I (pure_step a)" "keeps I (fail_step e)" "keeps I (result_of x)" "(\<And>w. I w \<Longrightarrow> I (f w)) \<Longrightarrow> keeps I (effect_step f)"
  "(\<And>w. I w \<Longrightarrow> I (en_log E message (context @ details) w)) \<Longrightarrow> keeps I (log_info E context message details)"
  "keeps I m \<Longrightarrow> keeps I (in_words h m)" "keeps I m \<Longrightarrow> (\<And>w. I w \<Longrightarrow> I (j w)) \<Longrightarrow> keeps I (afterwards m j)"
  by (auto simp: keeps_def pure_step_def fail_step_def result_of_def effect_step_def log_info_def in_words_def afterwards_def)

lemma keeps_on_error [step_intros]: "keeps I m \<Longrightarrow> (\<And>w. I w \<Longrightarrow> I (j w)) \<Longrightarrow> keeps I (on_error j m)"
  unfolding keeps_def
proof (intro allI impI)
  fix w r w'
  assume m: "\<forall>w r w'. I w \<longrightarrow> m w = Some (r, w') \<longrightarrow> I w'" and j: "\<And>w. I w \<Longrightarrow> I (j w)" and w: "I w" "on_error j m w = Some (r, w')"
  then obtain w1 where "m w = Some (r, w1)" "w' = (case r of Inl _ \<Rightarrow> j w1 | Inr _ \<Rightarrow> w1)" by (auto simp: on_error_def)
  then show "I w'" using m j w(1) by (cases r) auto
qed

lemma keeps_call [step_intros]:
  assumes "\<And>w. I w \<Longrightarrow> I (snd (c w))"
  shows "keeps I (call_step g c)"
  unfolding keeps_def
proof (intro allI impI)
  fix w r w'
  assume "I w" and "call_step g c w = Some (r, w')"
  then show "I w'" using assms [of w] by (cases "c w") (auto simp: call_step_def split: sum.splits)
qed

lemma keeps_ask [step_intros]: "(\<And>w. I w \<Longrightarrow> I (snd (q w))) \<Longrightarrow> keeps I (ask q)"
  by (auto simp: keeps_def ask_def split: prod.splits) (metis snd_conv)

lemma keeps_bind [step_intros]: "keeps I m \<Longrightarrow> (\<And>a. keeps I (k a)) \<Longrightarrow> keeps I (bind_step m k)"
  unfolding keeps_def bind_step_Some by blast

lemma keeps_map_steps [step_intros]: "(\<And>x. keeps I (f x)) \<Longrightarrow> keeps I (map_steps f xs)"
  by (induction xs) (auto intro!: step_intros)

section \<open>Waiting\<close>

text \<open>
  Of the clock: the ticks of a ticker are at least their number of intervals after its start, and neither a
  tick, a ping nor a list turns the clock back.
\<close>

definition clock_ok :: "'w engine \<Rightarrow> bool" where
  "clock_ok E \<longleftrightarrow> (\<forall>start k w w'. en_tick E start k w = (Inr (), w') \<longrightarrow> start + k * POLL_INTERVAL \<le> en_now E w')
     \<and> (\<forall>start k w. en_now E w \<le> en_now E (snd (en_tick E start k w)))
     \<and> (\<forall>client t w. en_now E w \<le> en_now E (snd (en_ping E client t w))) \<and> (\<forall>client t w. en_now E w \<le> en_now E (snd (en_list_nodes E client t w)))"

lemma poll_loop_returns:
  assumes "clock_ok E" and "returns check" and "\<And>w r w'. check w = Some (r, w') \<Longrightarrow> en_now E w \<le> en_now E w'"
  shows "start + k * POLL_INTERVAL \<le> en_now E w \<Longrightarrow> poll_loop E start deadline timeout what check (Suc k) w \<noteq> None"
proof (induction "Suc deadline - (start + k * POLL_INTERVAL)" arbitrary: k w rule: less_induct)
  case less
  obtain r w1 where c: "check w = Some (r, w1)" using assms(2) unfolding returns_def by (metis not_None_eq surj_pair)
  then have now: "start + k * POLL_INTERVAL \<le> en_now E w1" using assms(3) less.prems by fastforce
  obtain t w2 where t: "en_tick E start (Suc k) w1 = (t, w2)" by force
  have step: "poll_loop E start deadline timeout what check (Suc (Suc k)) w2 \<noteq> None" if "t = Inr ()" "en_now E w1 \<le> deadline"
  proof (rule less.hyps)
    show "Suc deadline - (start + Suc k * POLL_INTERVAL) < Suc deadline - (start + k * POLL_INTERVAL)"
      using now that(2) by (simp add: POLL_INTERVAL_def)
    show "start + Suc k * POLL_INTERVAL \<le> en_now E w2" using assms(1) t that(1) unfolding clock_ok_def by blast
  qed
  show ?case using c t step by (subst poll_loop.simps) (cases r; cases t; auto split: sum.splits)
qed

lemma poll_until_returns:
  assumes "clock_ok E" and "returns check" and "\<And>w r w'. check w = Some (r, w') \<Longrightarrow> en_now E w \<le> en_now E w'"
  shows "returns (poll_until E timeout what check)"
proof -
  have "en_now E w \<le> en_now E (snd (en_tick E (en_now E w) 0 w))" for w using assms(1) by (simp add: clock_ok_def)
  then show ?thesis
    using poll_loop_returns [OF assms, where k = 0] by (simp add: returns_def poll_until_def Let_def)
qed

text \<open>A wait that succeeds ends with a check that did; what the checks and ticks keep, it keeps.\<close>

lemma poll_loop_result:
  assumes "poll_loop E start deadline timeout what check k w = Some (r, w')"
  shows "(r = Inr () \<longrightarrow> (\<exists>w1. check w1 = Some (Inr (), w')))
    \<and> (\<forall>I. keeps I check \<longrightarrow> (\<forall>start k w. I w \<longrightarrow> I (snd (en_tick E start k w))) \<longrightarrow> I w \<longrightarrow> I w')"
proof -
  have "(fst y = Inr () \<longrightarrow> (\<exists>w1. check w1 = Some (Inr (), snd y)))
      \<and> (\<forall>I. keeps I check \<longrightarrow> (\<forall>start k w. I w \<longrightarrow> I (snd (en_tick E start k w))) \<longrightarrow> I w \<longrightarrow> I (snd y))"
    if "poll_loop E start deadline timeout what check k w = Some y" for y
  proof (induction rule: poll_loop.raw_induct [OF _ that])
    case (1 rec E start deadline timeout what check k w y)
    obtain r w1 where c: "check w = Some (r, w1)" using 1(2) by (cases "check w") auto
    then have k1: "I w1" if "keeps I check" "I w" for I using that unfolding keeps_def by blast
    obtain t w2 where t: "en_tick E start k w1 = (t, w2)" by force
    then have k2: "I w2" if "\<forall>start k w. I w \<longrightarrow> I (snd (en_tick E start k w))" "I w1" for I using that by (metis snd_conv)
    show ?case
    proof (cases r)
      case (Inl e)
      show ?thesis
      proof (cases "en_now E w1 > deadline \<or> t \<noteq> Inr ()")
        case True
        then have "fst y \<noteq> Inr ()" "snd y = w1 \<or> snd y = w2" using 1(2) c t Inl by (auto split: if_splits sum.splits)
        then show ?thesis using k1 k2 by metis
      next
        case False
        then have "rec E start deadline timeout what check (Suc k) w2 = Some y" using 1(2) c t Inl by (auto split: sum.splits)
        from 1(1) [OF this] show ?thesis using k1 k2 by metis
      qed
    qed (use 1(2) c k1 in auto)
  qed
  from this [OF assms] show ?thesis unfolding fst_conv snd_conv .
qed

lemma poll_until_Inr: "poll_until E timeout what check w = Some (Inr (), w') \<Longrightarrow> \<exists>w1. check w1 = Some (Inr (), w')"
  unfolding poll_until_def Let_def by (auto dest: poll_loop_result)

lemma keeps_poll_until [step_intros]:
  assumes "keeps I check" and "\<And>start k w. I w \<Longrightarrow> I (snd (en_tick E start k w))"
  shows "keeps I (poll_until E timeout what check)"
  unfolding keeps_def
proof (intro allI impI)
  fix w r w'
  assume i: "I w" and p: "poll_until E timeout what check w = Some (r, w')"
  have "\<forall>start k w. I w \<longrightarrow> I (snd (en_tick E start k w))" using assms(2) by blast
  with poll_loop_result [OF p [unfolded poll_until_def Let_def]] assms(1) assms(2) [OF i] show "I w'" by blast
qed

section \<open>A bring-up returns\<close>

lemma returns_ensure [step_intros]: "returns (ensure_host_image E context image_ref)"
  unfolding ensure_host_image_def pull_image_def by (auto intro!: step_intros split: sum.split option.split)

lemma returns_save [step_intros]: "returns (save_image_to_file E image_ref)"
proof -
  have "returns (write_chunks E image_ref path ended chunks)" for path ended chunks
    by (induction E image_ref path ended chunks rule: write_chunks.induct) (auto intro!: step_intros split: option.split)
  then show ?thesis unfolding save_image_to_file_def by (auto intro!: step_intros)
qed

lemma returns_load_archive [step_intros]: "returns (load_archive E client archive)"
  unfolding load_archive_def by (auto intro!: step_intros split: sum.split)

lemma returns_load_node [step_intros]: "returns (load_image_on_node E archive n)"
  unfolding load_image_on_node_def by (intro step_intros)

lemma returns_load_nodes [step_intros]: "returns (load_on_nodes E archive first image_id nodes)"
  by (induction nodes arbitrary: image_id) (auto intro!: step_intros)

lemma returns_load [step_intros]: "returns (load_workload_image E context nodes)"
  unfolding load_workload_image_def by (intro step_intros)

lemma returns_waits:
  assumes "clock_ok E"
  shows "returns (wait_for_daemons E nodes)" "returns (wait_for_swarm_ready E manager total_nodes)"
proof -
  have ping: "en_now E w \<le> en_now E w'" if "call_step g (en_ping E client t) w = Some (r, w')" for g client t w r w'
  proof -
    have "w' = snd (en_ping E client t w)" using that by (auto simp: call_step_def split: prod.splits sum.splits)
    then show ?thesis using assms by (simp add: clock_ok_def)
  qed
  show "returns (wait_for_daemons E nodes)"
    unfolding wait_for_daemons_def wait_for_daemon_def by (intro step_intros poll_until_returns [OF assms] ping)
  have ready: "returns (check_ready E client n)" for client n unfolding check_ready_def by (auto intro!: step_intros)
  have "en_now E w \<le> en_now E w'" if "check_ready E client n w = Some (r, w')" for client n w r w'
  proof -
    have "w' = snd (en_list_nodes E client (en_op_timeout E) w)"
      using that by (auto simp: check_ready_def bind_step_def call_step_def pure_step_def fail_step_def split: prod.splits sum.splits if_splits)
    then show ?thesis using assms by (simp add: clock_ok_def)
  qed
  then show "returns (wait_for_swarm_ready E manager total_nodes)"
    unfolding wait_for_swarm_ready_def by (intro step_intros poll_until_returns [OF assms] ready)
qed

lemma returns_nodes [step_intros]: "returns (provision_nodes E spec run_labels network)" "returns (record_swarm_node_ids E nodes)" "returns (init_swarm E manager)"
    "returns (join_workers E ip workers token)" "returns (create_bridge_network E name run_labels)"
  unfolding provision_nodes_def start_node_def inspect_node_def record_swarm_node_ids_def record_swarm_node_id_def init_swarm_def join_workers_def join_worker_def create_bridge_network_def
  by (auto intro!: step_intros simp: split_def Let_def)

lemma bring_up_returns: "clock_ok E \<Longrightarrow> returns (bring_up E spec owner started_at)"
  unfolding bring_up_def Let_def using returns_waits by (intro step_intros) auto

section \<open>What a bring-up leaves\<close>

type_synonym label_set = "(string \<times> string) list"

text \<open>
  Of the calls: on the host, creating a network or a container adds at most what was asked for, with the
  labels it was given; nothing else adds a labelled resource. The resources are the label sets of those there are.
\<close>

definition engine_adds :: "'w engine \<Rightarrow> ('w \<Rightarrow> label_set set) \<Rightarrow> bool" where
  "engine_adds E res \<longleftrightarrow>
     (\<forall>t req w. res (snd (en_create_network E t req w)) \<subseteq> insert (nr_labels req) (res w))
     \<and> (\<forall>t name body w. res (snd (en_create_container E t name body w)) \<subseteq> insert (cb_labels body) (res w))
     \<and> (\<forall>start k w. res (snd (en_tick E start k w)) \<subseteq> res w) \<and> (\<forall>m d w. res (en_log E m d w) \<subseteq> res w)
     \<and> (\<forall>h rules w. res (en_sweep E h rules w) \<subseteq> res w) \<and> (\<forall>h t i w. res (snd (en_cleanup E h t i w)) \<subseteq> res w)
     \<and> (\<forall>c t i w. res (snd (en_inspect_image E c t i w)) \<subseteq> res w) \<and> (\<forall>t i w. res (snd (en_create_image E t i w)) \<subseteq> res w)
     \<and> (\<forall>t i w. res (snd (en_start_container E t i w)) \<subseteq> res w) \<and> (\<forall>t i w. res (snd (en_inspect_container E t i w)) \<subseteq> res w)
     \<and> (\<forall>c t w. res (snd (en_ping E c t w)) \<subseteq> res w) \<and> (\<forall>c t l a w. res (snd (en_init_swarm E c t l a w)) \<subseteq> res w)
     \<and> (\<forall>c t w. res (snd (en_inspect_swarm E c t w)) \<subseteq> res w) \<and> (\<forall>c t r w. res (snd (en_join_swarm E c t r w)) \<subseteq> res w)
     \<and> (\<forall>c t w. res (snd (en_list_nodes E c t w)) \<subseteq> res w) \<and> (\<forall>c t w. res (snd (en_info E c t w)) \<subseteq> res w)
     \<and> (\<forall>p s w. res (snd (en_tempfile E p s w)) \<subseteq> res w) \<and> (\<forall>p w. res (en_remove_file E p w) \<subseteq> res w)
     \<and> (\<forall>t i w. res (snd (en_export_images E t i w)) \<subseteq> res w) \<and> (\<forall>p s w. res (snd (en_write E p s w)) \<subseteq> res w)
     \<and> (\<forall>p w. res (snd (en_flush E p w)) \<subseteq> res w) \<and> (\<forall>p w. res (snd (en_open E p w)) \<subseteq> res w)
     \<and> (\<forall>c t p w. res (snd (en_import_image E c t p w)) \<subseteq> res w)"

text \<open>What was there, and this label set.\<close>

definition within :: "('w \<Rightarrow> label_set set) \<Rightarrow> label_set set \<Rightarrow> label_set \<Rightarrow> 'w \<Rightarrow> bool" where
  "within res before l w \<longleftrightarrow> res w \<subseteq> insert l before"

lemma within_less: "res w' \<subseteq> res w \<Longrightarrow> within res before l w \<Longrightarrow> within res before l w'"
  by (auto simp: within_def)

lemma adds_within:
  assumes "engine_adds E res" and "within res before l w"
  shows "nr_labels req = l \<Longrightarrow> within res before l (snd (en_create_network E t req w))" "cb_labels body = l \<Longrightarrow> within res before l (snd (en_create_container E t name body w))"
    "within res before l (snd (en_tick E start k w))" "within res before l (en_log E m d w)" "within res before l (en_sweep E h rules w)"
    "within res before l (snd (en_cleanup E h lim i w))" "within res before l (snd (en_inspect_image E c t i w))"
    "within res before l (snd (en_start_container E t i w))" "within res before l (snd (en_inspect_container E t i w))"
    "within res before l (snd (en_ping E c t w))" "within res before l (snd (en_init_swarm E c t i j w))" "within res before l (snd (en_inspect_swarm E c t w))"
    "within res before l (snd (en_join_swarm E c t join w))" "within res before l (snd (en_list_nodes E c t w))" "within res before l (snd (en_info E c t w))"
    "within res before l (snd (en_tempfile E i j w))" "within res before l (en_remove_file E i w)" "within res before l (snd (en_export_images E t i w))"
    "within res before l (snd (en_open E i w))" "within res before l (snd (en_create_image E t i w))" "within res before l (snd (en_write E i j w))"
    "within res before l (snd (en_flush E i w))" "within res before l (snd (en_import_image E c t i w))"
proof -
  show "within res before l (snd (en_create_network E t req w))" if "nr_labels req = l"
  proof -
    have "res (snd (en_create_network E t req w)) \<subseteq> insert (nr_labels req) (res w)" using assms(1) by (simp add: engine_adds_def)
    then show ?thesis using assms(2) that by (auto simp: within_def)
  qed
  show "within res before l (snd (en_create_container E t name body w))" if "cb_labels body = l"
  proof -
    have "res (snd (en_create_container E t name body w)) \<subseteq> insert (cb_labels body) (res w)" using assms(1) by (simp add: engine_adds_def)
    then show ?thesis using assms(2) that by (auto simp: within_def)
  qed
qed (rule within_less [OF _ assms(2)], use assms(1) in \<open>simp add: engine_adds_def\<close>)+

lemma keeps_ensure:
  assumes "engine_adds E res"
  shows "keeps (within res before l) (ensure_host_image E context image_ref)"
  unfolding ensure_host_image_def pull_image_def using adds_within [OF assms]
  by (auto intro!: step_intros split: sum.split option.split)

lemma keeps_load:
  assumes "engine_adds E res"
  shows "keeps (within res before l) (load_workload_image E context nodes)"
proof -
  note a = adds_within [OF assms]
  have "keeps (within res before l) (write_chunks F image_ref path ended chunks)" if "F = E" for F image_ref path ended chunks
    using that a by (induction F image_ref path ended chunks rule: write_chunks.induct) (auto intro!: step_intros split: option.split)
  then have save: "keeps (within res before l) (save_image_to_file E image_ref)" for image_ref
    unfolding save_image_to_file_def using a by (auto intro!: step_intros)
  have archive: "keeps (within res before l) (load_archive E client archive)" for client archive
    unfolding load_archive_def using a by (auto intro!: step_intros split: sum.split)
  have node: "keeps (within res before l) (load_image_on_node E archive n)" for archive n
    unfolding load_image_on_node_def by (intro step_intros archive a)
  have "keeps (within res before l) (load_on_nodes E archive first image_id ns)" for archive first image_id ns
    by (induction ns arbitrary: image_id) (auto intro!: step_intros node)
  then show ?thesis unfolding load_workload_image_def by (intro step_intros keeps_ensure [OF assms] save a)
qed

lemma keeps_bring_up:
  assumes "engine_adds E res"
  shows "keeps (within res before (en_run_labels E LABELS (sp_env_id spec) owner started_at)) (bring_up E spec owner started_at)"
proof -
  let ?I = "within res before (en_run_labels E LABELS (sp_env_id spec) owner started_at)"
  note a = adds_within [OF assms]
  have nodes: "keeps ?I (provision_nodes E spec (en_run_labels E LABELS (sp_env_id spec) owner started_at) network)" for network
    unfolding provision_nodes_def start_node_def inspect_node_def Let_def split_def
    by (intro step_intros a(2,8,9)) (simp_all add: node_body_def)
  have daemons: "keeps ?I (wait_for_daemons E ns)" for ns unfolding wait_for_daemons_def wait_for_daemon_def by (intro step_intros a(3,10))
  have ready: "keeps ?I (wait_for_swarm_ready E manager n)" for manager n
    unfolding wait_for_swarm_ready_def check_ready_def by (auto intro!: step_intros a(3,14))
  have swarm: "keeps ?I (init_swarm E manager)" for manager unfolding init_swarm_def by (intro step_intros a(11,12))
  have join: "keeps ?I (join_workers E ip ws token)" for ip ws token unfolding join_workers_def join_worker_def by (intro step_intros a(13))
  have ids: "keeps ?I (record_swarm_node_ids E ns)" for ns unfolding record_swarm_node_ids_def record_swarm_node_id_def by (intro step_intros a(15))
  have net: "keeps ?I (create_bridge_network E name (en_run_labels E LABELS (sp_env_id spec) owner started_at))" for name
    unfolding create_bridge_network_def by (intro step_intros a(1)) simp_all
  show ?thesis unfolding bring_up_def Let_def by (intro step_intros keeps_ensure [OF assms] keeps_load [OF assms] nodes daemons ready swarm join ids net a(4))
qed

section \<open>The shape of a cluster\<close>

text \<open>A node as it was started: its names and role, its address and port.\<close>

definition started_as :: "'w engine \<Rightarrow> string \<Rightarrow> string \<times> node_role \<Rightarrow> cluster_node \<Rightarrow> bool" where
  "started_as E env_id member n \<longleftrightarrow> nd_hostname n = fst member \<and> nd_role n = snd member \<and> nd_name n = en_resource_name E ENV_IDS env_id (fst member)
     \<and> nd_host_port n < 2 ^ 16 \<and> nd_docker_host n = ''tcp://127.0.0.1:'' @ nat_text (nd_host_port n) \<and> parse_ip_addr (nd_bridge_ip n) \<noteq> None"

lemma node_from_view_Inr:
  "node_from_view container_id name hostname role network view = Inr n \<Longrightarrow>
    nd_hostname n = hostname \<and> nd_role n = role \<and> nd_name n = name \<and> nd_host_port n < 2 ^ 16
    \<and> nd_docker_host n = ''tcp://127.0.0.1:'' @ nat_text (nd_host_port n) \<and> parse_ip_addr (nd_bridge_ip n) \<noteq> None"
  by (auto simp: node_from_view_def bridge_address_def parse_u16_def split: option.splits if_splits)

lemma provisioned:
  assumes "provision_nodes E spec run_labels network w = Some (Inr nodes, w')"
  shows "list_all2 (started_as E (sp_env_id spec)) (members (sp_workers spec)) nodes"
proof -
  have "started_as E (sp_env_id spec) member n" if "start_node E spec run_labels network member w1 = Some (Inr n, w2)" for member n w1 w2
    using that by (auto simp: start_node_def inspect_node_def Let_def split_def step_results started_as_def dest!: node_from_view_Inr)
  then show ?thesis using map_steps_Inr [OF assms [unfolded provision_nodes_def]] by (auto elim: list_all2_mono)
qed

text \<open>The same node, with the ID it has in the Swarm.\<close>

lemma recorded:
  assumes "record_swarm_node_ids E nodes w = Some (Inr nodes', w')"
  shows "list_all2 (\<lambda>n n'. (\<exists>i. n' = n\<lparr>nd_swarm_node_id := i\<rparr>)
    \<and> (\<exists>w1 w2 swarm. en_info E (NodeAt (nd_docker_host n)) (en_op_timeout E) w1 = (Inr swarm, w2) \<and> nd_swarm_node_id n' = (case swarm of Some (Some i) \<Rightarrow> i | _ \<Rightarrow> ''''))) nodes nodes'"
proof -
  have client: "node_client E n = Inr c \<longleftrightarrow> c = NodeAt (nd_docker_host n) \<and> (\<exists>u. en_connect E (nd_docker_host n) (IMAGE_TRANSFER_TIMEOUT div secs 1) = Inr u)" for n c
    by (auto simp: node_client_def split: sum.splits)
  show ?thesis
    using map_steps_Inr [OF assms [unfolded record_swarm_node_ids_def]]
    by (rule list_all2_mono) (auto simp: record_swarm_node_id_def step_results client; blast)
qed

text \<open>The image's ID: what every node that reports one reports.\<close>

definition reports_image :: "'w engine \<Rightarrow> string \<Rightarrow> cluster_node \<Rightarrow> string \<Rightarrow> bool" where
  "reports_image E archive n i \<longleftrightarrow> (\<exists>w1 w2. load_image_on_node E archive n w1 = Some (Inr i, w2))"

lemma loaded_ids:
  "load_on_nodes E archive first image_id nodes w = Some (Inr r, w') \<Longrightarrow>
    \<exists>ids. list_all2 (reports_image E archive) nodes ids \<and> r = last (image_id # ids) \<and> (\<forall>i \<in> set (image_id # ids). i = r \<or> i = '''')"
proof (induction nodes arbitrary: image_id w)
  case (Cons n nodes)
  obtain i w1 where n: "load_image_on_node E archive n w = Some (Inr i, w1)" "image_id = [] \<or> i = image_id"
    and rest: "load_on_nodes E archive first i nodes w1 = Some (Inr r, w')"
    using Cons.prems by (auto simp: bind_step_Inr fail_step_def split: if_splits)
  obtain ids where ids: "list_all2 (reports_image E archive) nodes ids" "r = last (i # ids)" "\<forall>i \<in> set (i # ids). i = r \<or> i = ''''"
    using Cons.IH [OF rest] by blast
  have "reports_image E archive n i" using n(1) by (auto simp: reports_image_def)
  moreover have "image_id = r \<or> image_id = ''''" using n(2) ids(3) by auto
  ultimately show ?case using ids by (intro exI [of _ "i # ids"]) auto
qed (simp add: pure_step_def)

text \<open>
  A node that reports no ID is noticed only after one that did: the check compares with an ID that is not empty.
\<close>

lemma missing_id_unnoticed:
  assumes "load_image_on_node E archive n w = Some (Inr '''', w1)" and "load_image_on_node E archive n' w1 = Some (Inr i, w2)"
  shows "load_on_nodes E archive first '''' [n, n'] w = Some (Inr i, w2)"
  using assms by (simp add: bind_step_def pure_step_def)

lemma loaded_everywhere:
  assumes "load_workload_image E context nodes w = Some (Inr r, w')" and "nodes \<noteq> []"
  shows "\<exists>archive ids. list_all2 (reports_image E archive) nodes ids \<and> r = last ids \<and> (\<forall>i \<in> set ids. i = r \<or> i = '''')"
proof -
  obtain archive w1 w2 first where "load_on_nodes E archive first '''' nodes w1 = Some (Inr r, w2)"
    using assms(1) by (auto simp: load_workload_image_def step_results)
  from loaded_ids [OF this] obtain ids where ids: "list_all2 (reports_image E archive) nodes ids" "r = last ('''' # ids)" "\<forall>i \<in> set ('''' # ids). i = r \<or> i = ''''"
    by blast
  moreover have "ids \<noteq> []" using ids(1) assms(2) by auto
  ultimately show ?thesis by auto
qed

section \<open>Properties\<close>

lemma started_as_recorded [simp]: "started_as E env_id member (n\<lparr>nd_swarm_node_id := i\<rparr>) = started_as E env_id member n"
  by (simp add: started_as_def)

lemma client_recorded [simp]: "node_client E (n\<lparr>nd_swarm_node_id := i\<rparr>) = node_client E n"
  by (simp add: node_client_def split: sum.split)

lemma reports_recorded [simp]: "reports_image E archive (n\<lparr>nd_swarm_node_id := i\<rparr>) j = reports_image E archive n j"
  by (simp add: reports_image_def load_image_on_node_def)

lemma list_all2_recorded:
  "list_all2 P xs ns \<Longrightarrow> list_all2 (\<lambda>n n'. (\<exists>i. n' = n\<lparr>nd_swarm_node_id := i\<rparr>) \<and> Q n n') ns ns' \<Longrightarrow> (\<And>x n i. P x (n\<lparr>nd_swarm_node_id := i\<rparr>) = P x n) \<Longrightarrow> list_all2 P xs ns'"
  by (auto simp: list_all2_conv_all_nth)

lemma pinged:
  assumes "wait_for_daemons E nodes w = Some (Inr u, w')" and "n \<in> set nodes"
  shows "\<exists>w1 w2. en_ping E (NodeAt (nd_docker_host n)) (en_op_timeout E) w1 = (Inr (), w2)"
proof -
  obtain w1 w2 v where "wait_for_daemon E n w1 = Some (Inr v, w2)"
    using map_steps_Inr [OF assms(1) [unfolded wait_for_daemons_def]] assms(2) by (auto simp: list_all2_conv_all_nth in_set_conv_nth)
  then show ?thesis
    by (auto simp: wait_for_daemon_def step_results node_client_def split: sum.splits dest!: poll_until_Inr; blast)
qed

lemma swarm_ready:
  assumes "wait_for_swarm_ready E manager total_nodes w = Some (Inr u, w')"
  shows "\<exists>w1 w2 listed. en_list_nodes E (NodeAt (nd_docker_host manager)) (en_op_timeout E) w1 = (Inr listed, w2) \<and> ready_count listed = total_nodes"
  using assms by (auto simp: wait_for_swarm_ready_def check_ready_def step_results fail_step_def node_client_def split: sum.splits if_splits dest!: poll_until_Inr; blast)

lemma brought_up:
  assumes "bring_up E spec owner started_at w = Some (Inr (nodes, img_id), w')"
  shows "list_all2 (started_as E (sp_env_id spec)) (members (sp_workers spec)) nodes"
    "\<exists>archive ids. list_all2 (reports_image E archive) nodes ids \<and> img_id = last ids \<and> (\<forall>i \<in> set ids. i = img_id \<or> i = '''')"
    "\<exists>w1 w2 listed. en_list_nodes E (NodeAt (nd_docker_host (hd nodes))) (en_op_timeout E) w1 = (Inr listed, w2) \<and> ready_count listed = length nodes"
    "\<forall>n \<in> set nodes. (\<exists>w1 w2. en_ping E (NodeAt (nd_docker_host n)) (en_op_timeout E) w1 = (Inr (), w2))
       \<and> (\<exists>w1 w2 swarm. en_info E (NodeAt (nd_docker_host n)) (en_op_timeout E) w1 = (Inr swarm, w2) \<and> nd_swarm_node_id n = (case swarm of Some (Some i) \<Rightarrow> i | _ \<Rightarrow> ''''))"
proof -
  obtain ns ctx run_labels network v1 v3 a b c d e f g h i j where
    p: "provision_nodes E spec run_labels network a = Some (Inr ns, b)" and q: "wait_for_daemons E ns c = Some (Inr v1, d)"
    and img: "load_workload_image E ctx ns e = Some (Inr img_id, f)" and ready: "wait_for_swarm_ready E (hd ns) (length ns) g = Some (Inr v3, h)"
    and r: "record_swarm_node_ids E ns i = Some (Inr nodes, j)"
    using assms unfolding bring_up_def Let_def step_results by blast
  note prov = provisioned [OF p] and rec = recorded [OF r]
  show shape: "list_all2 (started_as E (sp_env_id spec)) (members (sp_workers spec)) nodes"
    using prov rec by (rule list_all2_recorded) simp
  have ne: "ns \<noteq> []" using prov by (auto simp: members_def)
  obtain archive ids where ids: "list_all2 (reports_image E archive) ns ids" "img_id = last ids" "\<forall>i \<in> set ids. i = img_id \<or> i = ''''"
    using loaded_everywhere [OF img ne] by blast
  have "list_all2 (reports_image E archive) nodes ids"
    using ids(1) rec unfolding list_all2_conv_all_nth by (metis reports_recorded)
  then show "\<exists>archive ids. list_all2 (reports_image E archive) nodes ids \<and> img_id = last ids \<and> (\<forall>i \<in> set ids. i = img_id \<or> i = '''')" using ids(2,3) by blast
  have same: "length ns = length nodes" "nd_docker_host (hd nodes) = nd_docker_host (hd ns)"
    using rec ne by (cases ns; cases nodes; auto simp: list_all2_lengthD)+
  then show "\<exists>w1 w2 listed. en_list_nodes E (NodeAt (nd_docker_host (hd nodes))) (en_op_timeout E) w1 = (Inr listed, w2) \<and> ready_count listed = length nodes"
    using swarm_ready [OF ready] by simp
  show "\<forall>n \<in> set nodes. (\<exists>w1 w2. en_ping E (NodeAt (nd_docker_host n)) (en_op_timeout E) w1 = (Inr (), w2))
       \<and> (\<exists>w1 w2 swarm. en_info E (NodeAt (nd_docker_host n)) (en_op_timeout E) w1 = (Inr swarm, w2) \<and> nd_swarm_node_id n = (case swarm of Some (Some i) \<Rightarrow> i | _ \<Rightarrow> ''''))"
  proof
    fix n'
    assume "n' \<in> set nodes"
    then obtain j where "j < length nodes" "n' = nodes ! j" by (auto simp: in_set_conv_nth)
    then obtain n i where n: "n \<in> set ns" "n' = n\<lparr>nd_swarm_node_id := i\<rparr>"
      and info: "\<exists>w1 w2 swarm. en_info E (NodeAt (nd_docker_host n)) (en_op_timeout E) w1 = (Inr swarm, w2) \<and> nd_swarm_node_id n' = (case swarm of Some (Some i) \<Rightarrow> i | _ \<Rightarrow> '''')"
      using rec unfolding list_all2_conv_all_nth by (metis nth_mem)
    then show "(\<exists>w1 w2. en_ping E (NodeAt (nd_docker_host n')) (en_op_timeout E) w1 = (Inr (), w2))
       \<and> (\<exists>w1 w2 swarm. en_info E (NodeAt (nd_docker_host n')) (en_op_timeout E) w1 = (Inr swarm, w2) \<and> nd_swarm_node_id n' = (case swarm of Some (Some i) \<Rightarrow> i | _ \<Rightarrow> ''''))"
      using pinged [OF q n(1)] by simp
  qed
qed

definition with_image :: "cluster_spec \<Rightarrow> cluster_spec" where
  "with_image spec = (if sp_dind_image spec = [] then spec\<lparr>sp_dind_image := DEFAULT_DIND_IMAGE\<rparr> else spec)"

lemma with_image_simps [simp]: "sp_env_id (with_image spec) = sp_env_id spec" "sp_workers (with_image spec) = sp_workers spec"
    "sp_keep_on_failure (with_image spec) = sp_keep_on_failure spec"
  by (simp_all add: with_image_def)

text \<open>The ways \<open>up\<close> ends: before anything is created, or with what the bring-up ended with.\<close>

lemma up_ends:
  assumes "up E spec w = Some (r, w')"
  obtains (early) w1 e where "r = Inl e" "\<forall>env_id cause. e \<noteq> BringUp env_id cause" "w' = w1" "w1 = en_log E ''bringing up test swarm; manual cleanup''
        ([(''envid'', sp_env_id spec)] @ [(''cmd'', cleanup_command E (sp_env_id spec))]) w"
    | (late) owner rules w1 result w2 where "en_owner E = Inr owner"
        "w1 = en_log E ''bringing up test swarm; manual cleanup'' ([(''envid'', sp_env_id spec)] @ [(''cmd'', cleanup_command E (sp_env_id spec))]) w"
        "bring_up E (with_image spec) owner (en_wall E w1) (en_sweep E (HOST_SWEEP E) rules w1) = Some (result, w2)"
        "(case result of
            Inr (nodes, img_id) \<Rightarrow> r = Inr \<lparr>cl_spec = with_image spec, cl_manager = hd nodes, cl_nodes = nodes, cl_workload_image_id = img_id,
                cl_started_at = en_wall E w1, cl_owner = owner\<rparr> \<and> w' = w2
          | Inl e \<Rightarrow> r = Inl (BringUp (sp_env_id spec) e) \<and> w' = failed_bring_up E (with_image spec) w2)"
proof -
  let ?w1 = "en_log E ''bringing up test swarm; manual cleanup'' ([(''envid'', sp_env_id spec)] @ [(''cmd'', cleanup_command E (sp_env_id spec))]) w"
  note u = assms [unfolded up_def with_image_def [symmetric] Let_def with_image_simps bind_step_def log_info_def effect_step_def result_of_def default_sweep_rules_def]
  show thesis
  proof (cases "en_owner E")
    case (Inl e)
    then show thesis using u early by auto
  next
    case owner: (Inr owner)
    show thesis
    proof (cases "en_stale_after E ENV_STALE_AFTER")
      case (Inl e)
      then show thesis using u owner early by auto
    next
      case stale: (Inr stale)
      show thesis
      proof (cases "host_client E")
        case (Inl e)
        then have "\<exists>t. e = ConnectHost t" by (auto simp: host_client_def map_sum_def split: sum.splits)
        then show thesis using u owner stale Inl early by auto
      next
        case host: (Inr h)
        let ?rules = "\<lparr>sr_now = en_wall E ?w1, sr_stale_after = stale, sr_self_id = sp_env_id spec, sr_owner = owner\<rparr>"
        obtain result w2 where b: "bring_up E (with_image spec) owner (en_wall E ?w1) (en_sweep E (HOST_SWEEP E) ?rules ?w1) = Some (result, w2)"
          using u owner stale host by (auto split: option.splits)
        show thesis by (rule late [OF owner refl b]) (use u owner stale host b in \<open>auto split: sum.splits\<close>)
      qed
    qed
  qed
qed

lemma failed_within:
  assumes "engine_adds E res" and "within res before l w"
  shows "within res before l (failed_bring_up E spec w)"
    "\<not> sp_keep_on_failure spec \<Longrightarrow> res (failed_bring_up E spec w) \<subseteq> res (snd (en_cleanup E (HOST_SWEEP E) (Some TEARDOWN_TIMEOUT) (sp_env_id spec) w))"
proof -
  note a = adds_within [OF assms(1)]
  obtain x w1 where x: "en_cleanup E (HOST_SWEEP E) (Some TEARDOWN_TIMEOUT) (sp_env_id spec) w = (x, w1)" by force
  then have w1: "within res before l w1" using a(6) [OF assms(2)] by (metis snd_conv)
  show "within res before l (failed_bring_up E spec w)"
    using a(4) [OF assms(2)] a(4) [OF w1] w1 by (cases x) (simp_all add: failed_bring_up_def x Let_def)
  have "res (en_log E m d w1) \<subseteq> res w1" for m d using assms(1) by (simp add: engine_adds_def)
  then show "res (failed_bring_up E spec w) \<subseteq> res (snd (en_cleanup E (HOST_SWEEP E) (Some TEARDOWN_TIMEOUT) (sp_env_id spec) w))" if "\<not> sp_keep_on_failure spec"
    using that by (cases x) (simp_all add: failed_bring_up_def x Let_def)
qed

text \<open>
  C40: bringing up a test cluster ends. However the engines answer, with the checks of a wait failing for as long
  as they like, \<open>up\<close> returns: every wait gives up once its time is over, since the ticks of its ticker are at least
  their number of intervals apart from its start and the clock does not go back.
\<close>

theorem up_returns:
  assumes "clock_ok E"
  shows "\<exists>r w'. up E spec w = Some (r, w')"
proof -
  have "\<exists>r w'. bring_up E (with_image spec) owner started_at w = Some (r, w')" for owner started_at w
    using bring_up_returns [OF assms] by (auto simp: returns_def)
  then show ?thesis
    unfolding up_def with_image_def [symmetric] Let_def bind_step_def log_info_def effect_step_def result_of_def default_sweep_rules_def
    by (auto split: sum.split option.split) (metis sum.exhaust_sel option.distinct(1))
qed


text \<open>
  C39: nothing a run leaves behind is lost. Whether \<open>up\<close> succeeds, fails or is cut short, every network and container it
  adds carries the labels of this run: those the cluster it returns is removed by, or the run's own when the
  bring-up fails, after which the cleanup by that envid has run unless the run is to be kept. A failure before the
  bring-up adds nothing.
\<close>

theorem up_leaves_labelled:
  assumes "engine_adds E res" and "up E spec w = Some (r, w')"
  shows "(case r of
      Inr c \<Rightarrow> res w' \<subseteq> insert (cluster_labels E c) (res w)
    | Inl (BringUp env_id e) \<Rightarrow> env_id = sp_env_id spec
        \<and> (\<exists>owner started. en_owner E = Inr owner \<and> res w' \<subseteq> insert (en_run_labels E LABELS (sp_env_id spec) owner started) (res w))
        \<and> (\<not> sp_keep_on_failure spec \<longrightarrow> (\<exists>w1. res w' \<subseteq> res (snd (en_cleanup E (HOST_SWEEP E) (Some TEARDOWN_TIMEOUT) (sp_env_id spec) w1))))
    | Inl _ \<Rightarrow> res w' \<subseteq> res w)"
  using assms(2)
proof (cases rule: up_ends)
  case (early w1 e)
  have "res w1 \<subseteq> res w" using assms(1) by (simp add: early(4) engine_adds_def)
  then show ?thesis using early(1-3) by (simp split: harness_error.split)
next
  case (late owner rules w1 result w2)
  let ?l = "en_run_labels E LABELS (sp_env_id spec) owner (en_wall E w1)"
  have start: "res (en_sweep E h rules w1) \<subseteq> res w" for h rules
  proof -
    have "res (en_sweep E h rules w1) \<subseteq> res w1" "res w1 \<subseteq> res w" using assms(1) by (simp_all add: late(2) engine_adds_def)
    then show ?thesis by blast
  qed
  then have "within res (res w) ?l (en_sweep E (HOST_SWEEP E) rules w1)" by (auto simp: within_def)
  then have w2: "within res (res w) ?l w2"
    using keeps_bring_up [OF assms(1), of "res w" "with_image spec" owner "en_wall E w1"] late(3) unfolding keeps_def with_image_simps by blast
  show ?thesis
  proof (cases result)
    case (Inl e)
    have f: "r = Inl (BringUp (sp_env_id spec) e)" "w' = failed_bring_up E (with_image spec) w2" using late(4) Inl by simp_all
    note k = failed_within [OF assms(1) w2, of "with_image spec"]
    show ?thesis using f(1) k late(1) by (auto simp: f(2) within_def)
  next
    case (Inr x)
    then show ?thesis using late(4) w2 by (auto simp: within_def cluster_labels_def split: prod.splits)
  qed
qed

section \<open>The settings of a run\<close>

lemma digits_value_ge: "digits_value n s = Some m \<Longrightarrow> n \<le> m"
  by (induction n s rule: digits_value.induct) (auto split: option.splits)

text \<open>Reading left to right with a check per digit accepts exactly the numbers that fit.\<close>

lemma i64_digits_exact:
  assumes "sign = 1 \<or> sign = - 1"
  shows "i64_fits (sign * int n) \<Longrightarrow> i64_digits sign (sign * int n) s = Inr v \<longleftrightarrow> (\<exists>m. digits_value n s = Some m \<and> v = sign * int m \<and> i64_fits v)"
proof (induction s arbitrary: n)
  case (Cons c s)
  show ?case
  proof (cases "digit_value c")
    case (Some d)
    have e: "sign * int n * 10 + sign * int d = sign * int (n * 10 + d)" by (simp add: algebra_simps)
    have mono: "i64_fits (sign * int k)" if "i64_fits (sign * int m)" "k \<le> m" for k m
      using assms that by (auto simp: i64_fits_def)
    show ?thesis
    proof (cases "i64_fits (sign * int (n * 10 + d))")
      case True
      then have "i64_fits (sign * int n * 10)" using mono [OF True, of "n * 10"] by (simp add: algebra_simps)
      then show ?thesis using Some True Cons.IH [OF True] by (simp only: i64_digits.simps digits_value.simps option.case e) simp
    next
      case False
      then have "\<not> i64_fits (sign * int m)" if "digits_value (n * 10 + d) s = Some m" for m
        using mono [of m "n * 10 + d"] digits_value_ge [OF that] by blast
      then show ?thesis using Some False by (auto simp: e)
    qed
  qed simp
qed (auto simp: i64_fits_def)

definition is_decimal :: "string \<Rightarrow> nat \<Rightarrow> bool" where
  "is_decimal s n \<longleftrightarrow> s \<noteq> [] \<and> digits_value 0 s = Some n"

lemma parse_workers_exact:
  "parse_workers raw = Inr n \<longleftrightarrow> raw = [] \<and> n = 2
    \<or> n < 2 ^ 63 \<and> (is_decimal raw n \<or> (\<exists>rest. raw = ''+'' @ rest \<and> is_decimal rest n) \<or> (\<exists>rest. raw = ''-'' @ rest \<and> is_decimal rest n \<and> n = 0))"
proof (cases raw)
  case (Cons c rest)
  have f: "i64_fits (sign * int 0)" for sign by (simp add: i64_fits_def)
  note pos = i64_digits_exact [of 1, OF _ f, simplified] and neg = i64_digits_exact [of "- 1", OF _ f, simplified]
  have signs: "digit_value CHR ''+'' = None" "digit_value CHR ''-'' = None" by code_simp+
  have plus: "i64_digits 1 0 t = Inr v \<and> \<not> v < 0 \<and> n = nat v \<longleftrightarrow> v = int n \<and> digits_value 0 t = Some n \<and> n < 2 ^ 63" for t v
    using pos [of t v] by (auto simp: i64_fits_def)
  have minus: "i64_digits (- 1) 0 t = Inr v \<and> \<not> v < 0 \<and> n = nat v \<longleftrightarrow> v = 0 \<and> digits_value 0 t = Some n \<and> n = 0" for t v
    using neg [of t v] by (auto simp: i64_fits_def)
  have parsed: "parse_workers raw = Inr n \<longleftrightarrow> (\<exists>v. i64_from_str raw = Inr v \<and> \<not> v < 0 \<and> n = nat v)"
    by (auto simp: parse_workers_def Cons split: sum.splits if_splits)
  consider "c = CHR ''+''" | "c = CHR ''-''" | "c \<noteq> CHR ''+''" "c \<noteq> CHR ''-''" by blast
  then show ?thesis
  proof cases
    case 1
    then show ?thesis unfolding parsed using plus [of rest] signs by (auto simp: is_decimal_def i64_from_str_def Cons)
  next
    case 2
    then show ?thesis unfolding parsed using minus [of rest] signs by (auto simp: is_decimal_def i64_from_str_def Cons)
  next
    case 3
    then show ?thesis unfolding parsed using plus [of raw] by (auto simp: is_decimal_def i64_from_str_def Cons)
  qed
qed (auto simp: parse_workers_def DEFAULT_WORKER_COUNT_def is_decimal_def)

text \<open>
  The settings are accepted exactly when the worker count is absent or a number that is not negative and fits, the
  keep setting absent or one of the twelve spellings, and an envid was generated; they are then those values.
\<close>

theorem spec_from_env_exact:
  fixes getenv :: "string \<Rightarrow> string option"
  defines "get \<equiv> \<lambda>key. case getenv key of Some v \<Rightarrow> v | None \<Rightarrow> ''''"
  shows "spec_from_env generate getenv = Inr spec \<longleftrightarrow>
    generate ENV_IDS = Inr (sp_env_id spec) \<and> sp_binary spec = get ''SSE_IT_BINARY''
    \<and> sp_dind_image spec = (if get ''SSE_IT_DIND_IMAGE'' = [] then ''docker:29.8.1-dind'' else get ''SSE_IT_DIND_IMAGE'')
    \<and> (get ''SSE_IT_WORKERS'' = [] \<and> sp_workers spec = 2
       \<or> sp_workers spec < 2 ^ 63 \<and> (is_decimal (get ''SSE_IT_WORKERS'') (sp_workers spec)
            \<or> (\<exists>rest. get ''SSE_IT_WORKERS'' = ''+'' @ rest \<and> is_decimal rest (sp_workers spec))
            \<or> (\<exists>rest. get ''SSE_IT_WORKERS'' = ''-'' @ rest \<and> is_decimal rest (sp_workers spec) \<and> sp_workers spec = 0)))
    \<and> (if sp_keep_on_failure spec then get ''SSE_IT_KEEP_ON_FAILURE'' \<in> {''1'', ''t'', ''T'', ''TRUE'', ''true'', ''True''}
       else get ''SSE_IT_KEEP_ON_FAILURE'' \<in> {'''', ''0'', ''f'', ''F'', ''FALSE'', ''false'', ''False''})"
proof -
  have keep: "parse_keep raw = Inr b \<longleftrightarrow> (if b then raw \<in> {''1'', ''t'', ''T'', ''TRUE'', ''true'', ''True''}
      else raw \<in> {'''', ''0'', ''f'', ''F'', ''FALSE'', ''false'', ''False''})" for raw b
    by (cases b) (auto simp: parse_keep_def parse_bool_def split: if_splits)
  have "spec_from_env generate getenv = Inr spec \<longleftrightarrow> generate ENV_IDS = Inr (sp_env_id spec) \<and> sp_binary spec = get ENV_BINARY
    \<and> sp_dind_image spec = (if get ENV_DIND_IMAGE = [] then DEFAULT_DIND_IMAGE else get ENV_DIND_IMAGE)
    \<and> parse_workers (get ENV_WORKERS) = Inr (sp_workers spec) \<and> parse_keep (get ENV_KEEP_ON_FAILURE) = Inr (sp_keep_on_failure spec)"
    unfolding spec_from_env_def Let_def get_def by (cases spec) (auto split: sum.splits)
  then show ?thesis
    unfolding keep parse_workers_exact by (simp only: ENV_BINARY_def ENV_DIND_IMAGE_def ENV_WORKERS_def ENV_KEEP_ON_FAILURE_def DEFAULT_DIND_IMAGE_def)
qed

section \<open>An example\<close>

text \<open>Engines that answer every call at once; the world is the time and the labels of what was created.\<close>

type_synonym example_world = "nat \<times> label_set list"

definition quick :: "'a \<Rightarrow> example_world \<Rightarrow> ('e + 'a) \<times> example_world" where
  "quick a w = (Inr a, w)"

definition example_view :: container_view where
  "example_view = \<lparr>cv_paused = None, cv_network_settings = Some \<lparr>nv_networks = Some [(''sse-it-1a2b-net'', Some ''10.0.0.2'')],
     nv_ports = Some [(''2375/tcp'', Some [Some ''7''])]\<rparr>\<rparr>"

definition example_engine :: "example_world engine" where
  "example_engine = \<lparr>en_now = fst, en_wall = (\<lambda>w. int (fst w)),
     en_tick = (\<lambda>start k (t, r). (Inr (), (max t (start + k * POLL_INTERVAL), r))), en_log = (\<lambda>_ _ w. w), en_op_timeout = secs 30,
     en_owner = Inr ''host:1'', en_stale_after = (\<lambda>_. Inr (secs 3600)), en_run_labels = (\<lambda>keys env_id owner _. [(lk_env_id keys, env_id), (lk_owner keys, owner)]),
     en_resource_name = (\<lambda>ids env_id base. ei_prefix ids @ ''-'' @ env_id @ ''-'' @ base), en_cleanup_command = (\<lambda>_ f. f), en_cli_filter = (\<lambda>_ e. e),
     en_sweep = (\<lambda>_ _ w. w), en_cleanup = (\<lambda>_ _ _ (t, r). (Inr (), (t, []))), en_connect_host = (\<lambda>_. Inr ()), en_connect = (\<lambda>_ _. Inr ()),
     en_inspect_image = (\<lambda>_ _ _. quick (Some ''sha256:abc'')), en_create_image = (\<lambda>_ _ w. (([], None), w)),
     en_create_network = (\<lambda>_ req (t, r). (Inr (), (t, nr_labels req # r))), en_create_container = (\<lambda>_ name body (t, r). (Inr name, (t, cb_labels body # r))),
     en_start_container = (\<lambda>_ _. quick ()), en_inspect_container = (\<lambda>_ _. quick example_view), en_pause_container = (\<lambda>_ _. quick ()),
     en_unpause_container = (\<lambda>_ _. quick ()), en_export_images = (\<lambda>_ _ w. (([Inr ''layer''], None), w)),
     en_import_image = (\<lambda>_ _ _ w. (([LoadInfo (Some ''Loaded image ID: sha256:abc'')], None), w)),
     en_ping = (\<lambda>_ _. quick ()), en_init_swarm = (\<lambda>_ _ _ _. quick ()), en_inspect_swarm = (\<lambda>_ _. quick (Some (Some ''token''))),
     en_join_swarm = (\<lambda>_ _ _. quick ()), en_list_nodes = (\<lambda>_ _. quick [Some (Some ReadyState), Some (Some ReadyState)]), en_info = (\<lambda>_ _. quick (Some (Some ''node''))),
     en_tempfile = (\<lambda>p s. quick (p @ s)), en_remove_file = (\<lambda>_ w. w), en_write = (\<lambda>_ _. quick ()), en_flush = (\<lambda>_. quick ()), en_open = (\<lambda>_. quick ())\<rparr>"

definition example_spec :: cluster_spec where
  "example_spec = \<lparr>sp_env_id = ''1a2b'', sp_binary = ''exporter'', sp_dind_image = '''', sp_workers = 1, sp_keep_on_failure = False\<rparr>"

lemma example_clock: "clock_ok example_engine"
  by (auto simp: clock_ok_def example_engine_def quick_def)

lemma example_adds: "engine_adds example_engine (set \<circ> snd)"
  by (simp add: engine_adds_def example_engine_def quick_def split_def)

lemmas step_defs = bind_step_def pure_step_def result_of_def call_step_def ask_def effect_step_def log_info_def on_error_def in_words_def afterwards_def

lemma example_ops:
  "en_now example_engine = fst"
  "en_wall example_engine = (\<lambda>w. int (fst w))"
  "en_tick example_engine = (\<lambda>start k (t, r). (Inr (), (max t (start + k * POLL_INTERVAL), r)))"
  "en_log example_engine = (\<lambda>_ _ w. w)"
  "en_op_timeout example_engine = secs 30"
  "en_owner example_engine = Inr ''host:1''"
  "en_stale_after example_engine = (\<lambda>_. Inr (secs 3600))"
  "en_run_labels example_engine = (\<lambda>keys env_id owner _. [(lk_env_id keys, env_id), (lk_owner keys, owner)])"
  "en_resource_name example_engine = (\<lambda>ids env_id base. ei_prefix ids @ ''-'' @ env_id @ ''-'' @ base)"
  "en_cleanup_command example_engine = (\<lambda>_ f. f)"
  "en_cli_filter example_engine = (\<lambda>_ e. e)"
  "en_sweep example_engine = (\<lambda>_ _ w. w)"
  "en_cleanup example_engine = (\<lambda>_ _ _ (t, r). (Inr (), (t, [])))"
  "en_connect_host example_engine = (\<lambda>_. Inr ())"
  "en_connect example_engine = (\<lambda>_ _. Inr ())"
  "en_inspect_image example_engine = (\<lambda>_ _ _. quick (Some ''sha256:abc''))"
  "en_create_image example_engine = (\<lambda>_ _ w. (([], None), w))"
  "en_create_network example_engine = (\<lambda>_ req (t, r). (Inr (), (t, nr_labels req # r)))"
  "en_create_container example_engine = (\<lambda>_ name body (t, r). (Inr name, (t, cb_labels body # r)))"
  "en_start_container example_engine = (\<lambda>_ _. quick ())"
  "en_inspect_container example_engine = (\<lambda>_ _. quick example_view)"
  "en_pause_container example_engine = (\<lambda>_ _. quick ())"
  "en_unpause_container example_engine = (\<lambda>_ _. quick ())"
  "en_export_images example_engine = (\<lambda>_ _ w. (([Inr ''layer''], None), w))"
  "en_import_image example_engine = (\<lambda>_ _ _ w. (([LoadInfo (Some ''Loaded image ID: sha256:abc'')], None), w))"
  "en_ping example_engine = (\<lambda>_ _. quick ())"
  "en_init_swarm example_engine = (\<lambda>_ _ _ _. quick ())"
  "en_inspect_swarm example_engine = (\<lambda>_ _. quick (Some (Some ''token'')))"
  "en_join_swarm example_engine = (\<lambda>_ _ _. quick ())"
  "en_list_nodes example_engine = (\<lambda>_ _. quick [Some (Some ReadyState), Some (Some ReadyState)])"
  "en_info example_engine = (\<lambda>_ _. quick (Some (Some ''node'')))"
  "en_tempfile example_engine = (\<lambda>p s. quick (p @ s))"
  "en_remove_file example_engine = (\<lambda>_ w. w)"
  "en_write example_engine = (\<lambda>_ _. quick ())"
  "en_flush example_engine = (\<lambda>_. quick ())"
  "en_open example_engine = (\<lambda>_. quick ())"
  by (simp_all add: example_engine_def)

lemma example_poll: "check w = Some (Inr (), w) \<Longrightarrow> poll_until example_engine timeout what check w = Some (Inr (), w)"
  by (cases w) (simp add: poll_until_def poll_loop.simps example_ops)

lemma example_client: "node_client example_engine n = Inr (NodeAt (nd_docker_host n))"
  by (simp add: node_client_def example_ops)

definition demo_node :: "string \<Rightarrow> node_role \<Rightarrow> cluster_node" where
  "demo_node hostname role = \<lparr>nd_name = ''sse-it-1a2b-'' @ hostname, nd_container_id = ''sse-it-1a2b-'' @ hostname, nd_hostname = hostname, nd_role = role,
     nd_swarm_node_id = '''', nd_host_port = 7, nd_docker_host = ''tcp://127.0.0.1:7'', nd_bridge_ip = ''10.0.0.2''\<rparr>"

lemma example_start: "start_node example_engine (with_image example_spec) l ''sse-it-1a2b-net'' (hostname, role) (t, r) =
    Some (Inr (demo_node hostname role), (t, l # r))"
proof -
  have "show_ipv4 10 0 0 2 = ''10.0.0.2''" "nat_text 7 = ''7''" by code_simp+
  moreover from this have "parse_ip_addr ''10.0.0.2'' \<noteq> None" using parse_show_ipv4 [of 10 0 0 2] by simp
  moreover have "parse_u16 ''7'' = Some 7" by (simp add: parse_u16_def parse_usize_def digit_value_def USIZE_MAX_def)
  ultimately show ?thesis
    by (simp add: start_node_def inspect_node_def node_from_view_def bridge_address_def bound_port_def example_ops example_view_def quick_def step_defs
        demo_node_def ENV_IDS_def DIND_DAEMON_PORT_def node_body_def with_image_def example_spec_def split_def Let_def)
qed

lemma example_load: "load_workload_image example_engine ctx [n, n'] w = Some (Inr ''sha256:abc'', w)"
proof -
  have "observe ''Loaded image ID: sha256:abc'' loaded_default = \<lparr>ld_id = ''sha256:abc'', ld_reference = ''''\<rparr>" by code_simp
  then have "load_image_on_node example_engine archive m w = Some (Inr ''sha256:abc'', w)" for archive m w
    by (simp add: load_image_on_node_def load_archive_def finish_def step_defs example_client example_ops quick_def)
  then show ?thesis
    by (simp add: load_workload_image_def ensure_host_image_def save_image_to_file_def step_defs example_ops quick_def)
qed

abbreviation example_labels :: label_set where
  "example_labels \<equiv> [(''swarm-scheduler-exporter.it.envid'', ''1a2b''), (''swarm-scheduler-exporter.it.owner'', ''host:1'')]"

abbreviation example_nodes :: "cluster_node list" where
  "example_nodes \<equiv> [(demo_node ''manager-0'' Manager)\<lparr>nd_swarm_node_id := ''node''\<rparr>, (demo_node ''worker-0'' Worker)\<lparr>nd_swarm_node_id := ''node''\<rparr>]"

lemma example_bring_up:
  "bring_up example_engine (with_image example_spec) ''host:1'' started_at (t, r) = Some (Inr (example_nodes, ''sha256:abc''), (t, example_labels # example_labels # example_labels # r))"
proof -
  let ?E = example_engine and ?m = "demo_node ''manager-0'' Manager" and ?v = "demo_node ''worker-0'' Worker"
  have l: "en_run_labels ?E LABELS ''1a2b'' ''host:1'' started_at = example_labels" "en_resource_name ?E ENV_IDS ''1a2b'' ''net'' = ''sse-it-1a2b-net''"
    by (simp_all add: example_ops LABELS_def ENV_IDS_def)
  have s: "sp_env_id (with_image example_spec) = ''1a2b''" "sp_workers (with_image example_spec) = 1" "sp_dind_image (with_image example_spec) = DEFAULT_DIND_IMAGE"
    by (simp_all add: example_spec_def with_image_def)
  have mem: "members 1 = [(''manager-0'', Manager), (''worker-0'', Worker)]" by code_simp
  have ensure: "ensure_host_image ?E ctx i w = Some (Inr (), w)" "create_bridge_network ?E n l (t, r) = Some (Inr (), (t, l # r))" "log_info ?E ctx msg d w = Some (Inr (), w)" for ctx i w n l t r msg d
    by (simp_all add: ensure_host_image_def create_bridge_network_def example_ops quick_def step_defs)
  have ping: "wait_for_daemon ?E n w = Some (Inr (), w)" "init_swarm ?E n w = Some (Inr ''token'', w)" "join_worker ?E a token n w = Some (Inr (), w)"
    "record_swarm_node_id ?E n w = Some (Inr (n\<lparr>nd_swarm_node_id := ''node''\<rparr>), w)" for n w a token
    by (simp_all add: wait_for_daemon_def init_swarm_def join_worker_def record_swarm_node_id_def step_defs example_client example_ops quick_def example_poll)
  have ready: "wait_for_swarm_ready ?E n (Suc (Suc 0)) w = Some (Inr (), w)" for n w
    by (simp add: wait_for_swarm_ready_def check_ready_def ready_count_def step_defs example_client example_ops quick_def example_poll)
  show ?thesis
    unfolding bring_up_def Let_def s l provision_nodes_def mem wait_for_daemons_def join_workers_def record_swarm_node_ids_def
    by (simp add: bind_step_def pure_step_def ensure example_start ping example_load ready)
qed

abbreviation example_cluster :: cluster where
  "example_cluster \<equiv> \<lparr>cl_spec = with_image example_spec, cl_manager = hd example_nodes, cl_nodes = example_nodes, cl_workload_image_id = ''sha256:abc'',
     cl_started_at = 0, cl_owner = ''host:1''\<rparr>"

lemma example_up: "up example_engine example_spec (0, []) = Some (Inr example_cluster, (0, [example_labels, example_labels, example_labels]))"
  unfolding up_def with_image_def [symmetric] Let_def host_client_def default_sweep_rules_def
  by (simp add: step_defs example_ops example_bring_up)

theorem up_returns_witness: "\<exists>r w'. up example_engine example_spec (0, []) = Some (r, w')"
  using up_returns [OF example_clock] .


theorem up_leaves_labelled_witness:
  "\<exists>c w. up example_engine example_spec (0, []) = Some (Inr c, w) \<and> set (snd w) \<subseteq> {cluster_labels example_engine c} \<and> set (snd w) \<noteq> {}"
  using up_leaves_labelled [OF example_adds example_up] example_up by auto

end
