(* ===== verification/Docker_Convert.thy ===== *)
theory Docker_Convert
  imports Listener Containers
begin

text \<open>
  \<^verbatim>\<open>src/src/docker/convert.rs\<close> and \<^verbatim>\<open>src/src/docker/error.rs\<close>: the client library's answers as the exporter's
  types, and the errors of a call. An answer is a record of the fields read, each of which the engine may
  leave out; an enum is its wire text. Parsing an RFC 3339 time and quoting a text for a message
  belong to the time library and to Rust's formatter, and are parameters.
\<close>

section \<open>Errors\<close>

datatype error_kind = KindNotFound | KindTimeout | KindUnavailable | KindCancelled | KindOther

record api_error =
  ae_kind :: error_kind
  ae_message :: string

definition deadline_exceeded :: api_error where
  "deadline_exceeded = \<lparr>ae_kind = KindTimeout, ae_message = ''context deadline exceeded''\<rparr>"

definition is_not_found :: "api_error \<Rightarrow> bool" where
  "is_not_found e \<longleftrightarrow> ae_kind e = KindNotFound"

definition stream_eof :: stream_error where
  "stream_eof = \<lparr>se_kind = Eof, se_message = ''EOF''\<rparr>"

text \<open>A call: how long it took to answer, if it ever did, and its answer.\<close>

type_synonym 'a call = "(nanos \<times> (api_error + 'a)) option"

definition with_bare_timeout :: "nanos \<Rightarrow> 'a call \<Rightarrow> api_error + 'a" where
  "with_bare_timeout timeout call =
     (case call of
        Some (took, answer) \<Rightarrow> if took \<le> timeout then answer else Inl deadline_exceeded
      | None \<Rightarrow> Inl deadline_exceeded)"

definition with_bare_deadline :: "instant \<Rightarrow> instant \<Rightarrow> 'a call \<Rightarrow> api_error + 'a" where
  "with_bare_deadline deadline now call =
     (case call of
        Some (took, answer) \<Rightarrow> if now + took \<le> max now deadline then answer else Inl deadline_exceeded
      | None \<Rightarrow> Inl deadline_exceeded)"

section \<open>The answers of the engine\<close>

record wire_version =
  wv_index :: "nat option"

record wire_platform =
  wpf_architecture :: "string option"
  wpf_os :: "string option"

record wire_placement =
  wpl_constraints :: "string list option"
  wpl_platforms :: "wire_platform list option"

record wire_restart_policy =
  wrp_condition :: "string option"

record wire_task_spec =
  wts_placement :: "wire_placement option"
  wts_restart_policy :: "wire_restart_policy option"

record wire_replicated =
  wr_replicas :: "int option"

record wire_job =
  wj_max_concurrent :: "int option"
  wj_total_completions :: "int option"

record wire_mode =
  wm_replicated :: "wire_replicated option"
  wm_global :: "unit option"
  wm_replicated_job :: "wire_job option"
  wm_global_job :: "unit option"

record wire_service_spec =
  wss_name :: "string option"
  wss_labels :: "(string, string) hmap option"
  wss_task_template :: "wire_task_spec option"
  wss_mode :: "wire_mode option"

record wire_update_status =
  wus_state :: "string option"
  wus_started_at :: "string option"
  wus_completed_at :: "string option"

record wire_job_status =
  wjs_job_iteration :: "wire_version option"

record wire_service =
  ws_id :: "string option"
  ws_spec :: "wire_service_spec option"
  ws_update_status :: "wire_update_status option"
  ws_job_status :: "wire_job_status option"

record wire_node_spec =
  wns_labels :: "(string, string) hmap option"
  wns_role :: "string option"
  wns_availability :: "string option"

record wire_engine =
  wen_labels :: "(string, string) hmap option"

record wire_description =
  wd_hostname :: "string option"
  wd_platform :: "wire_platform option"
  wd_engine :: "wire_engine option"

record wire_node_status =
  wnst_state :: "string option"
  wnst_addr :: "string option"

record wire_node =
  wn_id :: "string option"
  wn_spec :: "wire_node_spec option"
  wn_description :: "wire_description option"
  wn_status :: "wire_node_status option"

record wire_task_status =
  wtst_timestamp :: "string option"
  wtst_state :: "string option"

record wire_task =
  wt_version :: "wire_version option"
  wt_created_at :: "string option"
  wt_service_id :: "string option"
  wt_slot :: "int option"
  wt_node_id :: "string option"
  wt_status :: "wire_task_status option"
  wt_desired_state :: "string option"
  wt_job_iteration :: "wire_version option"

record wire_summary =
  wc_id :: "string option"
  wc_names :: "string list option"
  wc_labels :: "(string, string) hmap option"
  wc_state :: "string option"

record wire_health =
  wh_status :: "string option"

record wire_state =
  wst_exit_code :: "int option"
  wst_health :: "wire_health option"

record wire_config =
  wcf_healthcheck :: "unit option"

record wire_inspect =
  wi_state :: "wire_state option"
  wi_config :: "wire_config option"

record wire_actor =
  wa_id :: "string option"

record wire_event =
  we_typ :: "string option"
  we_action :: "string option"
  we_actor :: "wire_actor option"
  we_time :: "int option"
  we_time_nano :: "int option"

section \<open>Conversion\<close>

record time_library =
  tl_parse :: "string \<Rightarrow> string + timestamp"
  tl_quote :: "string \<Rightarrow> string"

definition wire_text :: "string option \<Rightarrow> string" where
  "wire_text value = unwrap_or value ''''"

definition to_labels :: "(string, string) hmap option \<Rightarrow> labels" where
  "to_labels l = bt_collect (unwrap_or l [])"

text \<open>A negative count is no count: \<^verbatim>\<open>u64::try_from\<close> fails and the default is 0.\<close>

definition to_count :: "int option \<Rightarrow> nat option" where
  "to_count value = map_option (\<lambda>v. if v < 0 then 0 else nat v) value"

definition go_time :: "time_library \<Rightarrow> string option \<Rightarrow> api_error + gotime" where
  "go_time lib value =
     (case value of
        None \<Rightarrow> Inr gotime_default
      | Some s \<Rightarrow>
          (case tl_parse lib s of
             Inr t \<Rightarrow> Inr (GoTime t)
           | Inl error \<Rightarrow> Inl \<lparr>ae_kind = KindOther, ae_message = ''parsing time '' @ tl_quote lib s @ '': '' @ error\<rparr>))"

definition optional_time :: "time_library \<Rightarrow> string option \<Rightarrow> api_error + gotime option" where
  "optional_time lib value =
     (case value of
        None \<Rightarrow> Inr None
      | Some s \<Rightarrow> (case go_time lib (Some s) of Inr t \<Rightarrow> Inr (Some t) | Inl e \<Rightarrow> Inl e))"

definition to_version :: "wire_version option \<Rightarrow> nat" where
  "to_version value = unwrap_or (case value of Some v \<Rightarrow> wv_index v | None \<Rightarrow> None) 0"

definition to_platform :: "wire_platform option \<Rightarrow> platform" where
  "to_platform value =
     (let value = unwrap_or value \<lparr>wpf_architecture = None, wpf_os = None\<rparr>
      in \<lparr>architecture = unwrap_or (wpf_architecture value) '''', os = unwrap_or (wpf_os value) ''''\<rparr>)"

definition to_task_spec :: "wire_task_spec option \<Rightarrow> task_spec" where
  "to_task_spec value =
     (let value = unwrap_or value \<lparr>wts_placement = None, wts_restart_policy = None\<rparr> in
      \<lparr>ts_placement = map_option (\<lambda>p. \<lparr>constraints = unwrap_or (wpl_constraints p) [],
                                        platforms = map (\<lambda>v. to_platform (Some v)) (unwrap_or (wpl_platforms p) [])\<rparr>) (wts_placement value),
       ts_restart_policy = map_option (\<lambda>p. \<lparr>condition = wire_text (wrp_condition p)\<rparr>) (wts_restart_policy value)\<rparr>)"

definition to_mode :: "wire_mode option \<Rightarrow> service_mode_spec" where
  "to_mode value =
     (let value = unwrap_or value \<lparr>wm_replicated = None, wm_global = None, wm_replicated_job = None, wm_global_job = None\<rparr> in
      \<lparr>md_replicated = map_option (\<lambda>r. \<lparr>replicas = to_count (wr_replicas r)\<rparr>) (wm_replicated value),
       md_global = wm_global value,
       md_replicated_job = map_option (\<lambda>j. \<lparr>max_concurrent = to_count (wj_max_concurrent j), total_completions = to_count (wj_total_completions j)\<rparr>)
                             (wm_replicated_job value),
       md_global_job = wm_global_job value\<rparr>)"

definition to_update_status :: "time_library \<Rightarrow> wire_update_status \<Rightarrow> api_error + update_status" where
  "to_update_status lib status =
     (case optional_time lib (wus_started_at status) of
        Inl e \<Rightarrow> Inl e
      | Inr started \<Rightarrow>
          (case optional_time lib (wus_completed_at status) of
             Inl e \<Rightarrow> Inl e
           | Inr completed \<Rightarrow> Inr \<lparr>us_state = wire_text (wus_state status), us_started_at = started, us_completed_at = completed\<rparr>))"

definition to_service :: "time_library \<Rightarrow> wire_service \<Rightarrow> api_error + service" where
  "to_service lib value =
     (let spec = unwrap_or (ws_spec value) \<lparr>wss_name = None, wss_labels = None, wss_task_template = None, wss_mode = None\<rparr>;
          update_status = (case ws_update_status value of
                             None \<Rightarrow> Inr None
                           | Some status \<Rightarrow> (case to_update_status lib status of Inr s \<Rightarrow> Inr (Some s) | Inl e \<Rightarrow> Inl e))
      in case update_status of
           Inl e \<Rightarrow> Inl e
         | Inr update_status \<Rightarrow>
             Inr \<lparr>svc_id = unwrap_or (ws_id value) '''',
                  svc_spec = \<lparr>ss_name = unwrap_or (wss_name spec) '''', ss_labels = to_labels (wss_labels spec),
                              ss_task_template = to_task_spec (wss_task_template spec), ss_mode = to_mode (wss_mode spec)\<rparr>,
                  svc_update_status = update_status,
                  svc_job_status = map_option (\<lambda>s. \<lparr>js_job_iteration = to_version (wjs_job_iteration s)\<rparr>) (ws_job_status value)\<rparr>)"

definition to_node :: "wire_node \<Rightarrow> node" where
  "to_node value =
     (let spec = unwrap_or (wn_spec value) \<lparr>wns_labels = None, wns_role = None, wns_availability = None\<rparr>;
          description = unwrap_or (wn_description value) \<lparr>wd_hostname = None, wd_platform = None, wd_engine = None\<rparr>;
          status = unwrap_or (wn_status value) \<lparr>wnst_state = None, wnst_addr = None\<rparr>
      in \<lparr>node_id = unwrap_or (wn_id value) '''',
          node_spec_of = \<lparr>ns_labels = to_labels (wns_labels spec), ns_role = wire_text (wns_role spec), ns_availability = wire_text (wns_availability spec)\<rparr>,
          node_description_of = \<lparr>nd_hostname = unwrap_or (wd_hostname description) '''', nd_platform = to_platform (wd_platform description),
                                 nd_engine_labels = to_labels (case wd_engine description of Some engine \<Rightarrow> wen_labels engine | None \<Rightarrow> None)\<rparr>,
          node_status_of = \<lparr>nst_state = wire_text (wnst_state status), nst_addr = unwrap_or (wnst_addr status) ''''\<rparr>\<rparr>)"

definition to_task :: "time_library \<Rightarrow> wire_task \<Rightarrow> api_error + task" where
  "to_task lib value =
     (let status = unwrap_or (wt_status value) \<lparr>wtst_timestamp = None, wtst_state = None\<rparr> in
      case go_time lib (wt_created_at value) of
        Inl e \<Rightarrow> Inl e
      | Inr created_at \<Rightarrow>
          (case go_time lib (wtst_timestamp status) of
             Inl e \<Rightarrow> Inl e
           | Inr stamp \<Rightarrow>
               Inr \<lparr>tk_version = to_version (wt_version value), tk_created_at = created_at,
                    tk_service_id = unwrap_or (wt_service_id value) '''', tk_slot = unwrap_or (wt_slot value) 0,
                    tk_node_id = unwrap_or (wt_node_id value) '''',
                    tk_status = \<lparr>tst_timestamp = stamp, tst_state = wire_text (wtst_state status)\<rparr>,
                    tk_desired_state = wire_text (wt_desired_state value),
                    tk_job_iteration = map_option (\<lambda>v. to_version (Some v)) (wt_job_iteration value)\<rparr>))"

definition to_container_summary :: "wire_summary \<Rightarrow> container_summary" where
  "to_container_summary value =
     \<lparr>cs_id = unwrap_or (wc_id value) '''', cs_names = unwrap_or (wc_names value) [], cs_labels = to_labels (wc_labels value),
      cs_state = wire_text (wc_state value)\<rparr>"

definition to_container_inspect :: "wire_inspect \<Rightarrow> container_inspect" where
  "to_container_inspect value =
     \<lparr>ci_state = map_option (\<lambda>s. \<lparr>cst_exit_code = unwrap_or (wst_exit_code s) 0,
                                   cst_health = map_option (\<lambda>h. \<lparr>ch_status = wire_text (wh_status h)\<rparr>) (wst_health s)\<rparr>) (wi_state value),
      ci_config = map_option (\<lambda>c. \<lparr>cc_healthcheck = wcf_healthcheck c\<rparr>) (wi_config value)\<rparr>"

definition to_event :: "wire_event \<Rightarrow> event" where
  "to_event value =
     \<lparr>ev_kind = wire_text (we_typ value), ev_action = unwrap_or (we_action value) '''',
      ev_actor_id = unwrap_or (case we_actor value of Some actor \<Rightarrow> wa_id actor | None \<Rightarrow> None) '''',
      ev_time = unwrap_or (we_time value) 0, ev_time_nano = unwrap_or (we_time_nano value) 0\<rparr>"

end
