(* ===== verification/Docker_Client.thy ===== *)
theory Docker_Client
  imports Docker_Convert Docker_Query Run_Properties
begin

text \<open>
  \<^verbatim>\<open>src/src/docker/api.rs\<close>, and the calls made through it: \<^verbatim>\<open>list_services\<close> and its siblings in
  \<^verbatim>\<open>reconciler/mod.rs\<close>, \<^verbatim>\<open>list_all_tasks\<close> in \<^verbatim>\<open>replicas_state.rs\<close>, with the error they wrap (\<^verbatim>\<open>collector/error.rs\<close>).
  Connecting, negotiating and the requests themselves are the client library's: a call is given what an
  attempt to connect would answer, and what the engine answered to the request.
\<close>

section \<open>The connection\<close>

definition DOCKER_REQUEST_TIMEOUT :: nanos where "DOCKER_REQUEST_TIMEOUT = secs 15"
definition CONTAINERS_LIST_TIMEOUT :: nanos where "CONTAINERS_LIST_TIMEOUT = secs 5"
definition EVENTS_CONNECT_TIMEOUT :: nanos where "EVENTS_CONNECT_TIMEOUT = DOCKER_REQUEST_TIMEOUT"

text \<open>The errors of connecting; \<open>SocketNotFound\<close> is the one of the client's own errors told apart.\<close>

datatype connect_error = SocketNotFound api_error | ClientError api_error | InvalidConfig string | UnsupportedConfig string

text \<open>What an attempt answers: the connection, and the same one negotiated.\<close>

record 'conn attempt =
  at_connect :: "connect_error + 'conn"
  at_negotiate :: "api_error + 'conn"

record 'conn client =
  cl_docker :: "'conn option"
  cl_events_timeout :: nanos

definition client_new :: "connect_error + 'conn \<Rightarrow> connect_error + 'conn client" where
  "client_new connected =
     (case connected of
        Inr _ \<Rightarrow> Inr \<lparr>cl_docker = None, cl_events_timeout = EVENTS_CONNECT_TIMEOUT\<rparr>
      | Inl (SocketNotFound _) \<Rightarrow> Inr \<lparr>cl_docker = None, cl_events_timeout = EVENTS_CONNECT_TIMEOUT\<rparr>
      | Inl error \<Rightarrow> Inl error)"

definition with_events_timeout :: "nanos \<Rightarrow> 'conn client \<Rightarrow> 'conn client" where
  "with_events_timeout timeout c = c\<lparr>cl_events_timeout := timeout\<rparr>"

definition connection :: "'conn attempt \<Rightarrow> 'conn client \<Rightarrow> (api_error + 'conn) \<times> 'conn client" where
  "connection attempt c =
     (case cl_docker c of
        Some docker \<Rightarrow> (Inr docker, c)
      | None \<Rightarrow>
          let made = (case at_connect attempt of
                        Inl (SocketNotFound e) \<Rightarrow> Inl e
                      | Inl (ClientError e) \<Rightarrow> Inl e
                      | Inl (InvalidConfig message) \<Rightarrow> Inl \<lparr>ae_kind = KindOther, ae_message = message\<rparr>
                      | Inl (UnsupportedConfig message) \<Rightarrow> Inl \<lparr>ae_kind = KindOther, ae_message = message\<rparr>
                      | Inr docker \<Rightarrow>
                          (case at_negotiate attempt of
                             Inr negotiated \<Rightarrow> Inr negotiated
                           | Inl e \<Rightarrow> if ae_kind e = KindOther then Inr docker else Inl e))
          in case made of
               Inl e \<Rightarrow> (Inl e, c)
             | Inr docker \<Rightarrow> (Inr docker, c\<lparr>cl_docker := Some docker\<rparr>))"

section \<open>The calls\<close>

definition trim_id :: "string \<Rightarrow> string \<Rightarrow> api_error + string" where
  "trim_id kind object_id =
     (let object_id = trim_space object_id in
      if object_id = [] then Inl \<lparr>ae_kind = KindOther, ae_message = ''invalid '' @ kind @ '' name or ID: value is empty''\<rparr> else Inr object_id)"

fun try_map :: "('a \<Rightarrow> 'e + 'b) \<Rightarrow> 'a list \<Rightarrow> 'e + 'b list" where
  "try_map f [] = Inr []"
| "try_map f (x # xs) =
     (case f x of
        Inl e \<Rightarrow> Inl e
      | Inr y \<Rightarrow> (case try_map f xs of Inl e \<Rightarrow> Inl e | Inr ys \<Rightarrow> Inr (y # ys)))"

text \<open>A request over the connection: \<open>engine\<close> is what the engine answers on it.\<close>

definition request :: "'conn attempt \<Rightarrow> ('conn \<Rightarrow> api_error + 'a) \<Rightarrow> ('a \<Rightarrow> api_error + 'b) \<Rightarrow> 'conn client \<Rightarrow> (api_error + 'b) \<times> 'conn client" where
  "request attempt engine decode c =
     (case connection attempt c of
        (Inl e, c) \<Rightarrow> (Inl e, c)
      | (Inr docker, c) \<Rightarrow>
          (case engine docker of
             Inl e \<Rightarrow> (Inl e, c)
           | Inr answer \<Rightarrow> (decode answer, c)))"

definition service_list :: "time_library \<Rightarrow> 'conn attempt \<Rightarrow> ('conn \<Rightarrow> api_error + wire_service list) \<Rightarrow> 'conn client
    \<Rightarrow> (api_error + service list) \<times> 'conn client" where
  "service_list lib attempt engine c = request attempt engine (try_map (to_service lib)) c"

definition node_list :: "'conn attempt \<Rightarrow> ('conn \<Rightarrow> api_error + wire_node list) \<Rightarrow> 'conn client \<Rightarrow> (api_error + node list) \<times> 'conn client" where
  "node_list attempt engine c = request attempt engine (\<lambda>list. Inr (map to_node list)) c"

definition service_inspect :: "time_library \<Rightarrow> 'conn attempt \<Rightarrow> (string \<Rightarrow> 'conn \<Rightarrow> api_error + wire_service) \<Rightarrow> string \<Rightarrow> 'conn client
    \<Rightarrow> (api_error + service) \<times> 'conn client" where
  "service_inspect lib attempt engine object_id c =
     (case trim_id ''service'' object_id of
        Inl e \<Rightarrow> (Inl e, c)
      | Inr object_id \<Rightarrow> request attempt (engine object_id) (to_service lib) c)"

definition task_list :: "time_library \<Rightarrow> 'conn attempt \<Rightarrow> ('conn \<Rightarrow> api_error + wire_task list) \<Rightarrow> 'conn client
    \<Rightarrow> (api_error + task list) \<times> 'conn client" where
  "task_list lib attempt engine c = request attempt engine (try_map (to_task lib)) c"

definition container_list :: "'conn attempt \<Rightarrow> ('conn \<Rightarrow> api_error + wire_summary list) \<Rightarrow> 'conn client
    \<Rightarrow> (api_error + container_summary list) \<times> 'conn client" where
  "container_list attempt engine c = request attempt engine (\<lambda>list. Inr (map to_container_summary list)) c"

definition container_inspect_call :: "'conn attempt \<Rightarrow> (string \<Rightarrow> 'conn \<Rightarrow> api_error + wire_inspect) \<Rightarrow> string \<Rightarrow> 'conn client
    \<Rightarrow> (api_error + container_inspect) \<times> 'conn client" where
  "container_inspect_call attempt engine object_id c =
     (case trim_id ''container'' object_id of
        Inl e \<Rightarrow> (Inl e, c)
      | Inr object_id \<Rightarrow> request attempt (engine object_id) (\<lambda>inspect. Inr (to_container_inspect inspect)) c)"

section \<open>The event stream\<close>

text \<open>The parameters of an events request: since when, and the filters unless there are none.\<close>

record events_request =
  er_since :: string
  er_filters :: "(string, string list) hmap option"
  er_timeout :: nanos

text \<open>
  One deadline covers the connection and the engine's headers; a connection still being made at the
  deadline is given up and not kept. \<open>took\<close> is how long the connection took.
\<close>

definition events :: "'conn attempt \<Rightarrow> bool \<Rightarrow> nanos option \<Rightarrow> timestamp \<Rightarrow> filters \<Rightarrow> ('conn \<Rightarrow> events_request \<Rightarrow> api_error + 's) \<Rightarrow> 'conn client
    \<Rightarrow> (api_error + 's) \<times> 'conn client" where
  "events attempt cancelled took since filters established c =
     (if cancelled then (Inl \<lparr>ae_kind = KindCancelled, ae_message = ''context canceled''\<rparr>, c)
      else case took of
             None \<Rightarrow> (Inl deadline_exceeded, c)
           | Some took \<Rightarrow>
               if took > cl_events_timeout c then (Inl deadline_exceeded, c)
               else (case connection attempt c of
                       (Inl e, c) \<Rightarrow> (Inl e, c)
                     | (Inr docker, c) \<Rightarrow>
                         (established docker
                            \<lparr>er_since = since_parameter since,
                             er_filters = (if filters_is_empty filters then None else Some (filters_to_map filters)),
                             er_timeout = cl_events_timeout c - took\<rparr>, c)))"

text \<open>What the library's stream yields: an event, its end, or an error that is of the JSON kind or not.\<close>

datatype stream_item = StreamOver | StreamEvent wire_event | StreamBroke bool string

definition next_event :: "stream_item \<Rightarrow> stream_error + event" where
  "next_event item =
     (case item of
        StreamOver \<Rightarrow> Inl stream_eof
      | StreamEvent message \<Rightarrow> Inr (to_event message)
      | StreamBroke json message \<Rightarrow> Inl \<lparr>se_kind = (if json then Decode else UnexpectedEof), se_message = message\<rparr>)"

section \<open>The calls of the collectors\<close>

record call_failure =
  cf_context :: string
  cf_source :: api_error

definition call_failure_text :: "call_failure \<Rightarrow> string" where
  "call_failure_text e = cf_context e @ '': '' @ ae_message (cf_source e)"

text \<open>All the reconciler asks of a failure is whether the object is gone.\<close>

definition classify :: "call_failure \<Rightarrow> call_error" where
  "classify e = (if is_not_found (cf_source e) then NotFound else OtherError)"

text \<open>One call under its bound, with its context: \<open>took\<close> is how long it needs.\<close>

definition bounded :: "nanos \<Rightarrow> string \<Rightarrow> nanos option \<Rightarrow> (api_error + 'a) \<Rightarrow> call_failure + 'a" where
  "bounded timeout context took answer =
     (case with_bare_timeout timeout (map_option (\<lambda>took. (took, answer)) took) of
        Inl e \<Rightarrow> Inl \<lparr>cf_context = context, cf_source = e\<rparr>
      | Inr x \<Rightarrow> Inr x)"

definition with_docker_timeout :: "string \<Rightarrow> nanos option \<Rightarrow> (api_error + 'a) \<Rightarrow> call_failure + 'a" where
  "with_docker_timeout context took answer = bounded DOCKER_REQUEST_TIMEOUT context took answer"

definition list_services :: "nanos option \<Rightarrow> (api_error + service list) \<Rightarrow> call_failure + service list" where
  "list_services took answer = with_docker_timeout ''service list'' took answer"

definition list_nodes :: "nanos option \<Rightarrow> (api_error + node list) \<Rightarrow> call_failure + node list" where
  "list_nodes took answer = with_docker_timeout ''node list'' took answer"

definition inspect_service :: "string \<Rightarrow> nanos option \<Rightarrow> (api_error + service) \<Rightarrow> call_failure + service" where
  "inspect_service service_id took answer = with_docker_timeout (''service inspect '' @ service_id) took answer"

definition list_all_tasks :: "nanos option \<Rightarrow> (api_error + task list) \<Rightarrow> call_failure + task list" where
  "list_all_tasks took answer = with_docker_timeout ''task list'' took answer"

definition list_containers :: "nanos option \<Rightarrow> (api_error + container_summary list) \<Rightarrow> call_failure + container_summary list" where
  "list_containers took answer = bounded CONTAINERS_LIST_TIMEOUT ''container list'' took answer"

definition list_services_and_nodes :: "call_failure + service list \<Rightarrow> call_failure + node list \<Rightarrow> call_failure + (service list \<times> node list)" where
  "list_services_and_nodes services nodes =
     (case services of
        Inl e \<Rightarrow> Inl e
      | Inr services \<Rightarrow> (case nodes of Inl e \<Rightarrow> Inl e | Inr nodes \<Rightarrow> Inr (services, nodes)))"

definition classified :: "call_failure + 'a \<Rightarrow> call_error + 'a" where
  "classified answer = (case answer of Inl e \<Rightarrow> Inl (classify e) | Inr x \<Rightarrow> Inr x)"

section \<open>Facts\<close>

lemma try_map_Inr: "try_map f xs = Inr ys \<longleftrightarrow> list_all2 (\<lambda>x y. f x = Inr y) xs ys"
proof (induction xs arbitrary: ys)
  case (Cons x xs)
  show ?case
  proof (cases "f x")
    case (Inr y)
    then show ?thesis by (cases "try_map f xs") (auto simp: list_all2_Cons1 Cons.IH [symmetric])
  qed (auto simp: list_all2_Cons1)
qed auto

text \<open>A list fails with the error of its first element that fails.\<close>

lemma try_map_Inl: "try_map f xs = Inl e \<longleftrightarrow> (\<exists>i < length xs. f (xs ! i) = Inl e \<and> (\<forall>j < i. \<exists>y. f (xs ! j) = Inr y))"
proof (induction xs)
  case (Cons x xs)
  show ?case
  proof (cases "f x")
    case (Inl e')
    have "(\<exists>i < length (x # xs). f ((x # xs) ! i) = Inl e \<and> (\<forall>j < i. \<exists>y. f ((x # xs) ! j) = Inr y)) \<longleftrightarrow> e' = e"
      using Inl by (metis Inl_Inr_False length_greater_0_conv list.discI neq0_conv nth_Cons_0 sum.inject(1) not_less_zero)
    then show ?thesis using Inl by simp
  next
    case (Inr y)
    have "(\<exists>i < length (x # xs). f ((x # xs) ! i) = Inl e \<and> (\<forall>j < i. \<exists>y. f ((x # xs) ! j) = Inr y))
        \<longleftrightarrow> (\<exists>i < length xs. f (xs ! i) = Inl e \<and> (\<forall>j < i. \<exists>y. f (xs ! j) = Inr y))" (is "?l \<longleftrightarrow> ?r")
    proof
      assume ?l
      then obtain i where i: "i < length (x # xs)" "f ((x # xs) ! i) = Inl e" "\<forall>j < i. \<exists>y. f ((x # xs) ! j) = Inr y" by blast
      with Inr obtain k where "i = Suc k" by (cases i) auto
      with i show ?r by (intro exI [of _ k]) auto
    next
      assume ?r
      then obtain k where "k < length xs" "f (xs ! k) = Inl e" "\<forall>j < k. \<exists>y. f (xs ! j) = Inr y" by blast
      with Inr show ?l by (intro exI [of _ "Suc k"]) (auto simp: less_Suc_eq_0_disj)
    qed
    then show ?thesis using Inr Cons.IH by (cases "try_map f xs") auto
  qed
qed simp

lemma bounded_Inr: "bounded timeout context took answer = Inr x \<longleftrightarrow> (\<exists>t. took = Some t \<and> t \<le> timeout) \<and> answer = Inr x"
  by (auto simp: bounded_def with_bare_timeout_def split: option.splits sum.splits if_splits)

lemma bounded_Inl: "bounded timeout context took answer = Inl e \<Longrightarrow> cf_context e = context
    \<and> (cf_source e = deadline_exceeded \<or> (\<exists>t. took = Some t \<and> t \<le> timeout) \<and> answer = Inl (cf_source e))"
  by (auto simp: bounded_def with_bare_timeout_def split: option.splits sum.splits if_splits)

lemmas bounded_calls = list_services_def list_nodes_def inspect_service_def list_all_tasks_def list_containers_def with_docker_timeout_def

lemma request_answer:
  "fst (request attempt engine decode c) = Inr x \<longleftrightarrow> (\<exists>docker a. fst (connection attempt c) = Inr docker \<and> engine docker = Inr a \<and> decode a = Inr x)"
  by (auto simp: request_def split: prod.splits sum.splits)

text \<open>A call that got an answer leaves the connection it was made over.\<close>

lemma request_connected: "request attempt engine decode c = (Inr x, c') \<Longrightarrow> \<exists>docker. cl_docker c' = Some docker"
  by (auto simp: request_def connection_def Let_def split: prod.splits sum.splits option.splits connect_error.splits if_splits)

lemma connection_kept: "cl_docker c = Some docker \<Longrightarrow> connection attempt c = (Inr docker, c)"
  by (simp add: connection_def)

lemma to_service_kind: "to_service lib w = Inl e \<Longrightarrow> ae_kind e = KindOther"
  by (auto simp: to_service_def to_update_status_def optional_time_def go_time_def Let_def split: sum.splits option.splits)

lemma remove_service_metadata: "rc_metadata (remove_service i r) = hdel i (rc_metadata r)"
  by (simp add: remove_service_result on_defs dropped_def delete_id map_of_eq_None_iff split: option.split)

text \<open>Serving a key forgets no service but its own, and that only when Docker says it is gone.\<close>

lemma reconcile_keeps:
  assumes "rec_ok E cls r" and "hhas (rc_metadata r) x" and "\<not> hhas (rc_metadata (outcome_state (reconcile_service E key inspected now ts r))) x"
  shows "x = dk_service_id key \<and> inspected = Inl NotFound"
proof (cases inspected)
  case (Inr s)
  have "hhas (rc_metadata (outcome_state (apply_service E s (rc_nodes r) r))) x"
  proof (cases "buildable cls s")
    case True
    then show ?thesis using apply_buildable(1) [OF assms(1) True refl] assms(2) by (simp add: hhas_def retired_identity_def update_conv' split: option.split)
  next
    case False
    then have "\<exists>p. build_metadata s (co_custom_labels (rc_collectors r)) = Inl p"
      using rec_ok_parts(1) [OF assms(1)] by (cases "build_metadata s (co_custom_labels (rc_collectors r))") (auto simp: buildable_def families_ok_def)
    then show ?thesis using assms(2) by (auto simp: apply_service_def)
  qed
  then show ?thesis using assms(3) Inr by (simp add: reconcile_service_def)
next
  case (Inl e)
  show ?thesis using assms(2,3) Inl remove_service_metadata
    by (cases e) (auto simp: reconcile_service_def on_state_def hhas_def delete_conv' split: if_splits)
qed

section \<open>Properties\<close>



text \<open>
  C16: a resync works from exactly what the engine listed. Its two lists arrive if and only if both calls
  answered within fifteen seconds, over a connection, and every listed service decodes; then they are
  the decoded lists, in order. Otherwise the resync gets the error of the first call that failed, named.
\<close>

theorem resync_lists_exact:
  "(list_services_and_nodes (list_services took (fst (service_list lib attempt engine c))) (list_nodes took' (fst (node_list attempt' engine' c'))) = Inr (services, nodes)
    \<longleftrightarrow> (\<exists>docker ws t docker' wn t'.
          took = Some t \<and> t \<le> secs 15 \<and> fst (connection attempt c) = Inr docker \<and> engine docker = Inr ws
          \<and> list_all2 (\<lambda>w s. to_service lib w = Inr s) ws services
          \<and> took' = Some t' \<and> t' \<le> secs 15 \<and> fst (connection attempt' c') = Inr docker' \<and> engine' docker' = Inr wn \<and> nodes = map to_node wn))
   \<and> (case list_services_and_nodes (list_services took (fst (service_list lib attempt engine c))) (list_nodes took' (fst (node_list attempt' engine' c'))) of
        Inr _ \<Rightarrow> True
      | Inl e \<Rightarrow> cf_context e = (if \<exists>ss. list_services took (fst (service_list lib attempt engine c)) = Inr ss then ''node list'' else ''service list''))"
  (is "(?both = _ \<longleftrightarrow> ?ok) \<and> ?named")
proof
  have s: "list_services took (fst (service_list lib attempt engine c)) = Inr ss \<longleftrightarrow>
      (\<exists>t docker ws. took = Some t \<and> t \<le> secs 15 \<and> fst (connection attempt c) = Inr docker \<and> engine docker = Inr ws \<and> list_all2 (\<lambda>w s. to_service lib w = Inr s) ws ss)" for ss
    by (auto simp: bounded_calls bounded_Inr service_list_def request_answer try_map_Inr DOCKER_REQUEST_TIMEOUT_def)
  have n: "list_nodes took' (fst (node_list attempt' engine' c')) = Inr nn \<longleftrightarrow>
      (\<exists>t docker wn. took' = Some t \<and> t \<le> secs 15 \<and> fst (connection attempt' c') = Inr docker \<and> engine' docker = Inr wn \<and> nn = map to_node wn)" for nn
    by (auto simp: bounded_calls bounded_Inr node_list_def request_answer DOCKER_REQUEST_TIMEOUT_def)
  have "?both = Inr (services, nodes) \<longleftrightarrow>
      list_services took (fst (service_list lib attempt engine c)) = Inr services \<and> list_nodes took' (fst (node_list attempt' engine' c')) = Inr nodes"
    by (auto simp: list_services_and_nodes_def split: sum.splits)
  then show "?both = Inr (services, nodes) \<longleftrightarrow> ?ok" unfolding s n by blast
  show ?named
    by (auto simp: list_services_and_nodes_def bounded_calls split: sum.splits dest!: bounded_Inl)
qed

end
