(* ===== verification/Reconciler_Loop.thy ===== *)
theory Reconciler_Loop
  imports Run_Properties
begin

text \<open>
  The loop of \<^verbatim>\<open>src/src/collector/reconciler/mod.rs\<close> (\<^verbatim>\<open>run\<close>, and \<^verbatim>\<open>cycle\<close> with its cancellation) and the exchange
  of \<^verbatim>\<open>reconciler/poll.rs\<close> that the poller waits in (\<^verbatim>\<open>send\<close>, \<^verbatim>\<open>reply\<close>). A cancellation is where it fired: \<open>stop\<close>
  says of a Docker call whether it fired before that call answered.
\<close>

section \<open>A cycle that may be cancelled\<close>

fun serve_keys_until :: "extern \<Rightarrow> answers \<Rightarrow> (string \<Rightarrow> bool) \<Rightarrow> bool \<Rightarrow> due_key list \<Rightarrow> reconciler \<Rightarrow> reconciler \<times> bool" where
  "serve_keys_until E ans stop cancelled [] r = (r, cancelled)"
| "serve_keys_until E ans stop cancelled (k # ks) r =
     (if cancelled then (r, True)
      else if stop (dk_service_id k) then serve_keys_until E ans stop True ks r
      else serve_keys_until E ans stop False ks
             (repaired ans (dk_service_id k) False
                (reconcile_service E k (an_inspect ans (dk_service_id k))
                   (fst (an_step_clock ans (dk_service_id k))) (snd (an_step_clock ans (dk_service_id k))) r)))"

definition cycle_until :: "extern \<Rightarrow> answers \<Rightarrow> (string \<Rightarrow> bool) \<Rightarrow> reconciler \<Rightarrow> reconciler \<times> bool" where
  "cycle_until E ans stop r =
     (let now = an_now ans;
          r = (if periodic_resync_due r now then request_resync (an_periodic ans) r else r);
          (r, cancelled) =
            (if \<not> nodes_due r now then (r, False)
             else if stop ''nodes'' then (reconcile_nodes_begin r, True)
             else (after_step False (fst (an_step_clock ans ''nodes'')) (snd (an_step_clock ans ''nodes''))
                     (reconcile_nodes_end E (an_nodes ans) (fst (an_step_clock ans ''nodes'')) (reconcile_nodes_begin r)), False));
          (r, cancelled) =
            (if \<not> resync_due r now then (r, cancelled)
             else if cancelled \<or> stop ''resync'' then (r, True)
             else (repaired ans ''resync'' True
                     (resync_end E (an_lists ans) (st_resync_requested (rc_state r)) (an_pass_start ans)
                        (fst (an_step_clock ans ''resync'')) (snd (an_step_clock ans ''resync'')) r), False));
          (keys, s) = take_due_keys now (rc_state r)
      in serve_keys_until E ans stop cancelled keys (r\<lparr>rc_state := s\<rparr>))"

section \<open>The loop\<close>

text \<open>
  What ended the wait at the end of a turn. When the work is already due there is no wait, and once
  the cancellation fired the loop ends, a request that is taken then being answered that the
  reconciler is stopping.
\<close>

datatype wake = WakeCancelled | WakeNotified | WakeTimer | WakeRequest poll_request

record loop_turn =
  lt_cancelled :: bool
  lt_pending :: poll_receivers
  lt_poll_clock :: "string \<Rightarrow> instant \<times> timestamp"
  lt_answers :: answers
  lt_stop :: "string \<Rightarrow> bool"
  lt_now :: instant
  lt_wake :: wake

definition serve_one :: "bool \<Rightarrow> (string \<Rightarrow> instant \<times> timestamp) \<Rightarrow> poll_request \<Rightarrow> reconciler \<Rightarrow> reconciler" where
  "serve_one cancelled clock request r = snd (serve_poll_request cancelled request clock r)"

definition turn_wake :: "loop_turn \<Rightarrow> reconciler \<Rightarrow> reconciler" where
  "turn_wake t r =
     (case lt_wake t of
        WakeNotified \<Rightarrow> notified r
      | WakeRequest request \<Rightarrow> serve_one False (lt_poll_clock t) request r
      | _ \<Rightarrow> r)"

text \<open>The state the loop is in after these turns, and whether it returned.\<close>

fun reconciler_run :: "extern \<Rightarrow> loop_turn list \<Rightarrow> reconciler \<Rightarrow> reconciler \<times> bool" where
  "reconciler_run E [] r = (r, False)"
| "reconciler_run E (t # turns) r =
     (if lt_cancelled t then (r, True)
      else let (answers, channels, r) = serve_pending_poll_requests False (lt_poll_clock t) (lt_pending t) r;
               (r, cancelled) = cycle_until E (lt_answers t) (lt_stop t) r
           in if cancelled then (r, True)
              else if next_wake_delay r (lt_now t) = Some 0 then reconciler_run E turns r
              else if lt_wake t = WakeCancelled then (r, True)
              else reconciler_run E turns (turn_wake t r))"

section \<open>The poller's exchange\<close>

text \<open>What became of a request, and of its answer.\<close>

datatype sent = Accepted | ReceiverGone | SendCancelled

datatype 'a replied = Answered "poll_error + 'a" | Dropped | ReplyCancelled

definition send :: "sent \<Rightarrow> string \<Rightarrow> poll_error + unit" where
  "send result step = (case result of Accepted \<Rightarrow> Inr () | ReceiverGone \<Rightarrow> Inl (Canceled step) | SendCancelled \<Rightarrow> Inl (Canceled step))"

definition reply :: "'a replied \<Rightarrow> string \<Rightarrow> poll_error + 'a" where
  "reply result step = (case result of Answered answer \<Rightarrow> answer | Dropped \<Rightarrow> Inl (Canceled step) | ReplyCancelled \<Rightarrow> Inl (Canceled step))"

definition request_poll_snapshot :: "sent \<Rightarrow> poll_snapshot replied \<Rightarrow> poll_error + poll_snapshot" where
  "request_poll_snapshot was_sent was_replied =
     (case send was_sent ''request polling snapshot'' of
        Inl e \<Rightarrow> Inl e
      | Inr _ \<Rightarrow> reply was_replied ''wait for polling snapshot'')"

definition submit_poll_counts :: "sent \<Rightarrow> unit replied \<Rightarrow> poll_error + unit" where
  "submit_poll_counts was_sent was_replied =
     (case send was_sent ''submit poll counts'' of
        Inl e \<Rightarrow> Inl e
      | Inr _ \<Rightarrow> reply was_replied ''wait for poll verdict'')"

section \<open>A cancelled cycle is a run\<close>

lemma serve_keys_until_cancelled: "serve_keys_until E ans stop True ks r = (r, True)"
  by (cases ks) simp_all

lemma serve_keys_until_never: "serve_keys_until E ans (\<lambda>_. False) False ks r = (serve_keys E ans ks r, False)"
  by (induction ks arbitrary: r) simp_all

lemma keys_until_run:
  "(mstep E)\<^sup>*\<^sup>* (m\<lparr>mc_phase := Keys ks, mc_rec := r\<rparr>) (m\<lparr>mc_phase := Between, mc_rec := fst (serve_keys_until E ans stop cancelled ks r)\<rparr>)"
proof (induction ks arbitrary: r cancelled)
  case Nil
  show ?case using mstep.cycle_end [of "m\<lparr>mc_phase := Keys [], mc_rec := r\<rparr>" E] by (simp add: machine_swap)
next
  case (Cons k ks)
  let ?m = "m\<lparr>mc_phase := Keys (k # ks), mc_rec := r\<rparr>"
  have dropped: "(mstep E)\<^sup>*\<^sup>* ?m (m\<lparr>mc_phase := Between, mc_rec := r\<rparr>)"
    using mstep.keys_cancelled [of ?m "k # ks" E] by (simp add: machine_swap)
  show ?case
  proof (cases "cancelled \<or> stop (dk_service_id k)")
    case True
    then show ?thesis using dropped by (auto simp: serve_keys_until_cancelled)
  next
    case False
    let ?r = "repaired ans (dk_service_id k) False (reconcile_service E k (an_inspect ans (dk_service_id k))
        (fst (an_step_clock ans (dk_service_id k))) (snd (an_step_clock ans (dk_service_id k))) r)"
    have "mstep E ?m (m\<lparr>mc_phase := InspectCall k ks, mc_rec := r\<rparr>)" using mstep.key [of ?m k ks E] by (simp add: machine_swap)
    moreover have "mstep E (m\<lparr>mc_phase := InspectCall k ks, mc_rec := r\<rparr>) (m\<lparr>mc_phase := Keys ks, mc_rec := ?r\<rparr>)"
      using mstep.inspected [of "m\<lparr>mc_phase := InspectCall k ks, mc_rec := r\<rparr>" k ks, OF _ refl] by (simp add: repaired_def)
    ultimately show ?thesis using Cons.IH [of ?r False] False by (auto intro: converse_rtranclp_into_rtranclp)
  qed
qed

text \<open>The three parts of a cycle, each with what it leaves and whether the cancellation fired.\<close>

lemma nodes_until_run:
  assumes "(r', c) = (if \<not> nodes_due r now then (r, False)
      else if stop ''nodes'' then (reconcile_nodes_begin r, True)
      else (after_step False (fst (an_step_clock ans ''nodes'')) (snd (an_step_clock ans ''nodes''))
              (reconcile_nodes_end E (an_nodes ans) (fst (an_step_clock ans ''nodes'')) (reconcile_nodes_begin r)), False))"
  shows "(mstep E)\<^sup>*\<^sup>* (m\<lparr>mc_phase := AtNodes now, mc_rec := r\<rparr>) (m\<lparr>mc_phase := AtResync now, mc_rec := r'\<rparr>)"
proof (cases "nodes_due r now \<and> stop ''nodes''")
  case True
  let ?b = "reconcile_nodes_begin r"
  have "mstep E (m\<lparr>mc_phase := AtNodes now, mc_rec := r\<rparr>) (m\<lparr>mc_phase := NodesCall now, mc_rec := ?b\<rparr>)"
    using mstep.nodes [of "m\<lparr>mc_phase := AtNodes now, mc_rec := r\<rparr>" now _ _ E] True by (simp add: cycle_nodes_def)
  moreover have "mstep E (m\<lparr>mc_phase := NodesCall now, mc_rec := ?b\<rparr>) (m\<lparr>mc_phase := AtResync now, mc_rec := ?b\<rparr>)"
    using mstep.nodes_cancelled [of "m\<lparr>mc_phase := NodesCall now, mc_rec := ?b\<rparr>" now E] by (simp add: machine_swap)
  ultimately show ?thesis using True assms by (auto intro: mstep_to)
next
  case False
  then show ?thesis using assms by (intro nodes_run [where ans = ans]) (auto split: if_splits)
qed

lemma resync_until_run:
  assumes "(r', c') = (if \<not> resync_due r now then (r, c)
      else if c \<or> stop ''resync'' then (r, True)
      else (repaired ans ''resync'' True
              (resync_end E (an_lists ans) (st_resync_requested (rc_state r)) (an_pass_start ans)
                 (fst (an_step_clock ans ''resync'')) (snd (an_step_clock ans ''resync'')) r), False))"
  shows "(mstep E)\<^sup>*\<^sup>* (m\<lparr>mc_phase := AtResync now, mc_rec := r\<rparr>) (m\<lparr>mc_phase := AtKeys now, mc_rec := r'\<rparr>)"
proof (cases "resync_due r now \<and> (c \<or> stop ''resync'')")
  case True
  let ?at = "\<lambda>p. m\<lparr>mc_phase := p, mc_rec := r\<rparr>" and ?call = "ResyncCall now (st_resync_requested (rc_state r)) (an_pass_start ans)"
  have "mstep E (?at (AtResync now)) (?at (ResyncBegin now))" using mstep.resync [of "?at (AtResync now)" now E] True by (simp add: machine_swap cycle_resync_def)
  moreover have "mstep E (?at (ResyncBegin now)) (?at ?call)"
    using mstep.resync_started [of "?at (ResyncBegin now)" now E "an_pass_start ans"] by (simp add: resync_begin_def machine_swap)
  moreover have "mstep E (?at ?call) (?at (AtKeys now))" using mstep.resync_cancelled [of "?at ?call"] by (simp add: machine_swap)
  ultimately show ?thesis using True assms by (auto intro: mstep_to)
next
  case False
  then show ?thesis using assms by (intro resync_run [where ans = ans]) (auto split: if_splits)
qed

lemma cycle_until_run:
  assumes "mc_phase m = Between"
  shows "(mstep E)\<^sup>*\<^sup>* m (m\<lparr>mc_rec := fst (cycle_until E ans stop (mc_rec m))\<rparr>)"
proof -
  let ?now = "an_now ans" and ?r = "mc_rec m"
  define r1 where "r1 = (if periodic_resync_due ?r ?now then request_resync (an_periodic ans) ?r else ?r)"
  obtain r2 c2 where n: "(r2, c2) = (if \<not> nodes_due r1 ?now then (r1, False)
      else if stop ''nodes'' then (reconcile_nodes_begin r1, True)
      else (after_step False (fst (an_step_clock ans ''nodes'')) (snd (an_step_clock ans ''nodes''))
              (reconcile_nodes_end E (an_nodes ans) (fst (an_step_clock ans ''nodes'')) (reconcile_nodes_begin r1)), False))" by (metis surj_pair)
  obtain r3 c3 where s: "(r3, c3) = (if \<not> resync_due r2 ?now then (r2, c2)
      else if c2 \<or> stop ''resync'' then (r2, True)
      else (repaired ans ''resync'' True
              (resync_end E (an_lists ans) (st_resync_requested (rc_state r2)) (an_pass_start ans)
                 (fst (an_step_clock ans ''resync'')) (snd (an_step_clock ans ''resync'')) r2), False))" by (metis surj_pair)
  obtain ks st where k: "take_due_keys ?now (rc_state r3) = (ks, st)" by force
  have u: "cycle_until E ans stop ?r = serve_keys_until E ans stop c3 ks (r3\<lparr>rc_state := st\<rparr>)"
    unfolding cycle_until_def Let_def r1_def [symmetric] n [symmetric] prod.case s [symmetric] k ..
  have b: "m\<lparr>mc_phase := Between, mc_rec := r\<rparr> = m\<lparr>mc_rec := r\<rparr>" for r using assms by (cases m) simp
  have "(mstep E)\<^sup>*\<^sup>* (m\<lparr>mc_phase := Between, mc_rec := ?r\<rparr>) (m\<lparr>mc_phase := AtNodes ?now, mc_rec := r1\<rparr>)" by (rule periodic_run) (simp add: r1_def)
  also have "(mstep E)\<^sup>*\<^sup>* \<dots> (m\<lparr>mc_phase := AtResync ?now, mc_rec := r2\<rparr>)" by (rule nodes_until_run [where stop = stop and ans = ans, OF n])
  also have "(mstep E)\<^sup>*\<^sup>* \<dots> (m\<lparr>mc_phase := AtKeys ?now, mc_rec := r3\<rparr>)" by (rule resync_until_run [where stop = stop and ans = ans, OF s])
  also have "mstep E \<dots> (m\<lparr>mc_phase := Keys ks, mc_rec := r3\<lparr>rc_state := st\<rparr>\<rparr>)"
    using mstep.keys [of "m\<lparr>mc_phase := AtKeys ?now, mc_rec := r3\<rparr>" ?now _ _ E] k by (simp add: cycle_keys_def)
  also have "(mstep E)\<^sup>*\<^sup>* \<dots> (m\<lparr>mc_phase := Between, mc_rec := fst (cycle_until E ans stop ?r)\<rparr>)" unfolding u by (rule keys_until_run)
  finally show ?thesis unfolding b by simp
qed

lemma cycle_until_never: "cycle_until E ans (\<lambda>_. False) r = (cycle E ans r, False)"
  by (auto simp: cycle_until_def cycle_def Let_def serve_keys_until_never split: prod.split)

section \<open>The poll requests of the loop\<close>

text \<open>The requests waiting, in the order they are taken, and answering them on the machine.\<close>

definition waiting :: "poll_receivers \<Rightarrow> poll_request list" where
  "waiting c = replicate (pr_snapshots c) SnapshotRequest @ map (\<lambda>(sn, counters). ApplyRequest sn counters) (pr_applies c)"

lemma serve_pending_fold: "snd (snd (serve_pending_poll_requests cancelled clock c r)) = fold (serve_one cancelled clock) (waiting c) r"
proof (induction cancelled clock c r rule: serve_pending_poll_requests.induct)
  case (1 cancelled clock c r)
  show ?case
  proof (cases "try_recv c")
    case None
    then show ?thesis by (auto simp: serve_pending_poll_requests.simps [of _ _ c] try_recv_def waiting_def split: if_splits list.splits)
  next
    case (Some p)
    obtain q c' where p: "p = (q, c')" by (cases p)
    have w: "waiting c = q # waiting c'"
      using Some p by (cases "pr_snapshots c") (auto simp: try_recv_def waiting_def split: list.splits)
    obtain a r' where s: "serve_poll_request cancelled q clock r = (a, r')" by force
    have "snd (snd (serve_pending_poll_requests cancelled clock c' r')) = fold (serve_one cancelled clock) (waiting c') r'"
      using 1 [OF Some p [symmetric] s [symmetric]] by (simp del: serve_pending_poll_requests.simps)
    moreover have "snd (snd (serve_pending_poll_requests cancelled clock c r)) = snd (snd (serve_pending_poll_requests cancelled clock c' r'))"
      by (subst serve_pending_poll_requests.simps) (simp add: Some p s split_def Let_def del: serve_pending_poll_requests.simps)
    moreover have "serve_one cancelled clock q r = r'" using s by (simp add: serve_one_def)
    ultimately show ?thesis using w by (simp del: serve_pending_poll_requests.simps)
  qed
qed

definition serve_on :: "(string \<Rightarrow> instant \<times> timestamp) \<Rightarrow> poll_request \<Rightarrow> machine \<Rightarrow> machine" where
  "serve_on clock request m =
     m\<lparr>mc_rec := serve_one False clock request (mc_rec m),
       mc_poller := (case request of SnapshotRequest \<Rightarrow> Some (build_poll_snapshot (mc_rec m)) | ApplyRequest _ _ \<Rightarrow> None)\<rparr>"

text \<open>What the poller may ask: a snapshot at any time, and to publish counts made from the last one.\<close>

definition request_ok :: "extern \<Rightarrow> poll_request \<Rightarrow> machine \<Rightarrow> bool" where
  "request_ok E request m \<longleftrightarrow>
     (case request of
        SnapshotRequest \<Rightarrow> True
      | ApplyRequest sn counters \<Rightarrow> mc_poller m = Some sn \<and> (\<exists>listed :: call_error + task list. poll_replicas_state E listed sn = Inr counters))"

fun requests_ok :: "extern \<Rightarrow> (string \<Rightarrow> instant \<times> timestamp) \<Rightarrow> poll_request list \<Rightarrow> machine \<Rightarrow> bool" where
  "requests_ok E clock [] m \<longleftrightarrow> True"
| "requests_ok E clock (q # qs) m \<longleftrightarrow> request_ok E q m \<and> requests_ok E clock qs (serve_on clock q m)"

lemma serve_on_run:
  assumes "mc_phase m = Between" and "request_ok E q m"
  shows "(mstep E)\<^sup>*\<^sup>* m (serve_on clock q m)"
proof (cases q)
  case SnapshotRequest
  have "mstep E m (m\<lparr>mc_poller := None\<rparr>)" by (rule mstep.abandon)
  moreover have "mstep E (m\<lparr>mc_poller := None\<rparr>) (m\<lparr>mc_poller := Some (build_poll_snapshot (mc_rec m))\<rparr>)"
    using mstep.snapshot [of "m\<lparr>mc_poller := None\<rparr>" E] assms(1) by simp
  moreover have "serve_on clock q m = m\<lparr>mc_poller := Some (build_poll_snapshot (mc_rec m))\<rparr>"
    using SnapshotRequest by (cases m) (simp add: serve_on_def serve_one_def serve_poll_request_def)
  ultimately show ?thesis by simp
next
  case (ApplyRequest sn counters)
  obtain listed :: "call_error + task list" where l: "poll_replicas_state E listed sn = Inr counters" and p: "mc_poller m = Some sn"
    using assms(2) ApplyRequest by (auto simp: request_ok_def)
  have "serve_on clock q m = m\<lparr>mc_rec := outcome_state (apply_poll_counts sn counters clock (mc_rec m)), mc_poller := None\<rparr>"
    using ApplyRequest by (cases "apply_poll_counts sn counters clock (mc_rec m)") (simp_all add: serve_on_def serve_one_def serve_poll_request_def)
  then show ?thesis using mstep.submit [OF assms(1) p l refl, of clock] by (metis r_into_rtranclp)
qed

lemma serve_on_frame [simp]: "mc_phase (serve_on clock q m) = mc_phase m" "mc_rec (serve_on clock q m) = serve_one False clock q (mc_rec m)"
  by (simp_all add: serve_on_def)

lemma serve_all_run:
  "mc_phase m = Between \<Longrightarrow> requests_ok E clock qs m \<Longrightarrow>
   (mstep E)\<^sup>*\<^sup>* m (fold (serve_on clock) qs m) \<and> mc_phase (fold (serve_on clock) qs m) = Between
   \<and> mc_rec (fold (serve_on clock) qs m) = fold (serve_one False clock) qs (mc_rec m)"
proof (induction qs arbitrary: m)
  case (Cons q qs)
  from Cons.IH [of "serve_on clock q m"] Cons.prems serve_on_run [of m E q clock] show ?case by (auto intro: rtranclp_trans)
qed simp

section \<open>The loop is a run\<close>

text \<open>The turns of a loop whose poll requests are those of a poller.\<close>

fun turns_ok :: "extern \<Rightarrow> loop_turn list \<Rightarrow> machine \<Rightarrow> bool" where
  "turns_ok E [] m \<longleftrightarrow> True"
| "turns_ok E (t # turns) m \<longleftrightarrow>
     lt_cancelled t \<or>
     (requests_ok E (lt_poll_clock t) (waiting (lt_pending t)) m
      \<and> (let m' = fold (serve_on (lt_poll_clock t)) (waiting (lt_pending t)) m;
             (r, cancelled) = cycle_until E (lt_answers t) (lt_stop t) (mc_rec m');
             m' = m'\<lparr>mc_rec := r\<rparr>
         in cancelled
            \<or> (if next_wake_delay r (lt_now t) = Some 0 then turns_ok E turns m'
               else case lt_wake t of
                      WakeCancelled \<Rightarrow> True
                    | WakeNotified \<Rightarrow> turns_ok E turns (m'\<lparr>mc_rec := notified r\<rparr>)
                    | WakeTimer \<Rightarrow> turns_ok E turns m'
                    | WakeRequest q \<Rightarrow> request_ok E q m' \<and> turns_ok E turns (serve_on (lt_poll_clock t) q m'))))"

text \<open>One turn that goes on: the requests, the cycle, and what woke it.\<close>

lemma turn_run:
  assumes "mc_phase m = Between" and "\<not> lt_cancelled t" and "turns_ok E (t # turns) m"
    and "m1 = fold (serve_on (lt_poll_clock t)) (waiting (lt_pending t)) m" and "(r, c) = cycle_until E (lt_answers t) (lt_stop t) (mc_rec m1)"
  shows "(mstep E)\<^sup>*\<^sup>* m (m1\<lparr>mc_rec := r\<rparr>)" "mc_phase m1 = Between" "mc_rec m1 = fold (serve_one False (lt_poll_clock t)) (waiting (lt_pending t)) (mc_rec m)"
proof -
  have "requests_ok E (lt_poll_clock t) (waiting (lt_pending t)) m" using assms(2,3) by simp
  from serve_all_run [OF assms(1) this] assms(4)
  have m1: "(mstep E)\<^sup>*\<^sup>* m m1" "mc_phase m1 = Between" "mc_rec m1 = fold (serve_one False (lt_poll_clock t)) (waiting (lt_pending t)) (mc_rec m)" by simp_all
  then show "mc_phase m1 = Between" "mc_rec m1 = fold (serve_one False (lt_poll_clock t)) (waiting (lt_pending t)) (mc_rec m)" by simp_all
  have "(mstep E)\<^sup>*\<^sup>* m1 (m1\<lparr>mc_rec := r\<rparr>)" using cycle_until_run [OF m1(2), of E "lt_answers t" "lt_stop t"] assms(5) by (metis fst_conv)
  with m1(1) show "(mstep E)\<^sup>*\<^sup>* m (m1\<lparr>mc_rec := r\<rparr>)" by (rule rtranclp_trans)
qed

lemma loop_run:
  assumes "mc_phase m = Between" and "turns_ok E turns m"
  shows "\<exists>m'. (mstep E)\<^sup>*\<^sup>* m m' \<and> mc_rec m' = fst (reconciler_run E turns (mc_rec m))"
  using assms
proof (induction turns arbitrary: m)
  case (Cons t turns)
  show ?case
  proof (cases "lt_cancelled t")
    case False
    define m1 where "m1 = fold (serve_on (lt_poll_clock t)) (waiting (lt_pending t)) m"
    obtain r c where rc: "(r, c) = cycle_until E (lt_answers t) (lt_stop t) (mc_rec m1)" by (metis surj_pair)
    note run = turn_run [OF Cons.prems(1) False Cons.prems(2) m1_def rc]
    have "\<exists>a ch. serve_pending_poll_requests False (lt_poll_clock t) (lt_pending t) (mc_rec m) = (a, ch, mc_rec m1)"
      using serve_pending_fold [of False "lt_poll_clock t" "lt_pending t" "mc_rec m"] run(3) by (metis prod.collapse)
    then have step: "reconciler_run E (t # turns) (mc_rec m) =
        (if c then (r, True) else if next_wake_delay r (lt_now t) = Some 0 then reconciler_run E turns r
         else if lt_wake t = WakeCancelled then (r, True) else reconciler_run E turns (turn_wake t r))"
      using False by (auto simp: rc [symmetric] simp del: serve_pending_poll_requests.simps)
    let ?m2 = "m1\<lparr>mc_rec := r\<rparr>"
    have b: "mc_phase ?m2 = Between" using run(2) by simp
    have continue: ?thesis if "(mstep E)\<^sup>*\<^sup>* ?m2 m3" "mc_phase m3 = Between" "turns_ok E turns m3" "mc_rec m3 = r3"
        "reconciler_run E (t # turns) (mc_rec m) = reconciler_run E turns r3" for m3 r3
      using Cons.IH [OF that(2,3)] that run(1) by (metis rtranclp_trans)
    have ok: "c \<or> (if next_wake_delay r (lt_now t) = Some 0 then turns_ok E turns ?m2
        else case lt_wake t of WakeCancelled \<Rightarrow> True | WakeNotified \<Rightarrow> turns_ok E turns (?m2\<lparr>mc_rec := notified r\<rparr>) | WakeTimer \<Rightarrow> turns_ok E turns ?m2
             | WakeRequest q \<Rightarrow> request_ok E q ?m2 \<and> turns_ok E turns (serve_on (lt_poll_clock t) q ?m2))"
      using Cons.prems(2) False unfolding turns_ok.simps m1_def [symmetric] Let_def rc [symmetric] prod.case by blast
    consider "c \<or> next_wake_delay r (lt_now t) \<noteq> Some 0 \<and> lt_wake t = WakeCancelled"
      | "\<not> c" "next_wake_delay r (lt_now t) = Some 0 \<or> lt_wake t = WakeTimer"
      | "\<not> c" "next_wake_delay r (lt_now t) \<noteq> Some 0" "lt_wake t = WakeNotified"
      | q where "\<not> c" "next_wake_delay r (lt_now t) \<noteq> Some 0" "lt_wake t = WakeRequest q"
      by (cases "lt_wake t") auto
    then show ?thesis
    proof cases
      case 1
      then show ?thesis using run(1) step by (intro exI [of _ ?m2]) auto
    next
      case 2
      then show ?thesis using continue [of ?m2 r] b ok step by (auto simp: turn_wake_def split: if_splits)
    next
      case 3
      have "mstep E ?m2 (?m2\<lparr>mc_rec := notified (mc_rec ?m2)\<rparr>)" by (rule mstep.woken [OF b])
      then have "(mstep E)\<^sup>*\<^sup>* ?m2 (?m2\<lparr>mc_rec := notified r\<rparr>)" by auto
      then show ?thesis using continue [of "?m2\<lparr>mc_rec := notified r\<rparr>" "notified r"] 3 b ok step by (simp add: turn_wake_def)
    next
      case 4
      then have "request_ok E q ?m2" using ok by simp
      then show ?thesis
        using continue [OF serve_on_run [OF b], of q "lt_poll_clock t"] 4 b ok step by (simp add: turn_wake_def)
    qed
  qed auto
qed auto

lemma reach_steps: "step\<^sup>*\<^sup>* s t \<Longrightarrow> reach init step s \<Longrightarrow> reach init step t"
  by (induction rule: rtranclp_induct) (auto intro: reach_step)

lemma run_returns: "\<exists>t \<in> set turns. lt_cancelled t \<Longrightarrow> snd (reconciler_run E turns r)"
  by (induction turns arbitrary: r) (auto split: prod.split simp del: serve_pending_poll_requests.simps)

lemma run_goes_on: "\<forall>t \<in> set turns. \<not> lt_cancelled t \<and> lt_stop t = (\<lambda>_. False) \<and> lt_wake t \<noteq> WakeCancelled \<Longrightarrow> \<not> snd (reconciler_run E turns r)"
  by (induction turns arbitrary: r) (auto split: prod.split simp: cycle_until_never simp del: serve_pending_poll_requests.simps)

section \<open>Properties\<close>


text \<open>A loop that refreshes the nodes, is asked for a snapshot, and is cancelled while it inspects.\<close>

definition example_answers :: answers where
  "example_answers = \<lparr>an_now = 0, an_periodic = 0, an_pass_start = 0, an_nodes = Inl OtherError, an_lists = Inr ([web ''web''], []),
     an_inspect = (\<lambda>_. Inl NotFound), an_step_clock = (\<lambda>_. (0, 0)), an_repair_clock = (\<lambda>_. (0, 0))\<rparr>"

definition example_turn :: loop_turn where
  "example_turn = \<lparr>lt_cancelled = False, lt_pending = \<lparr>pr_snapshots = 1, pr_applies = []\<rparr>, lt_poll_clock = (\<lambda>_. (0, 0)), lt_answers = example_answers,
     lt_stop = (\<lambda>_. False), lt_now = 0, lt_wake = WakeTimer\<rparr>"


end
