(* ===== verification/Panic_Recovery.thy ===== *)
theory Panic_Recovery
  imports Swarm_Prelude
begin

text \<open>
  \<^verbatim>\<open>src/src/collector/reconciler/recover.rs\<close>: running one step so that its panic becomes a report. A thread keeps
  how many recovered steps it is polling and the stack the hook captured; what reaches the previous hook is
  recorded, so that a theorem can say which panics are quiet. A future is what each of its polls does, in
  turn; a poll that panics runs the hook first and unwinds then. The polls are all on one thread: the marks
  are set and dropped within a poll, so one that moves to another thread finds it as unmarked. Before the
  first recovered step the hook is not installed and every panic goes to the previous one, as it would.
\<close>

section \<open>Definitions\<close>

datatype payload = StrPayload string | StringPayload string | OtherPayload

record thread =
  th_recovering :: nat
  th_captured :: "string option"
  th_printed :: "string list"

datatype 'a polled = Pending | Ready 'a | Unwinds payload

type_synonym 'a poll = "thread \<Rightarrow> 'a polled \<times> thread"

record panic_report =
  pr_payload :: string
  pr_stack :: string

text \<open>The hook: inside a recovered step it captures the stack, elsewhere the previous hook runs.\<close>

definition panic_hook :: "string \<Rightarrow> thread \<Rightarrow> thread" where
  "panic_hook stack th =
     (if th_recovering th > 0 then th\<lparr>th_captured := Some stack\<rparr> else th\<lparr>th_printed := th_printed th @ [stack]\<rparr>)"

definition panics :: "payload \<Rightarrow> string \<Rightarrow> 'a poll" where
  "panics p stack = (\<lambda>th. (Unwinds p, panic_hook stack th))"

definition payload_string :: "payload \<Rightarrow> string" where
  "payload_string p = (case p of StrPayload s \<Rightarrow> s | StringPayload s \<Rightarrow> s | OtherPayload \<Rightarrow> ''Box<dyn Any>'')"

definition enter :: "thread \<Rightarrow> thread" where
  "enter th = th\<lparr>th_recovering := th_recovering th + 1\<rparr>"

text \<open>Dropping the mark, which an unwinding does too; saturating.\<close>

definition leave :: "thread \<Rightarrow> thread" where
  "leave th = th\<lparr>th_recovering := th_recovering th - 1\<rparr>"

definition recovered_poll :: "'a poll \<Rightarrow> (panic_report + 'a) poll" where
  "recovered_poll inner = (\<lambda>th.
     let (polled, th) = inner (enter th); th = leave th in
     case polled of
       Pending \<Rightarrow> (Pending, th)
     | Ready v \<Rightarrow> (Ready (Inr v), th)
     | Unwinds p \<Rightarrow>
         (Ready (Inl \<lparr>pr_payload = payload_string p, pr_stack = (case th_captured th of Some s \<Rightarrow> s | None \<Rightarrow> '''')\<rparr>),
          th\<lparr>th_captured := None\<rparr>))"

text \<open>Awaiting: poll after poll until one is not pending; \<open>None\<close> while all there were are pending.\<close>

fun await :: "'a poll list \<Rightarrow> thread \<Rightarrow> 'a polled option \<times> thread" where
  "await [] th = (None, th)"
| "await (p # ps) th = (case p th of (Pending, th) \<Rightarrow> await ps th | (polled, th) \<Rightarrow> (Some polled, th))"

definition recover :: "'a poll list \<Rightarrow> thread \<Rightarrow> (panic_report + 'a) polled option \<times> thread" where
  "recover future th = await (map recovered_poll future) th"

section \<open>Properties\<close>

text \<open>A poll that leaves the thread's own marks as it found them, and prints nothing while one is set.\<close>

definition tidy :: "'a poll \<Rightarrow> bool" where
  "tidy p \<longleftrightarrow> (\<forall>th. th_recovering (snd (p th)) = th_recovering th \<and> (th_recovering th > 0 \<longrightarrow> th_printed (snd (p th)) = th_printed th))"

lemma tidy_simple: "tidy (\<lambda>th. (polled, th))" "tidy (panics p stack)"
  by (simp_all add: tidy_def panics_def panic_hook_def)

lemma recovered_quiet:
  assumes "tidy p"
  shows "th_recovering (snd (recovered_poll p th)) = th_recovering th" "th_printed (snd (recovered_poll p th)) = th_printed th"
    "fst (recovered_poll p th) \<noteq> Unwinds q"
proof -
  obtain x t where p: "p (enter th) = (x, t)" by force
  have "th_recovering t = Suc (th_recovering th)" "th_printed t = th_printed th"
    using assms p unfolding tidy_def by (metis Suc_eq_plus1 enter_def snd_conv thread.select_convs(1,3) thread.surjective thread.update_convs(1) zero_less_Suc)+
  then show "th_recovering (snd (recovered_poll p th)) = th_recovering th" "th_printed (snd (recovered_poll p th)) = th_printed th"
    "fst (recovered_poll p th) \<noteq> Unwinds q"
    using p by (simp_all add: recovered_poll_def leave_def Let_def split: polled.split)
qed

text \<open>A recovered step may itself be a poll of a recovered step.\<close>

lemma tidy_recovered: "tidy p \<Longrightarrow> tidy (recovered_poll p)"
  using recovered_quiet(1,2) by (auto simp: tidy_def)

lemma recover_quiet:
  "list_all tidy future \<Longrightarrow> recover future th = (x, t) \<Longrightarrow> th_recovering t = th_recovering th \<and> th_printed t = th_printed th \<and> x \<noteq> Some (Unwinds q)"
proof (induction future arbitrary: th)
  case (Cons p future)
  obtain y u where y: "recovered_poll p th = (y, u)" by force
  have "th_recovering u = th_recovering th" "th_printed u = th_printed th" "y \<noteq> Unwinds q"
    using recovered_quiet [of p th] Cons.prems(1) y by simp_all
  then show ?case using Cons y by (cases y) (auto simp: recover_def)
qed (simp add: recover_def)

text \<open>
  C17: a panic costs its step and nothing else. However the step is made of tidy polls, running it
  recovered never unwinds, prints nothing, and leaves the thread as unmarked as it was; a step that
  panics after any number of pending polls is answered with its payload as text and the stack at the
  panic, which is not left behind for a later report; and a panic outside any recovered step is printed.
\<close>

theorem recover_contains_panics:
  fixes future rest :: "'a poll list"
  assumes "list_all tidy future" and "recover future th = (x, t)"
  shows "th_recovering t = th_recovering th \<and> th_printed t = th_printed th \<and> x \<noteq> Some (Unwinds q)
    \<and> recover (replicate n (\<lambda>th. (Pending, th)) @ panics p stack # rest) th =
        (Some (Ready (Inl \<lparr>pr_payload = payload_string p, pr_stack = stack\<rparr>)), th\<lparr>th_captured := None\<rparr>)
    \<and> recover (replicate n (\<lambda>th. (Pending, th)) @ (\<lambda>th. (Ready v, th)) # rest) th = (Some (Ready (Inr v)), th)
    \<and> (th_recovering th = 0 \<longrightarrow> th_printed (snd ((panics p stack :: 'a poll) th)) = th_printed th @ [stack])"
proof -
  have pending: "recovered_poll (\<lambda>th. (Pending, th)) th = (Pending, th)" for th by (simp add: recovered_poll_def enter_def leave_def)
  have wait: "recover (replicate n (\<lambda>th. (Pending, th)) @ ps) th = recover ps th" for ps th
    by (induction n) (simp_all add: recover_def pending)
  have "recover (panics p stack # rest) th = (Some (Ready (Inl \<lparr>pr_payload = payload_string p, pr_stack = stack\<rparr>)), th\<lparr>th_captured := None\<rparr>)"
    by (simp add: recover_def recovered_poll_def panics_def panic_hook_def enter_def leave_def)
  moreover have "recover ((\<lambda>th. (Ready v, th)) # rest) th = (Some (Ready (Inr v)), th)"
    by (simp add: recover_def recovered_poll_def enter_def leave_def)
  ultimately show ?thesis using recover_quiet [OF assms] by (simp add: wait panics_def panic_hook_def)
qed

theorem recover_contains_panics_witness:
  "recover [(\<lambda>th. (Pending, th)), panics (StrPayload ''boom'') ''stack''] \<lparr>th_recovering = 0, th_captured = None, th_printed = []\<rparr> =
     (Some (Ready (Inl \<lparr>pr_payload = ''boom'', pr_stack = ''stack''\<rparr>)) :: (panic_report + unit) polled option,
      \<lparr>th_recovering = 0, th_captured = None, th_printed = []\<rparr>)"
proof -
  let ?th = "\<lparr>th_recovering = 0, th_captured = None, th_printed = []\<rparr>"
  have n: "list_all tidy ([] :: unit poll list)" "recover [] ?th = (None :: (panic_report + unit) polled option, ?th)"
    by (simp_all add: recover_def)
  show ?thesis
    using recover_contains_panics [OF n, of OtherPayload 1 "StrPayload ''boom''" "''stack''" "[] :: unit poll list" "()"]
    by (simp add: payload_string_def)
qed

end
