(* ===== verification/Spec2Isabelle.thy ===== *)
theory Spec2Isabelle
  imports Exposition Cluster_Facts Docker_Client Reconciler_Loop Panic_Recovery Task_Choice
begin

text \<open>
  A verification library for the Docker Swarm scheduler exporter, the Rust program under \<^verbatim>\<open>src/src\<close>. It
  watches a Swarm through the Docker API and exports Prometheus gauges: for every service its desired,
  schedulable and running replicas, the states of its tasks, whether it is at its desired state and how
  its updates go; the nodes by state; the containers by state; and the health of the exporter itself.

  \<^bold>\<open>How the program works.\<close> One task, the reconciler, owns the caches (the metadata of every service, the
  nodes) and writes the gauges. It learns of changes in three ways: a full resync lists services and
  nodes; the event listener marks what an event changed dirty; a dirty key is served by inspecting that
  service. Failures back off and retry, and whatever cannot be tracked (a full queue, retries used up, a
  panic, a reconnect) becomes a resync request. The poller counts tasks: it asks the reconciler for a
  snapshot, lists the tasks, counts them against the snapshot and hands the counts back, and the
  reconciler publishes a service's counts only if nothing about it changed meanwhile. Health reads the
  resync counters and the time of the last published poll.

  \<^bold>\<open>Modelling.\<close> Each theory follows one source file or one part of it, in the order of the source, with
  the source's names. A struct is a record, an enum a datatype, a method a function on the state it
  changes; a \<^verbatim>\<open>HashMap\<close> is an association list with distinct keys whose order stands for the table's
  unspecified order, a \<^verbatim>\<open>BTreeMap\<close> a sorted one; text is its UTF-8 bytes. A panic or an error is an
  \<open>outcome\<close> or a sum that keeps what was written before it. Counters of generations, epochs and events
  are natural numbers, as a \<^verbatim>\<open>u64\<close> counting up by one does not wrap in the lifetime of a process; the
  places where width matters (saturating durations, \<^verbatim>\<open>i64\<close> times, the rounding of an integer to a 64-bit
  float, \<^verbatim>\<open>usize\<close> parsing) are written out. Clock readings and the answers of Docker are arguments. Code
  of other crates is a parameter: Unicode case folding and IP networks (\<open>extern\<close>), the range of a
  timestamp (\<open>time_range\<close>), reading an RFC 3339 time (\<open>time_library\<close>), what connecting and the engine
  answer (\<open>attempt\<close> and the engine functions of \<open>Docker_Client\<close>), the HTTP client of the probe, sockets and name
  lookup, the argument parser (\<open>outside\<close>).

  \<^bold>\<open>The theories.\<close>
  \<^item> \<open>Swarm_Prelude\<close>: containers with the interface \<open>keyed_store\<close>, durations, outcomes, reachability and
    the interface \<open>step_invariant\<close>. \<open>Rust_Text\<close> (\<^verbatim>\<open>text.rs\<close>, \<^verbatim>\<open>num.rs\<close>), \<open>Decimal\<close>, \<open>Net_Addr\<close>: text and numbers.
  \<^item> \<open>Labels\<close> (\<^verbatim>\<open>labels.rs\<close>), \<open>Metric_Families\<close> (\<^verbatim>\<open>metrics.rs\<close>), \<open>Docker_Types\<close> (\<^verbatim>\<open>docker/types.rs\<close>).
  \<^item> \<open>Service_Metadata\<close> (\<^verbatim>\<open>collector/types.rs\<close>, \<^verbatim>\<open>metrics_ids.rs\<close>, the label check of \<^verbatim>\<open>cli.rs\<close>), \<open>Desired\<close>
    (\<^verbatim>\<open>desired.rs\<close>: placement and the replica gauges), \<open>Service_Update\<close>, \<open>Nodes_By_State\<close>.
  \<^item> \<open>Replicas_State\<close> with \<open>Task_Choice\<close> and \<open>Poll_Counts\<close> (\<^verbatim>\<open>replicas_state.rs\<close>, \<^verbatim>\<open>poll_snapshot.rs\<close>): the choice of
    the current task of a slot, the counters, the published families.
  \<^item> \<open>Exporter_Metrics\<close>, \<open>Dirty_Set\<close>, \<open>Reconciler\<close> (\<^verbatim>\<open>exporter_metrics.rs\<close>, \<^verbatim>\<open>reconciler/mod.rs\<close>) with \<open>Reconciler_Facts\<close>
    (the invariant \<open>rec_ok\<close>) and \<open>Reconciler_Invariant\<close> (every operation keeps it).
  \<^item> \<open>Poll\<close> (\<^verbatim>\<open>reconciler/poll.rs\<close>) with \<open>Poll_Facts\<close> (generations only move on; what an accepted service
    means) and \<open>Poll_Publish\<close> (what a submission leaves).
  \<^item> \<open>Reconciler_Run\<close>: the step relation \<open>mstep\<close> over a machine of the reconciler, the phase of its cycle
    and the poll under way; \<open>Resync\<close> and \<open>Run_Properties\<close>: what holds in every reachable state.
  \<^item> \<open>Listener\<close> (\<^verbatim>\<open>reconciler/listener.rs\<close>) with the interface \<open>listener_effects\<close>; \<open>Health\<close> (\<^verbatim>\<open>health.rs\<close>);
    \<open>Containers\<close> (\<^verbatim>\<open>containers.rs\<close>); \<open>Host_Port\<close>, \<open>Healthcheck\<close> (\<^verbatim>\<open>host_port.rs\<close>, \<^verbatim>\<open>healthcheck.rs\<close>);
    \<open>Docker_Query\<close> (\<^verbatim>\<open>docker/query.rs\<close>).
  \<^item> \<open>Reconciler_Loop\<close>: the loop itself (\<^verbatim>\<open>run\<close>) with its waits and its cancellation, and the poller's side of the
    exchange; \<open>Panic_Recovery\<close> (\<^verbatim>\<open>reconciler/recover.rs\<close>): the hook and the recovered step.
  \<^item> \<open>Docker_Convert\<close> (\<^verbatim>\<open>docker/convert.rs\<close>, \<^verbatim>\<open>docker/error.rs\<close>): the engine's answers as the exporter's types;
    \<open>Docker_Client\<close> (\<^verbatim>\<open>docker/api.rs\<close>, \<^verbatim>\<open>collector/error.rs\<close>): the connection made on demand, the calls, their
    deadlines and what the reconciler makes of a failure.
  \<^item> \<open>Server\<close> (\<^verbatim>\<open>server.rs\<close>), \<open>Command_Line\<close> (\<^verbatim>\<open>cli.rs\<close>), \<open>Startup\<close> (\<^verbatim>\<open>run.rs\<close>, \<^verbatim>\<open>docker/mod.rs\<close>): the two routes and
    the drain, the scan of the arguments, how the parts are put together, the poller, the shutdown.
    \<open>Registry\<close> (\<^verbatim>\<open>register_metrics\<close> and every \<^verbatim>\<open>register\<close>): the families a scrape asks, in order.
  \<^item> \<open>Metrics_Text\<close> (\<^verbatim>\<open>testenv/src/metrics_text.rs\<close>): the reader of the exposition the end-to-end tests use. \<open>Exposition\<close>
    (\<^verbatim>\<open>render\<close> of \<^verbatim>\<open>metrics.rs\<close>): the whole page, every registered family with its series.
  \<^item> \<open>Test_Cluster\<close> (\<^verbatim>\<open>testenv/src\<close>: \<^verbatim>\<open>cluster.rs\<close>, \<^verbatim>\<open>dind.rs\<close>, \<^verbatim>\<open>images.rs\<close>, \<^verbatim>\<open>config.rs\<close>): bringing up the throwaway Swarm of
    the end-to-end tests, its waits included, as steps on the world outside; \<open>Cluster_Facts\<close>: what they guarantee.

  \<^bold>\<open>Interleaving.\<close> A phase of the machine is a point where the state lock is free. Events, resync requests
  and counter updates are steps of their own and may come at any phase; polls are answered between
  cycles. What the reconciler does after a Docker answer, up to the next call or check, is one step: no
  other task writes what it reads except through the lock, and an event that takes the lock in the
  middle of such a step touches only the queue and the generations, as it would before or after it.
  \<open>cycle\<close> is the cycle of the source run without a disturbance, and a property shows it is a run. A
  cancellation ends a Docker call without a write and is a step at every call; \<open>reconciler_run\<close> is the loop
  with a cancellation at any point, and it is a run too, as are one poll and the listener.

  \<^bold>\<open>What is shown.\<close> The invariant of the run: the queue within its cap, the resync counters and readiness
  consistent, the generations marking exactly the cached services, the backoffs bounded, the desired
  counts those of the nodes held, and no exported series without a cached owner. That a resync makes the
  caches those of Docker and, unless identities are shared, exports every count; where they are shared,
  it loses series. That accepted counts belong to the metadata and nodes they were made for, that a
  change makes older counts unacceptable for good, and how long previous counts are carried. That no
  event or retry is lost, that the timer is exact, that steps panic only on a service without metadata.
  For the parts: the task that counts for a slot, the published values, at-desired, placement bounds,
  one-hot states, label names, the health verdict, reconnecting, container rows, addresses, the probe.
  For the process: what serves runs on well-formed state, no two families share a name, the time a
  shutdown takes, that a panic costs its step only. For the calls: a resync works from exactly what the engine listed, and only a 404 makes
  a service forgotten. For the tests: the reader gives back the series the exporter encodes, and the page
  of a running exporter reads back whole (\<open>exposition_reads_back\<close>); a bring-up of the test cluster returns
  (\<open>up_returns\<close>), a cluster it returns has the shape asked for, ready and loaded (\<open>up_cluster\<close>), and what it
  leaves on the host carries the labels a clean-up goes by (\<open>up_leaves_labelled\<close>). And across them, in this theory: after a resync a scrape reads the counts of every service the engine listed.

  \<^bold>\<open>Loops and bounds.\<close> Every function but one is total. Loops over lists are structural; serving the waiting poll
  requests is a recursion on their number. The listener's loop runs over the turns there were, since it
  only ends with a cancellation; the reconciler's loop and the poller's likewise. The wait of the test
  cluster (\<open>poll_loop\<close>) is a partial function into options, shown to return when the clock moves on. Exact counts need
  fewer than \<^verbatim>\<open>2^53\<close> tasks or nodes, the integers a 64-bit float holds.

  \<^bold>\<open>Not modelled.\<close> Logging and its set-up, the buckets of the poll duration histogram and the rendering of the
  exposition format (the Prometheus client library; \<open>Metrics_Text\<close> writes down the format it documents, as
  the text the reader is given), Rust's \<^verbatim>\<open>Debug\<close> quoting and float printing, the argument parser, the HTTP and
  Docker client libraries and the HTTP server library below the handlers, signals, and the library
  \<^verbatim>\<open>testenv-core\<close> below the test cluster, whose calls are given as a record.
\<close>

section \<open>From the engine's lists to the scrape\<close>

lemma encoded_name: "f \<in> set (gv_encode g) \<Longrightarrow> ef_name f = desc_name (gv_desc g)"
  by (auto simp: gv_encode_def encode_gauge_family_def split: if_splits)



end
